(* ===== verification/Prelude.thy ===== *)
theory Prelude
  imports Main "HOL-Library.State_Monad"
begin

text \<open>
  Shared machinery of the development: Hoare triples and invariant preservation over the
  state monad of \<open>HOL-Library.State_Monad\<close>, the loops of the Go code as monadic folds, the SQL
  statement shapes the stores use (\<open>UPDATE .. WHERE\<close> over a table kept as a list of rows), and
  the list lemmas about them. \<open>pres\<close> collects the rules that push an invariant through a
  handler's body.
\<close>

named_theorems pres "introduction rules: an invariant is preserved by a piece of monadic code"
named_theorems rows "facts on the rows of a table after a statement"

section \<open>Triples over the state monad\<close>

definition valid :: "('s \<Rightarrow> bool) \<Rightarrow> ('s, 'a) state \<Rightarrow> ('a \<Rightarrow> 's \<Rightarrow> bool) \<Rightarrow> bool" where
  "valid P m Q \<longleftrightarrow> (\<forall>s. P s \<longrightarrow> Q (fst (run_state m s)) (snd (run_state m s)))"

definition keeps :: "('s \<Rightarrow> bool) \<Rightarrow> ('s, 'a) state \<Rightarrow> bool" where
  "keeps I m \<longleftrightarrow> valid I m (\<lambda>_. I)"

lemma valid_return: "(\<And>s. P s \<Longrightarrow> Q x s) \<Longrightarrow> valid P (State_Monad.return x) Q"
  by (simp add: valid_def)

lemma valid_bind:
  "valid P m Q \<Longrightarrow> (\<And>a. valid (Q a) (f a) R) \<Longrightarrow> valid P (State_Monad.bind m f) R"
  by (simp add: valid_def split_beta)

lemma valid_weaken:
  "valid P m Q \<Longrightarrow> (\<And>s. P' s \<Longrightarrow> P s) \<Longrightarrow> (\<And>a s. Q a s \<Longrightarrow> Q' a s) \<Longrightarrow> valid P' m Q'"
  by (simp add: valid_def)

lemma validD: "valid P m Q \<Longrightarrow> run_state m s = (a, s') \<Longrightarrow> P s \<Longrightarrow> Q a s'"
  unfolding valid_def by (metis fst_conv snd_conv)

lemma keeps_valid: "keeps I m \<Longrightarrow> valid I m (\<lambda>_. I)"
  by (simp add: keeps_def)

lemma keepsI: "(\<And>s. I s \<Longrightarrow> I (snd (run_state m s))) \<Longrightarrow> keeps I m"
  by (simp add: keeps_def valid_def)

lemma keepsD: "keeps I m \<Longrightarrow> I s \<Longrightarrow> I (snd (run_state m s))"
  by (simp add: keeps_def valid_def)

lemma keeps_return [pres]: "keeps I (State_Monad.return x)"
  by (rule keepsI) simp

lemma keeps_bind [pres]:
  assumes "keeps I m" and "\<And>a. keeps I (f a)"
  shows "keeps I (State_Monad.bind m f)"
  by (rule keepsI) (auto simp: split_beta dest: keepsD [OF assms(1)] intro: keepsD [OF assms(2)])

lemma keeps_if [pres]:
  "(b \<Longrightarrow> keeps I m) \<Longrightarrow> (\<not> b \<Longrightarrow> keeps I n) \<Longrightarrow> keeps I (if b then m else n)"
  by simp

lemma keeps_sum [pres]:
  "(\<And>e. x = Inl e \<Longrightarrow> keeps I (f e)) \<Longrightarrow> (\<And>v. x = Inr v \<Longrightarrow> keeps I (g v)) \<Longrightarrow>
   keeps I (case x of Inl e \<Rightarrow> f e | Inr v \<Rightarrow> g v)"
  by (cases x) auto

lemma keeps_option [pres]:
  "(x = None \<Longrightarrow> keeps I m) \<Longrightarrow> (\<And>v. x = Some v \<Longrightarrow> keeps I (f v)) \<Longrightarrow>
   keeps I (case x of None \<Rightarrow> m | Some v \<Rightarrow> f v)"
  by (cases x) auto

lemma keeps_prod [pres]:
  "(\<And>a b. x = (a, b) \<Longrightarrow> keeps I (f a b)) \<Longrightarrow> keeps I (case x of (a, b) \<Rightarrow> f a b)"
  by (cases x) auto

lemma keeps_let [pres]: "(\<And>y. y = x \<Longrightarrow> keeps I (f y)) \<Longrightarrow> keeps I (let y = x in f y)"
  by simp

lemma keeps_conj:
  "keeps I m \<Longrightarrow> keeps J m \<Longrightarrow> keeps (\<lambda>s. I s \<and> J s) m"
  by (simp add: keeps_def valid_def)

section \<open>Loops\<close>

text \<open>A Go \<open>for .. range\<close> loop whose body has effects and updates one accumulator.\<close>

fun for_each :: "'a list \<Rightarrow> 'b \<Rightarrow> ('a \<Rightarrow> 'b \<Rightarrow> ('s, 'b) state) \<Rightarrow> ('s, 'b) state" where
  "for_each [] acc body = State_Monad.return acc"
| "for_each (x # xs) acc body = State_Monad.bind (body x acc) (\<lambda>acc'. for_each xs acc' body)"

lemma keeps_for_each [pres]:
  assumes "\<And>x acc. x \<in> set xs \<Longrightarrow> keeps I (body x acc)"
  shows "keeps I (for_each xs acc body)"
  using assms by (induction xs arbitrary: acc) (auto intro!: pres)

lemma find_SomeD: "find P xs = Some x \<Longrightarrow> x \<in> set xs \<and> P x"
  by (induction xs) (auto split: if_splits)

section \<open>Statements on a table\<close>

text \<open>\<open>UPDATE t SET f WHERE p\<close>, and the rows \<open>RETURNING\<close> gives back.\<close>

definition update_where :: "('r \<Rightarrow> bool) \<Rightarrow> ('r \<Rightarrow> 'r) \<Rightarrow> 'r list \<Rightarrow> 'r list" where
  "update_where p f rs = map (\<lambda>r. if p r then f r else r) rs"

definition returning :: "('r \<Rightarrow> bool) \<Rightarrow> ('r \<Rightarrow> 'r) \<Rightarrow> 'r list \<Rightarrow> 'r list" where
  "returning p f rs = map f (filter p rs)"

lemma update_where_Nil [simp]: "update_where p f [] = []"
  by (simp add: update_where_def)

lemma update_where_Cons [simp]:
  "update_where p f (r # rs) = (if p r then f r else r) # update_where p f rs"
  by (simp add: update_where_def)

lemma length_update_where [simp]: "length (update_where p f rs) = length rs"
  by (simp add: update_where_def)

lemma set_update_where [rows]:
  "set (update_where p f rs) = f ` {r \<in> set rs. p r} \<union> {r \<in> set rs. \<not> p r}"
  by (auto simp: update_where_def)

lemma update_where_none: "(\<And>r. r \<in> set rs \<Longrightarrow> \<not> p r) \<Longrightarrow> update_where p f rs = rs"
  by (induction rs) auto

lemma map_update_where:
  "(\<And>r. p r \<Longrightarrow> k (f r) = k r) \<Longrightarrow> map k (update_where p f rs) = map k rs"
  by (induction rs) auto

lemma filter_map_update_where:
  "(\<And>r. p r \<Longrightarrow> k (f r) = k r) \<Longrightarrow> (\<And>r. p r \<Longrightarrow> q (f r) = q r) \<Longrightarrow>
   map k (filter q (update_where p f rs)) = map k (filter q rs)"
  by (induction rs) auto

lemma returning_iff [rows]: "returning p f rs = [] \<longleftrightarrow> (\<forall>r \<in> set rs. \<not> p r)"
  by (induction rs) (auto simp: returning_def)

lemma set_returning [rows]: "set (returning p f rs) = f ` {r \<in> set rs. p r}"
  by (auto simp: returning_def)

lemma ball_update_where:
  assumes "\<forall>r \<in> set rs. P r" and "\<And>r. P r \<Longrightarrow> p r \<Longrightarrow> P (f r)"
  shows "\<forall>r \<in> set (update_where p f rs). P r"
  using assms by (auto simp: rows)

text \<open>Rows with a primary key: the key finds at most one row.\<close>

definition row_of :: "('r \<Rightarrow> 'k) \<Rightarrow> 'k \<Rightarrow> 'r list \<Rightarrow> 'r option" where
  "row_of key k rs = find (\<lambda>r. key r = k) rs"

lemma row_of_Nil [simp]: "row_of key k [] = None"
  by (simp add: row_of_def)

lemma row_of_Cons [simp]:
  "row_of key k (r # rs) = (if key r = k then Some r else row_of key k rs)"
  by (simp add: row_of_def)

lemma row_of_append [simp]:
  "row_of key k (rs @ ss) = (case row_of key k rs of None \<Rightarrow> row_of key k ss | Some r \<Rightarrow> Some r)"
  by (induction rs) auto

lemma row_of_SomeD: "row_of key k rs = Some r \<Longrightarrow> r \<in> set rs \<and> key r = k"
  by (induction rs) (auto split: if_splits)

lemma row_of_None: "row_of key k rs = None \<longleftrightarrow> k \<notin> key ` set rs"
  by (induction rs) auto

lemma row_of_distinct:
  "distinct (map key rs) \<Longrightarrow> r \<in> set rs \<Longrightarrow> row_of key (key r) rs = Some r"
  by (induction rs) (auto simp: image_iff)

lemma row_of_update_where:
  assumes "\<And>r. p r \<Longrightarrow> key (f r) = key r"
  shows "row_of key k (update_where p f rs) =
    map_option (\<lambda>r. if p r then f r else r) (row_of key k rs)"
  using assms by (induction rs) auto

lemma returning_key:
  "returning (\<lambda>r. key r = k \<and> q r) f rs = map f (filter q (filter (\<lambda>r. key r = k) rs))"
  by (simp add: returning_def conj_commute)

lemma filter_key_distinct:
  "distinct (map key rs) \<Longrightarrow>
   filter (\<lambda>r. key r = k) rs = (case row_of key k rs of None \<Rightarrow> [] | Some r \<Rightarrow> [r])"
proof (induction rs)
  case (Cons a rs)
  show ?case
  proof (cases "key a = k")
    case True
    with Cons.prems have "filter (\<lambda>r. key r = k) rs = []"
      by (auto simp: filter_empty_conv image_iff)
    with True show ?thesis by simp
  next
    case False
    with Cons show ?thesis by simp
  qed
qed simp

end
