(* ===== verification/Domain_Types.thy ===== *)
theory Domain_Types
  imports Prelude "HOL-Library.Word"
begin

text \<open>
  The data of \<open>backend/internal/domain\<close>: the status enumerations and their
  terminal states, the job, worker, workflow and workflow task rows, the request and filter
  structures and the defaults. A \<open>uuid.UUID\<close> is its 16 bytes, a 128-bit word whose zero is
  \<open>uuid.Nil\<close>; \<open>time.Time\<close> and \<open>time.Duration\<close> are whole numbers of nanoseconds; a Go
  pointer field is an option; a payload is opaque text.
\<close>

type_synonym uuid = "128 word"
type_synonym time = int
type_synonym duration = int

abbreviation uuid_Nil :: uuid where "uuid_Nil \<equiv> 0"

definition millisecond :: duration where "millisecond = 1000000"
definition second :: duration where "second = 1000 * millisecond"
definition minute :: duration where "minute = 60 * second"
definition hour :: duration where "hour = 60 * minute"

lemmas duration_defs = millisecond_def second_def minute_def hour_def

text \<open>Go's \<open>Time.UnixMilli\<close> drops the part below a millisecond, towards minus infinity.\<close>

definition UnixMilli :: "time \<Rightarrow> int" where
  "UnixMilli t = t div 1000000"

text \<open>The decimal digits \<open>%d\<close> prints.\<close>

fun show_nat :: "nat \<Rightarrow> string" where
  "show_nat n =
     (if n < 10 then [''0123456789'' ! n] else show_nat (n div 10) @ [''0123456789'' ! (n mod 10)])"

declare show_nat.simps [simp del]

definition show_int :: "int \<Rightarrow> string" where
  "show_int i = (if i < 0 then CHR ''-'' # show_nat (nat (- i)) else show_nat (nat i))"

text \<open>\<open>%q\<close>: double quotes, with quotes, backslashes and control characters escaped.\<close>

definition quote_char :: "char \<Rightarrow> string" where
  "quote_char c =
     (let n = (of_char c :: nat); bs = CHR 0x5C
      in if n = 0x22 \<or> n = 0x5C then [bs, c]
         else if n = 7 then [bs, CHR ''a'']
         else if n = 8 then [bs, CHR ''b'']
         else if n = 9 then [bs, CHR ''t'']
         else if n = 10 then [bs, CHR ''n'']
         else if n = 11 then [bs, CHR ''v'']
         else if n = 12 then [bs, CHR ''f'']
         else if n = 13 then [bs, CHR ''r'']
         else if n < 32 \<or> n = 127
         then [bs, CHR ''x'', ''0123456789abcdef'' ! (n div 16), ''0123456789abcdef'' ! (n mod 16)]
         else [c])"

definition strconv_Quote :: "string \<Rightarrow> string" where
  "strconv_Quote s = [CHR 0x22] @ concat (map quote_char s) @ [CHR 0x22]"

section \<open>Statuses\<close>

datatype job_status =
    JobStatusQueued | JobStatusRunning | JobStatusSucceeded | JobStatusFailed
  | JobStatusRetrying | JobStatusCancelled | JobStatusTimeout | JobStatusDeadLetter

fun job_status_text :: "job_status \<Rightarrow> string" where
  "job_status_text JobStatusQueued = ''QUEUED''"
| "job_status_text JobStatusRunning = ''RUNNING''"
| "job_status_text JobStatusSucceeded = ''SUCCEEDED''"
| "job_status_text JobStatusFailed = ''FAILED''"
| "job_status_text JobStatusRetrying = ''RETRYING''"
| "job_status_text JobStatusCancelled = ''CANCELLED''"
| "job_status_text JobStatusTimeout = ''TIMEOUT''"
| "job_status_text JobStatusDeadLetter = ''DEAD_LETTER''"

definition JobStatus_IsTerminal :: "job_status \<Rightarrow> bool" where
  "JobStatus_IsTerminal s =
     (case s of
        JobStatusSucceeded \<Rightarrow> True
      | JobStatusFailed \<Rightarrow> True
      | JobStatusCancelled \<Rightarrow> True
      | JobStatusTimeout \<Rightarrow> True
      | JobStatusDeadLetter \<Rightarrow> True
      | _ \<Rightarrow> False)"

datatype workflow_status =
    WorkflowStatusPending | WorkflowStatusRunning | WorkflowStatusSucceeded
  | WorkflowStatusFailed | WorkflowStatusCancelled

fun workflow_status_text :: "workflow_status \<Rightarrow> string" where
  "workflow_status_text WorkflowStatusPending = ''PENDING''"
| "workflow_status_text WorkflowStatusRunning = ''RUNNING''"
| "workflow_status_text WorkflowStatusSucceeded = ''SUCCEEDED''"
| "workflow_status_text WorkflowStatusFailed = ''FAILED''"
| "workflow_status_text WorkflowStatusCancelled = ''CANCELLED''"

definition WorkflowStatus_IsTerminal :: "workflow_status \<Rightarrow> bool" where
  "WorkflowStatus_IsTerminal s \<longleftrightarrow>
     s = WorkflowStatusSucceeded \<or> s = WorkflowStatusFailed \<or> s = WorkflowStatusCancelled"

datatype task_status =
    WorkflowTaskStatusPending | WorkflowTaskStatusRunning | WorkflowTaskStatusSucceeded
  | WorkflowTaskStatusFailed | WorkflowTaskStatusCancelled

definition WorkflowTaskStatus_IsTerminal :: "task_status \<Rightarrow> bool" where
  "WorkflowTaskStatus_IsTerminal s \<longleftrightarrow>
     s = WorkflowTaskStatusSucceeded \<or> s = WorkflowTaskStatusFailed \<or>
     s = WorkflowTaskStatusCancelled"

datatype worker_status = WorkerStatusActive | WorkerStatusDraining | WorkerStatusOffline

section \<open>Rows\<close>

record job =
  j_ID :: uuid
  j_Type :: string
  j_Payload :: string
  j_Status :: job_status
  j_Priority :: int
  j_MaxAttempts :: int
  j_Attempt :: int
  j_IdempotencyKey :: "string option"
  j_Error :: "string option"
  j_WorkerID :: "string option"
  j_Queue :: string
  j_RunAt :: time
  j_StartedAt :: "time option"
  j_CompletedAt :: "time option"
  j_CreatedAt :: time
  j_UpdatedAt :: time

record worker =
  w_ID :: string
  w_Status :: worker_status
  w_LastHeartbeat :: time
  w_StartedAt :: time
  w_CompletedCount :: int
  w_FailedCount :: int
  w_CreatedAt :: time
  w_UpdatedAt :: time

record workflow =
  wf_ID :: uuid
  wf_Name :: string
  wf_Status :: workflow_status
  wf_Error :: "string option"
  wf_CreatedAt :: time
  wf_StartedAt :: "time option"
  wf_CompletedAt :: "time option"
  wf_UpdatedAt :: time

record workflow_task =
  t_ID :: uuid
  t_WorkflowID :: uuid
  t_JobID :: "uuid option"
  t_Name :: string
  t_Type :: string
  t_Payload :: string
  t_Status :: task_status
  t_Dependencies :: "string list"
  t_Error :: "string option"
  t_CreatedAt :: time
  t_StartedAt :: "time option"
  t_CompletedAt :: "time option"
  t_UpdatedAt :: time

section \<open>Requests, filters, defaults\<close>

record create_job_request =
  cj_Type :: string
  cj_Payload :: "string option"
  cj_Priority :: "int option"
  cj_MaxAttempts :: "int option"
  cj_IdempotencyKey :: "string option"
  cj_Queue :: "string option"

definition DefaultPriority :: int where "DefaultPriority = 2"
definition DefaultMaxAttempts :: int where "DefaultMaxAttempts = 3"
definition DefaultQueue :: string where "DefaultQueue = ''default''"

lemmas default_defs = DefaultPriority_def DefaultMaxAttempts_def DefaultQueue_def

record job_filter =
  jf_Status :: "string option"
  jf_Type :: "string option"
  jf_Queue :: "string option"
  jf_Priority :: "int option"
  jf_Limit :: int
  jf_Offset :: int

record create_task_request =
  ct_Name :: string
  ct_Type :: string
  ct_Payload :: "string option"
  ct_Priority :: "int option"
  ct_Dependencies :: "string list"

record create_workflow_request =
  cw_Name :: string
  cw_Tasks :: "create_task_request list"

record workflow_filter =
  ff_Status :: "string option"
  ff_Limit :: int
  ff_Offset :: int

text \<open>The non-terminal job statuses, as the switch's default branch leaves them.\<close>

lemma JobStatus_IsTerminal_iff:
  "JobStatus_IsTerminal s \<longleftrightarrow>
     s \<notin> {JobStatusQueued, JobStatusRunning, JobStatusRetrying}"
  by (cases s) (simp_all add: JobStatus_IsTerminal_def)

lemma job_status_text_inj: "job_status_text s = job_status_text t \<longleftrightarrow> s = t"
  by (cases s; cases t) simp_all

end
