(* ===== verification/Redis_Server.thy ===== *)
theory Redis_Server
  imports Domain_Types "HOL-Library.AList" "HOL-Library.Multiset" "HOL-Library.Char_ord" "HOL-Library.List_Lexorder"
    "HOL-Library.Product_Lexorder"
begin

text \<open>
  What the queue uses of the Redis server and of the UUID package, neither of which is in the
  repository. The sorted-set commands are a record of functions, and the locale \<open>sorted_set\<close>
  states their documented behaviour through \<open>ZSCORE\<close>; the text form of a UUID is a record with
  the documented round trip in the locale \<open>uuid_text\<close>. A score is a whole number: every score the
  queue writes is a Unix time in milliseconds, exact in a double. The last section gives one
  implementation of each record, on which the witnesses run.
\<close>

section \<open>Sorted sets\<close>

record 'z zset_ops =
  zempty :: 'z
  zadd :: "int \<Rightarrow> string \<Rightarrow> 'z \<Rightarrow> 'z"
  zrem :: "string \<Rightarrow> 'z \<Rightarrow> 'z"
  zrange :: "nat \<Rightarrow> nat \<Rightarrow> 'z \<Rightarrow> string list"
  zrangebyscore :: "int \<Rightarrow> 'z \<Rightarrow> string list"
  zcard :: "'z \<Rightarrow> nat"
  zscore :: "'z \<Rightarrow> string \<Rightarrow> int option"

text \<open>
  \<open>ZADD\<close> sets the score of a member, \<open>ZREM\<close> removes it, \<open>ZRANGE key 0 0\<close> is the member of least
  score (ties by the bytes of the member), \<open>ZRANGEBYSCORE key -inf b\<close> lists the members of score at
  most \<open>b\<close>, \<open>ZCARD\<close> counts.
\<close>

locale sorted_set =
  fixes R :: "'z zset_ops"
  assumes score_empty: "zscore R (zempty R) = Map.empty"
    and score_add: "zscore R (zadd R s m z) = (zscore R z)(m \<mapsto> s)"
    and score_rem: "zscore R (zrem R m z) = (zscore R z)(m := None)"
    and first_none: "zrange R 0 0 z = [] \<longleftrightarrow> zscore R z = Map.empty"
    and first_some: "zrange R 0 0 z = x # xs \<Longrightarrow>
      xs = [] \<and> (\<exists>s. zscore R z x = Some s \<and>
        (\<forall>m t. zscore R z m = Some t \<longrightarrow> s < t \<or> s = t \<and> x \<le> m))"
    and by_score: "set (zrangebyscore R b z) = {m. \<exists>s. zscore R z m = Some s \<and> s \<le> b}"
    and by_score_distinct: "distinct (zrangebyscore R b z)"
    and members_finite: "finite (dom (zscore R z))"
    and card: "zcard R z = card (dom (zscore R z))"
begin

lemma first_in:
  "zrange R 0 0 z = x # xs \<Longrightarrow> x \<in> dom (zscore R z)"
  using first_some by blast

lemma range_cases:
  obtains "zrange R 0 0 z = []" "zscore R z = Map.empty"
  | x s where "zrange R 0 0 z = [x]" "zscore R z x = Some s"
      "\<forall>m t. zscore R z m = Some t \<longrightarrow> s < t \<or> s = t \<and> x \<le> m"
proof (cases "zrange R 0 0 z")
  case Nil
  with first_none that(1) show ?thesis by simp
next
  case (Cons x xs)
  from first_some [OF Cons] Cons that(2) show ?thesis by auto
qed

end

text \<open>The server's keyspace: sorted sets, counters, string keys with an expiry, plain sets.\<close>

record 'z redis =
  zsets :: "string \<Rightarrow> 'z"
  counters :: "string \<Rightarrow> int"
  strkeys :: "string \<Rightarrow> (time \<times> time) option"
  sets :: "string \<Rightarrow> string set"

definition empty_redis :: "'z zset_ops \<Rightarrow> 'z redis" where
  "empty_redis R =
    \<lparr>zsets = (\<lambda>_. zempty R), counters = (\<lambda>_. 0), strkeys = (\<lambda>_. None), sets = (\<lambda>_. {})\<rparr>"

section \<open>The text form of a UUID\<close>

record uuid_ops =
  uuid_String :: "uuid \<Rightarrow> string"
  uuid_Parse :: "string \<Rightarrow> uuid option"

locale uuid_text =
  fixes U :: uuid_ops
  assumes parse_String: "uuid_Parse U (uuid_String U u) = Some u"
    and String_nonempty: "uuid_String U u \<noteq> ''''"
begin

lemma String_inj: "uuid_String U u = uuid_String U v \<longleftrightarrow> u = v"
  using parse_String by (metis option.inject)

end

text \<open>Both together: what \<open>internal/queue/redis.go\<close> runs on.\<close>

locale redis_server = sorted_set R + uuid_text U for R :: "'z zset_ops" and U :: uuid_ops

section \<open>An implementation of each\<close>

text \<open>A sorted set as an association list from members to scores, sorted when it is read.\<close>

type_synonym zlist = "(string \<times> int) list"

definition zl_items :: "zlist \<Rightarrow> (int \<times> string) list" where
  "zl_items z = sort (map (\<lambda>(m, s). (s, m)) (AList.clearjunk z))"

definition zlist_ops :: "zlist zset_ops" where
  "zlist_ops =
    \<lparr>zempty = [],
     zadd = (\<lambda>s m z. AList.update m s z),
     zrem = (\<lambda>m z. AList.delete m z),
     zrange = (\<lambda>i j z. map snd (take (Suc j - i) (drop i (zl_items z)))),
     zrangebyscore = (\<lambda>b z. map snd (filter (\<lambda>(s, m). s \<le> b) (zl_items z))),
     zcard = (\<lambda>z. length (AList.clearjunk z)),
     zscore = map_of\<rparr>"

lemma zl_items_iff: "(s, m) \<in> set (zl_items z) \<longleftrightarrow> map_of z m = Some s"
proof -
  have "(s, m) \<in> set (zl_items z) \<longleftrightarrow> (m, s) \<in> set (AList.clearjunk z)"
    by (force simp: zl_items_def)
  also have "\<dots> \<longleftrightarrow> map_of (AList.clearjunk z) m = Some s"
    by (simp add: distinct_clearjunk)
  finally show ?thesis by (simp add: map_of_clearjunk)
qed

lemma zl_members_distinct: "distinct (map snd (zl_items z))"
proof -
  have "mset (map snd (zl_items z)) = mset (map fst (AList.clearjunk z))"
    by (simp add: zl_items_def image_mset.compositionality comp_def split_beta)
  then show ?thesis
    using distinct_clearjunk [of z] by (metis mset_eq_imp_distinct_iff)
qed

lemma zl_first:
  assumes "zl_items z = (s, x) # rest" and "map_of z m = Some t"
  shows "s < t \<or> s = t \<and> x \<le> m"
proof -
  have "sorted (zl_items z)" by (simp add: zl_items_def)
  moreover have "(t, m) \<in> set (zl_items z)" using assms(2) by (simp add: zl_items_iff)
  ultimately have "(s, x) \<le> (t, m)" using assms(1) by auto
  then show ?thesis by (auto simp: less_eq_prod_def)
qed

interpretation zl: sorted_set zlist_ops
proof
  fix z :: zlist and x xs
  have empty: "zl_items z = [] \<longleftrightarrow> map_of z = Map.empty"
    using zl_items_iff [of _ _ z] by (metis ex_in_conv not_Some_eq prod.collapse set_empty)
  then show "zrange zlist_ops 0 0 z = [] \<longleftrightarrow> zscore zlist_ops z = Map.empty"
    by (auto simp: zlist_ops_def)
  assume "zrange zlist_ops 0 0 z = x # xs"
  then obtain s rest where items: "zl_items z = (s, x) # rest" and "xs = []"
    by (cases "zl_items z") (auto simp: zlist_ops_def)
  moreover have "map_of z x = Some s" using items zl_items_iff [of s x z] by simp
  ultimately show "xs = [] \<and> (\<exists>s. zscore zlist_ops z x = Some s \<and>
        (\<forall>m t. zscore zlist_ops z m = Some t \<longrightarrow> s < t \<or> s = t \<and> x \<le> m))"
    using zl_first [OF items] by (auto simp: zlist_ops_def)
next
  fix z :: zlist and b
  show "set (zrangebyscore zlist_ops b z) = {m. \<exists>s. zscore zlist_ops z m = Some s \<and> s \<le> b}"
    by (force simp: zlist_ops_def zl_items_iff)
  show "distinct (zrangebyscore zlist_ops b z)"
    by (simp add: zlist_ops_def zl_members_distinct distinct_map_filter)
  show "finite (dom (zscore zlist_ops z))"
    by (simp add: zlist_ops_def finite_dom_map_of)
  have "card (dom (map_of z)) = card (set (map fst (AList.clearjunk z)))"
    by (simp add: dom_map_of_conv_image_fst [symmetric] map_of_clearjunk)
  also have "\<dots> = length (AList.clearjunk z)"
    using distinct_card [OF distinct_clearjunk [of z]] by simp
  finally show "zcard zlist_ops z = card (dom (zscore zlist_ops z))"
    by (simp add: zlist_ops_def)
qed (auto simp: zlist_ops_def update_conv delete_conv)

text \<open>The 32 hexadecimal digits of the 16 bytes.\<close>

definition hex_digits :: string where "hex_digits = ''0123456789abcdef''"

fun hex_encode :: "nat \<Rightarrow> nat \<Rightarrow> string" where
  "hex_encode 0 n = []"
| "hex_encode (Suc k) n = hex_encode k (n div 16) @ [hex_digits ! (n mod 16)]"

fun hex_value :: "char \<Rightarrow> nat" where
  "hex_value c = length (takeWhile (\<lambda>d. d \<noteq> c) hex_digits)"

definition hex_decode :: "string \<Rightarrow> nat" where
  "hex_decode s = foldl (\<lambda>a c. 16 * a + hex_value c) 0 s"

definition hex_uuid_ops :: uuid_ops where
  "hex_uuid_ops =
    \<lparr>uuid_String = (\<lambda>u. hex_encode 32 (unat u)),
     uuid_Parse = (\<lambda>s. if length s = 32 \<and> set s \<subseteq> set hex_digits
       then Some (word_of_nat (hex_decode s)) else None)\<rparr>"

lemma hex_value_digit: "i < 16 \<Longrightarrow> hex_value (hex_digits ! i) = i"
proof -
  have "list_all (\<lambda>i. hex_value (hex_digits ! i) = i) [0..<16]" by code_simp
  then show "i < 16 \<Longrightarrow> hex_value (hex_digits ! i) = i" by (simp add: list_all_iff del: hex_value.simps)
qed

lemma hex_decode_encode: "hex_decode (hex_encode k n) = n mod 16 ^ k"
proof (induction k arbitrary: n)
  case (Suc k)
  have "16 * (n div 16 mod 16 ^ k) + n mod 16 = n mod 16 ^ Suc k"
    by (metis mod_mult2_eq mult.commute add.commute power_Suc)
  then show ?case
    using Suc.IH [of "n div 16"] by (simp add: hex_decode_def hex_value_digit del: hex_value.simps)
qed (simp add: hex_decode_def)

lemma hex_encode_shape: "length (hex_encode k n) = k \<and> set (hex_encode k n) \<subseteq> set hex_digits"
proof (induction k arbitrary: n)
  case (Suc k)
  have "hex_digits ! (n mod 16) \<in> set hex_digits"
    by (rule nth_mem) (simp add: hex_digits_def)
  with Suc show ?case by auto
qed simp

interpretation hex: uuid_text hex_uuid_ops
proof
  fix u :: uuid
  note shape = hex_encode_shape [of 32 "unat u"]
  have "unat u < 16 ^ 32" using unsigned_less [of u, where 'a = nat] by simp
  then have "hex_decode (hex_encode 32 (unat u)) = unat u"
    unfolding hex_decode_encode by (rule mod_less)
  then show "uuid_Parse hex_uuid_ops (uuid_String hex_uuid_ops u) = Some u"
    using shape by (simp only: hex_uuid_ops_def uuid_ops.simps if_P conj_absorb of_nat_unat) simp
  show "uuid_String hex_uuid_ops u \<noteq> []"
    using shape by (simp only: hex_uuid_ops_def uuid_ops.simps) force
qed

interpretation zl_hex: redis_server zlist_ops hex_uuid_ops ..

end
