(* ===== verification/Metrics.thy ===== *)
theory Metrics
  imports Domain_Types
begin

text \<open>
  \<open>internal/metrics/metrics.go\<close>: each function is the list of calls it makes on the metric vectors
  of the Prometheus client, with the label values; the state of a process's metrics is the
  sequence of calls made so far.
\<close>

datatype metric_call =
    JobsTotal_Inc string string
  | JobDuration_Observe string string duration
  | QueueDepth_Set string string int
  | ActiveWorkers_Set int
  | WorkflowsTotal_Inc string

definition RecordJobCreated :: "string \<Rightarrow> metric_call list" where
  "RecordJobCreated jobType = [JobsTotal_Inc jobType ''QUEUED'']"

definition RecordJobFinished :: "string \<Rightarrow> string \<Rightarrow> duration \<Rightarrow> metric_call list" where
  "RecordJobFinished jobType status d =
     [JobsTotal_Inc jobType status, JobDuration_Observe jobType status d]"

definition UpdateQueueDepth :: "string \<Rightarrow> int \<Rightarrow> int \<Rightarrow> metric_call list" where
  "UpdateQueueDepth queueName priority depth = [QueueDepth_Set queueName (show_int priority) depth]"

definition SetActiveWorkers :: "int \<Rightarrow> metric_call list" where
  "SetActiveWorkers k = [ActiveWorkers_Set k]"

definition RecordWorkflow :: "string \<Rightarrow> metric_call list" where
  "RecordWorkflow status = [WorkflowsTotal_Inc status]"

end
