(* ===== verification/Runtime.thy ===== *)
theory Runtime
  imports Complex_Main Redis_Server Metrics
begin

text \<open>
  The state every component works on and the way the Go code reaches it: the PostgreSQL tables,
  the Redis keyspace, and an environment that decides what the program cannot: the clock, the
  fate of each round trip, generated identifiers, random numbers, row locks held by other
  transactions, and what the other processes do between two calls. One round trip is one atomic
  \<open>call\<close>: first the others act, then the call takes effect or not.
\<close>

section \<open>Errors\<close>

text \<open>
  The error values the code tells apart. \<open>fmt.Errorf\<close> with \<open>%w\<close> keeps the wrapped error, so a
  wrapped error is the error itself; \<open>ErrIO\<close> is any failure of a driver, the network or the context.
\<close>

datatype err =
    ErrIO
  | ErrNoRows
  | ErrUnique
  | ErrForeignKey
  | ErrOutOfRange
  | ErrNegativeOffset
  | ErrQueueEmpty
  | ErrJobNotFound
  | ErrInvalidJob
  | ErrEmptyWorkerID
  | ErrParse string
  | ErrJobNotRetryable
  | ErrJobNotCancellable
  | ErrStoreNotConfigured
  | ErrWorkflowNotFound

section \<open>The database\<close>

record db =
  jobs_table :: "job list"
  workers_table :: "worker list"
  workflows_table :: "workflow list"
  tasks_table :: "workflow_task list"

definition empty_db :: db where
  "empty_db = \<lparr>jobs_table = [], workers_table = [], workflows_table = [], tasks_table = []\<rparr>"

text \<open>An \<open>INTEGER\<close> column holds 32 bits; PostgreSQL refuses a value outside.\<close>

definition int4 :: "int \<Rightarrow> bool" where
  "int4 x \<longleftrightarrow> - (2 ^ 31) \<le> x \<and> x < 2 ^ 31"

section \<open>The environment and the world\<close>

text \<open>
  The fate of a round trip: delivered; refused before it had an effect (the server is down, the
  context is cancelled); or applied with the reply lost.
\<close>

datatype outcome = Delivered | Refused | NoReply

record 'z env =
  clock :: "nat \<Rightarrow> time"
  fault :: "nat \<Rightarrow> outcome"
  fresh :: "nat \<Rightarrow> nat \<Rightarrow> uuid"
  random :: "nat \<Rightarrow> rat"
  locked :: "nat \<Rightarrow> uuid \<Rightarrow> bool"
  others :: "nat \<Rightarrow> db \<times> 'z redis \<Rightarrow> db \<times> 'z redis"

record 'z world =
  tick :: nat
  db :: db
  rds :: "'z redis"
  observed :: "metric_call list"

definition settle :: "'z env \<Rightarrow> 'z world \<Rightarrow> 'z world" where
  "settle E w =
     (case others E (tick w) (db w, rds w) of
        (d, r) \<Rightarrow> w\<lparr>tick := Suc (tick w), db := d, rds := r\<rparr>)"

definition call ::
  "'z env \<Rightarrow> (nat \<Rightarrow> 'z world \<Rightarrow> (err + 'a) \<times> 'z world) \<Rightarrow> ('z world, err + 'a) state" where
  "call E f = State (\<lambda>w.
     case fault E (tick w) of
       Delivered \<Rightarrow> f (tick w) (settle E w)
     | Refused \<Rightarrow> (Inl ErrIO, settle E w)
     | NoReply \<Rightarrow> (Inl ErrIO, snd (f (tick w) (settle E w))))"

text \<open>A statement or a transaction on PostgreSQL, given the number of the call.\<close>

definition pg :: "'z env \<Rightarrow> (nat \<Rightarrow> db \<Rightarrow> (err + 'a) \<times> db) \<Rightarrow> ('z world, err + 'a) state" where
  "pg E f = call E (\<lambda>n w. case f n (db w) of (r, d) \<Rightarrow> (r, w\<lparr>db := d\<rparr>))"

text \<open>A command, a script or a pipeline on Redis, given the time it is issued.\<close>

definition rcmd :: "'z env \<Rightarrow> (time \<Rightarrow> 'z redis \<Rightarrow> 'a \<times> 'z redis) \<Rightarrow> ('z world, err + 'a) state" where
  "rcmd E f = call E (\<lambda>n w. case f (clock E n) (rds w) of (r, q) \<Rightarrow> (Inr r, w\<lparr>rds := q\<rparr>))"

text \<open>\<open>time.Now()\<close> and \<open>rand.Float64()\<close> outside a call.\<close>

definition time_Now :: "'z env \<Rightarrow> ('z world, time) state" where
  "time_Now E = State (\<lambda>w. (clock E (tick w), w\<lparr>tick := Suc (tick w)\<rparr>))"

definition rand_Float64 :: "'z env \<Rightarrow> ('z world, rat) state" where
  "rand_Float64 E = State (\<lambda>w. (random E (tick w), w\<lparr>tick := Suc (tick w)\<rparr>))"

text \<open>Calls on the process's metrics.\<close>

definition emit :: "metric_call list \<Rightarrow> ('z world, unit) state" where
  "emit cs = State (\<lambda>w. ((), w\<lparr>observed := observed w @ cs\<rparr>))"

section \<open>Environments without faults and without other processes\<close>

definition reliable :: "'z env \<Rightarrow> bool" where
  "reliable E \<longleftrightarrow> (\<forall>n. fault E n = Delivered) \<and> (\<forall>n p. others E n p = p)"

definition quiet_env :: "'z env" where
  "quiet_env =
     \<lparr>clock = (\<lambda>n. 1000000 * int n), fault = (\<lambda>_. Delivered),
      fresh = (\<lambda>n k. word_of_nat (Suc n * 1024 + k)), random = (\<lambda>_. 1 / 2),
      locked = (\<lambda>_ _. False), others = (\<lambda>_ p. p)\<rparr>"

lemma reliable_quiet_env [simp]: "reliable quiet_env"
  by (simp add: reliable_def quiet_env_def)

lemma settle_reliable:
  "reliable E \<Longrightarrow> settle E w = w\<lparr>tick := Suc (tick w)\<rparr>"
  by (simp add: settle_def reliable_def)

lemma tick_settle [simp]: "tick (settle E w) = Suc (tick w)"
  by (simp add: settle_def split: prod.split)

lemma run_pg_reliable:
  "reliable E \<Longrightarrow> run_state (pg E f) w =
     (case f (tick w) (db w) of (r, d) \<Rightarrow> (r, w\<lparr>tick := Suc (tick w), db := d\<rparr>))"
  by (auto simp: pg_def call_def settle_def reliable_def split: prod.split)

lemma run_rcmd_reliable:
  "reliable E \<Longrightarrow> run_state (rcmd E f) w =
     (case f (clock E (tick w)) (rds w) of
        (r, q) \<Rightarrow> (Inr r, w\<lparr>tick := Suc (tick w), rds := q\<rparr>))"
  by (auto simp: rcmd_def call_def settle_def reliable_def split: prod.split)

lemma run_time_Now: "run_state (time_Now E) w = (clock E (tick w), w\<lparr>tick := Suc (tick w)\<rparr>)"
  by (simp add: time_Now_def)

lemma run_rand_Float64:
  "run_state (rand_Float64 E) w = (random E (tick w), w\<lparr>tick := Suc (tick w)\<rparr>)"
  by (simp add: rand_Float64_def)

lemma run_emit [simp]: "run_state (emit cs) w = ((), w\<lparr>observed := observed w @ cs\<rparr>)"
  by (simp add: emit_def)

section \<open>Every outcome of a call\<close>

lemma run_rcmd_cases:
  assumes "run_state (rcmd E f) w = (r, w')"
  obtains v q where "f (clock E (tick w)) (rds (settle E w)) = (v, q)"
      "fault E (tick w) = Delivered \<and> r = Inr v \<and> w' = (settle E w)\<lparr>rds := q\<rparr> \<or>
       fault E (tick w) = Refused \<and> r = Inl ErrIO \<and> w' = settle E w \<or>
       fault E (tick w) = NoReply \<and> r = Inl ErrIO \<and> w' = (settle E w)\<lparr>rds := q\<rparr>"
  using assms
  by (cases "f (clock E (tick w)) (rds (settle E w))"; cases "fault E (tick w)")
    (auto simp: rcmd_def call_def)

lemma run_pg_cases:
  assumes "run_state (pg E f) w = (r, w')"
  obtains v d where "f (tick w) (db (settle E w)) = (v, d)"
      "fault E (tick w) = Delivered \<and> r = v \<and> w' = (settle E w)\<lparr>db := d\<rparr> \<or>
       fault E (tick w) = Refused \<and> r = Inl ErrIO \<and> w' = settle E w \<or>
       fault E (tick w) = NoReply \<and> r = Inl ErrIO \<and> w' = (settle E w)\<lparr>db := d\<rparr>"
  using assms
  by (cases "f (tick w) (db (settle E w))"; cases "fault E (tick w)")
    (auto simp: pg_def call_def)

section \<open>Invariants of the database under any environment\<close>

text \<open>What the other processes are assumed to keep.\<close>

definition rely :: "(db \<Rightarrow> bool) \<Rightarrow> 'z env \<Rightarrow> bool" where
  "rely I E \<longleftrightarrow> (\<forall>n d r. I d \<longrightarrow> I (fst (others E n (d, r))))"

lemma rely_reliable: "reliable E \<Longrightarrow> rely I E"
  by (simp add: rely_def reliable_def)

lemma settle_rely: "rely I E \<Longrightarrow> I (db w) \<Longrightarrow> I (db (settle E w))"
  by (auto simp: settle_def rely_def split: prod.split) (metis fst_conv)

lemma keeps_pg:
  assumes "rely I E" and "\<And>n d. I d \<Longrightarrow> I (snd (f n d))"
  shows "keeps (\<lambda>w. I (db w)) (pg E f)"
proof (rule keepsI)
  fix w :: "'a world"
  assume "I (db w)"
  then have "I (db (settle E w))" by (rule settle_rely [OF assms(1)])
  then show "I (db (snd (run_state (pg E f) w)))"
    using assms(2) [of "db (settle E w)" "tick w"]
    by (auto simp: pg_def call_def split: outcome.split prod.split)
qed

lemma keeps_rcmd:
  assumes "rely I E"
  shows "keeps (\<lambda>w. I (db w)) (rcmd E f)"
  by (rule keepsI)
    (auto simp: rcmd_def call_def split: outcome.split prod.split intro: settle_rely [OF assms])

lemma keeps_emit [pres]: "keeps (\<lambda>w. I (db w)) (emit cs)"
  by (rule keepsI) (simp add: emit_def)

lemma keeps_time_Now [pres]: "keeps (\<lambda>w. I (db w)) (time_Now E)"
  by (rule keepsI) (simp add: time_Now_def)

lemma keeps_rand_Float64 [pres]: "keeps (\<lambda>w. I (db w)) (rand_Float64 E)"
  by (rule keepsI) (simp add: rand_Float64_def)

end
