(* ===== verification/Job_Store.thy ===== *)
theory Job_Store
  imports Runtime
begin

text \<open>
  \<open>internal/store/jobs.go\<close>: the job table. Every SQL statement is a function on the database that
  returns what the driver hands back and the database after it (unchanged when a constraint
  fails); every method of \<open>JobStore\<close> issues its statements as calls of the environment. The
  lemmas give each statement's effect on the row it addresses, and the methods' results.
\<close>

section \<open>Reading the driver's reply\<close>

definition query_row :: "'a list \<Rightarrow> err + 'a" where
  "query_row rs = (case rs of [] \<Rightarrow> Inl ErrNoRows | r # _ \<Rightarrow> Inr r)"

text \<open>\<open>if errors.Is(err, pgx.ErrNoRows) { return nil, nil }\<close>\<close>

definition no_rows_nil :: "err + 'a \<Rightarrow> err + 'a option" where
  "no_rows_nil r =
     (case r of Inl e \<Rightarrow> if e = ErrNoRows then Inr None else Inl e | Inr x \<Rightarrow> Inr (Some x))"

definition update_jobs :: "(job \<Rightarrow> bool) \<Rightarrow> (job \<Rightarrow> job) \<Rightarrow> db \<Rightarrow> db" where
  "update_jobs p f d = d\<lparr>jobs_table := update_where p f (jobs_table d)\<rparr>"

section \<open>Create and the lookups\<close>

definition new_job ::
  "uuid \<Rightarrow> time \<Rightarrow> string \<Rightarrow> string \<Rightarrow> int \<Rightarrow> int \<Rightarrow> string option \<Rightarrow> string \<Rightarrow> job" where
  "new_job jid now typ payload priority maxAttempts key queue =
     \<lparr>j_ID = jid, j_Type = typ, j_Payload = payload, j_Status = JobStatusQueued,
      j_Priority = priority, j_MaxAttempts = maxAttempts, j_Attempt = 0,
      j_IdempotencyKey = key, j_Error = None, j_WorkerID = None, j_Queue = queue,
      j_RunAt = now, j_StartedAt = None, j_CompletedAt = None, j_CreatedAt = now,
      j_UpdatedAt = now\<rparr>"

text \<open>\<open>INSERT .. ON CONFLICT (idempotency_key) DO NOTHING RETURNING ..\<close>, and without the key.\<close>

definition insert_job_stmt ::
  "uuid \<Rightarrow> time \<Rightarrow> string \<Rightarrow> string \<Rightarrow> int \<Rightarrow> int \<Rightarrow> string option \<Rightarrow> string \<Rightarrow> db \<Rightarrow>
   (err + job) \<times> db" where
  "insert_job_stmt jid now typ payload priority maxAttempts key queue d =
     (let j = new_job jid now typ payload priority maxAttempts key queue
      in if \<not> int4 priority \<or> \<not> int4 maxAttempts then (Inl ErrOutOfRange, d)
         else if key \<noteq> None \<and> key \<in> j_IdempotencyKey ` set (jobs_table d) then (Inl ErrNoRows, d)
         else if jid \<in> j_ID ` set (jobs_table d) then (Inl ErrUnique, d)
         else (Inr j, d\<lparr>jobs_table := jobs_table d @ [j]\<rparr>))"

definition findByIdempotencyKey :: "'z env \<Rightarrow> string \<Rightarrow> ('z world, err + job option) state" where
  "findByIdempotencyKey E key = do {
     r \<leftarrow> pg E (\<lambda>n d. (query_row (filter (\<lambda>j. j_IdempotencyKey j = Some key) (jobs_table d)), d));
     State_Monad.return (no_rows_nil r)
   }"

definition JobStore_Create ::
  "'z env \<Rightarrow> create_job_request \<Rightarrow> ('z world, err + (job \<times> bool)) state" where
  "JobStore_Create E req =
     (let priority = (case cj_Priority req of None \<Rightarrow> DefaultPriority | Some p \<Rightarrow> p);
          maxAttempts = (case cj_MaxAttempts req of None \<Rightarrow> DefaultMaxAttempts | Some m \<Rightarrow> m);
          queue = (case cj_Queue req of None \<Rightarrow> DefaultQueue | Some q \<Rightarrow> q);
          payload = (case cj_Payload req of None \<Rightarrow> ''{}'' | Some p \<Rightarrow> p);
          insert = pg E (\<lambda>n. insert_job_stmt (fresh E n 0) (clock E n) (cj_Type req) payload
            priority maxAttempts (cj_IdempotencyKey req) queue)
      in case cj_IdempotencyKey req of
           Some key \<Rightarrow> do {
             found \<leftarrow> findByIdempotencyKey E key;
             case found of
               Inl e \<Rightarrow> State_Monad.return (Inl e)
             | Inr (Some existing) \<Rightarrow> State_Monad.return (Inr (existing, False))
             | Inr None \<Rightarrow> do {
                 r \<leftarrow> insert;
                 case r of
                   Inr job \<Rightarrow> State_Monad.return (Inr (job, True))
                 | Inl err \<Rightarrow>
                     if err = ErrNoRows then do {
                       again \<leftarrow> findByIdempotencyKey E key;
                       State_Monad.return (case again of
                         Inl e \<Rightarrow> Inl e
                       | Inr (Some existing) \<Rightarrow> Inr (existing, False)
                       | Inr None \<Rightarrow> Inl err)
                     }
                     else State_Monad.return (Inl err)
               }
           }
         | None \<Rightarrow> do {
             r \<leftarrow> insert;
             State_Monad.return (case r of Inl e \<Rightarrow> Inl e | Inr job \<Rightarrow> Inr (job, True))
           })"

definition JobStore_Get :: "'z env \<Rightarrow> uuid \<Rightarrow> ('z world, err + job option) state" where
  "JobStore_Get E jid = do {
     r \<leftarrow> pg E (\<lambda>n d. (query_row (filter (\<lambda>j. j_ID j = jid) (jobs_table d)), d));
     State_Monad.return (no_rows_nil r)
   }"

section \<open>List\<close>

datatype sql_arg = ArgText string | ArgInt int

text \<open>The conditions \<open>buildWhereClause\<close> collects, as columns with placeholder numbers.\<close>

definition where_conditions :: "job_filter \<Rightarrow> (string \<times> nat) list \<times> sql_arg list" where
  "where_conditions f =
     (let add = (\<lambda>col arg (conds, args, argIdx::nat).
            case arg of None \<Rightarrow> (conds, args, argIdx)
            | Some a \<Rightarrow> (conds @ [(col, argIdx)], args @ [a], argIdx + 1));
          s1 = add ''status'' (map_option ArgText (jf_Status f)) ([], [], 1);
          s2 = add ''type'' (map_option ArgText (jf_Type f)) s1;
          s3 = add ''queue'' (map_option ArgText (jf_Queue f)) s2;
          s4 = add ''priority'' (map_option ArgInt (jf_Priority f)) s3
      in case s4 of (conds, args, argIdx) \<Rightarrow> (conds, args))"

fun strings_Join :: "string list \<Rightarrow> string \<Rightarrow> string" where
  "strings_Join [] sep = []"
| "strings_Join [x] sep = x"
| "strings_Join (x # xs) sep = x @ sep @ strings_Join xs sep"

definition buildWhereClause :: "job_filter \<Rightarrow> string \<times> sql_arg list" where
  "buildWhereClause f =
     (case where_conditions f of (conds, args) \<Rightarrow>
        if conds = [] then ([], [])
        else ('' WHERE '' @ strings_Join
               (map (\<lambda>(col, i). col @ '' = $'' @ show_nat i) conds) '' AND '', args))"

fun job_column :: "string \<Rightarrow> job \<Rightarrow> sql_arg option" where
  "job_column col j =
     (if col = ''status'' then Some (ArgText (job_status_text (j_Status j)))
      else if col = ''type'' then Some (ArgText (j_Type j))
      else if col = ''queue'' then Some (ArgText (j_Queue j))
      else if col = ''priority'' then Some (ArgInt (j_Priority j))
      else None)"

text \<open>What the database makes of the clause: \<open>$i\<close> is the \<open>i\<close>-th argument, counted from one.\<close>

definition row_matches :: "(string \<times> nat) list \<Rightarrow> sql_arg list \<Rightarrow> job \<Rightarrow> bool" where
  "row_matches conds args j =
     list_all (\<lambda>(col, i). 0 < i \<and> i \<le> length args \<and> job_column col j = Some (args ! (i - 1))) conds"

definition bad_arg :: "sql_arg \<Rightarrow> bool" where
  "bad_arg a = (case a of ArgText s \<Rightarrow> False | ArgInt i \<Rightarrow> \<not> int4 i)"

definition JobStore_List ::
  "'z env \<Rightarrow> job_filter \<Rightarrow> ('z world, err + (job list \<times> int)) state" where
  "JobStore_List E filter0 =
     (let limit1 = (if jf_Limit filter0 \<le> 0 then 50 else jf_Limit filter0);
          limit2 = (if limit1 > 200 then 200 else limit1);
          offset = jf_Offset filter0
      in case where_conditions filter0 of (conds, args) \<Rightarrow> do {
        c \<leftarrow> pg E (\<lambda>n d.
          if list_ex bad_arg args then (Inl ErrOutOfRange, d)
          else (Inr (int (length (filter (row_matches conds args) (jobs_table d)))), d));
        case c of
          Inl e \<Rightarrow> State_Monad.return (Inl e)
        | Inr total_rows \<Rightarrow> do {
            rows \<leftarrow> pg E (\<lambda>n d.
              if list_ex bad_arg args then (Inl ErrOutOfRange, d)
              else if offset < 0 then (Inl ErrNegativeOffset, d)
              else (Inr (take (nat limit2) (drop (nat offset)
                     (sort_key (\<lambda>j. - j_CreatedAt j)
                       (filter (row_matches conds args) (jobs_table d))))), d));
            State_Monad.return (case rows of Inl e \<Rightarrow> Inl e | Inr jobs \<Rightarrow> Inr (jobs, total_rows))
          }
      })"

section \<open>Claiming\<close>

definition run_job :: "string \<Rightarrow> time \<Rightarrow> job \<Rightarrow> job" where
  "run_job workerID now j =
     j\<lparr>j_Status := JobStatusRunning, j_WorkerID := Some workerID, j_Attempt := j_Attempt j + 1,
       j_StartedAt := Some now, j_UpdatedAt := now\<rparr>"

text \<open>\<open>UPDATE jobs SET f WHERE p RETURNING ..\<close>, which fails when \<open>attempt + 1\<close> overflows.\<close>

definition start_stmt :: "(job \<Rightarrow> bool) \<Rightarrow> string \<Rightarrow> time \<Rightarrow> db \<Rightarrow> (err + job) \<times> db" where
  "start_stmt p workerID now d =
     (if list_ex (\<lambda>j. p j \<and> \<not> int4 (j_Attempt j + 1)) (jobs_table d) then (Inl ErrOutOfRange, d)
      else (query_row (returning p (run_job workerID now) (jobs_table d)),
            update_jobs p (run_job workerID now) d))"

definition claim_next_stmt ::
  "(uuid \<Rightarrow> bool) \<Rightarrow> string \<Rightarrow> time \<Rightarrow> db \<Rightarrow> (err + job) \<times> db" where
  "claim_next_stmt lockd workerID now d =
     (let queued = filter (\<lambda>j. j_Status j = JobStatusQueued \<and> j_RunAt j \<le> now \<and> \<not> lockd (j_ID j))
            (jobs_table d)
      in case sort_key (\<lambda>j. (j_Priority j, j_RunAt j)) queued of
           [] \<Rightarrow> (Inl ErrNoRows, d)
         | k # _ \<Rightarrow> start_stmt (\<lambda>j. j_ID j = j_ID k) workerID now d)"

definition JobStore_Claim :: "'z env \<Rightarrow> string \<Rightarrow> ('z world, err + job option) state" where
  "JobStore_Claim E workerID = do {
     r \<leftarrow> pg E (\<lambda>n. claim_next_stmt (locked E n) workerID (clock E n));
     State_Monad.return (no_rows_nil r)
   }"

definition claim_job_stmt :: "uuid \<Rightarrow> string \<Rightarrow> time \<Rightarrow> db \<Rightarrow> (err + job) \<times> db" where
  "claim_job_stmt jid workerID now =
     start_stmt (\<lambda>j. j_ID j = jid \<and> j_Status j \<in> {JobStatusQueued, JobStatusRetrying}) workerID now"

definition JobStore_ClaimJob :: "'z env \<Rightarrow> uuid \<Rightarrow> string \<Rightarrow> ('z world, err + job option) state" where
  "JobStore_ClaimJob E jid workerID = do {
     r \<leftarrow> pg E (\<lambda>n. claim_job_stmt jid workerID (clock E n));
     State_Monad.return (no_rows_nil r)
   }"

definition revert_stmt :: "uuid \<Rightarrow> time \<Rightarrow> db \<Rightarrow> (err + unit) \<times> db" where
  "revert_stmt jid now d =
     (Inr (), update_jobs (\<lambda>j. j_ID j = jid \<and> j_Status j = JobStatusRunning)
       (\<lambda>j. j\<lparr>j_Status := JobStatusQueued, j_WorkerID := None, j_UpdatedAt := now\<rparr>) d)"

definition JobStore_RevertToQueued :: "'z env \<Rightarrow> uuid \<Rightarrow> ('z world, err + unit) state" where
  "JobStore_RevertToQueued E jid = pg E (\<lambda>n. revert_stmt jid (clock E n))"

section \<open>Failure, retry, completion\<close>

definition fail_job :: "string \<Rightarrow> time \<Rightarrow> time \<Rightarrow> job \<Rightarrow> job" where
  "fail_job jobErr nextRunAt now j =
     j\<lparr>j_Status := (if j_Attempt j < j_MaxAttempts j then JobStatusRetrying else JobStatusDeadLetter),
       j_RunAt := (if j_Attempt j < j_MaxAttempts j then nextRunAt else j_RunAt j),
       j_CompletedAt := (if j_Attempt j \<ge> j_MaxAttempts j then Some now else None),
       j_Error := Some jobErr, j_WorkerID := None, j_UpdatedAt := now\<rparr>"

definition record_failure_stmt ::
  "uuid \<Rightarrow> string \<Rightarrow> time \<Rightarrow> time \<Rightarrow> db \<Rightarrow> (err + job_status) \<times> db" where
  "record_failure_stmt jid jobErr nextRunAt now d =
     (map_sum (\<lambda>e. e) j_Status (query_row
        (returning (\<lambda>j. j_ID j = jid) (fail_job jobErr nextRunAt now) (jobs_table d))),
      update_jobs (\<lambda>j. j_ID j = jid) (fail_job jobErr nextRunAt now) d)"

definition JobStore_RecordFailure ::
  "'z env \<Rightarrow> uuid \<Rightarrow> string \<Rightarrow> time \<Rightarrow> ('z world, err + job_status) state" where
  "JobStore_RecordFailure E jid jobErr nextRunAt =
     pg E (\<lambda>n. record_failure_stmt jid jobErr nextRunAt (clock E n))"

definition due_retries :: "(uuid \<Rightarrow> bool) \<Rightarrow> int \<Rightarrow> time \<Rightarrow> job list \<Rightarrow> uuid list" where
  "due_retries lockd limit now rs =
     map j_ID (take (nat limit) (sort_key j_RunAt
       (filter (\<lambda>j. j_Status j = JobStatusRetrying \<and> j_RunAt j \<le> now \<and> \<not> lockd (j_ID j)) rs)))"

definition requeue_due_stmt ::
  "(uuid \<Rightarrow> bool) \<Rightarrow> int \<Rightarrow> time \<Rightarrow> db \<Rightarrow> (err + job list) \<times> db" where
  "requeue_due_stmt lockd limit now d =
     (let ids = due_retries lockd limit now (jobs_table d);
          p = (\<lambda>j. j_ID j \<in> set ids);
          f = (\<lambda>j. j\<lparr>j_Status := JobStatusQueued, j_UpdatedAt := now\<rparr>)
      in (Inr (returning p f (jobs_table d)), update_jobs p f d))"

definition JobStore_RequeueDueRetries :: "'z env \<Rightarrow> int \<Rightarrow> ('z world, err + job list) state" where
  "JobStore_RequeueDueRetries E limit0 =
     (let limit = (if limit0 \<le> 0 then 50 else limit0)
      in pg E (\<lambda>n. requeue_due_stmt (locked E n) limit (clock E n)))"

definition reset_job :: "time \<Rightarrow> job \<Rightarrow> job" where
  "reset_job now j =
     j\<lparr>j_Status := JobStatusQueued, j_Attempt := 0, j_Error := None, j_WorkerID := None,
       j_RunAt := now, j_CompletedAt := None, j_UpdatedAt := now\<rparr>"

definition manual_retry_stmt :: "uuid \<Rightarrow> time \<Rightarrow> db \<Rightarrow> (err + job) \<times> db" where
  "manual_retry_stmt jid now d =
     (let p = (\<lambda>j. j_ID j = jid \<and> j_Status j \<in> {JobStatusDeadLetter, JobStatusFailed})
      in (query_row (returning p (reset_job now) (jobs_table d)), update_jobs p (reset_job now) d))"

definition JobStore_ManualRetry :: "'z env \<Rightarrow> uuid \<Rightarrow> ('z world, err + job) state" where
  "JobStore_ManualRetry E jid = do {
     r \<leftarrow> pg E (\<lambda>n. manual_retry_stmt jid (clock E n));
     State_Monad.return (case r of
       Inl e \<Rightarrow> Inl (if e = ErrNoRows then ErrJobNotRetryable else e)
     | Inr job \<Rightarrow> Inr job)
   }"

definition succeed_job :: "time \<Rightarrow> job \<Rightarrow> job" where
  "succeed_job now j =
     j\<lparr>j_Status := JobStatusSucceeded, j_CompletedAt := Some now, j_UpdatedAt := now, j_Error := None\<rparr>"

definition mark_succeeded_stmt :: "uuid \<Rightarrow> time \<Rightarrow> db \<Rightarrow> (err + unit) \<times> db" where
  "mark_succeeded_stmt jid now d = (Inr (), update_jobs (\<lambda>j. j_ID j = jid) (succeed_job now) d)"

definition JobStore_MarkSucceeded :: "'z env \<Rightarrow> uuid \<Rightarrow> ('z world, err + unit) state" where
  "JobStore_MarkSucceeded E jid = pg E (\<lambda>n. mark_succeeded_stmt jid (clock E n))"

definition mark_failed_stmt :: "uuid \<Rightarrow> string \<Rightarrow> time \<Rightarrow> db \<Rightarrow> (err + unit) \<times> db" where
  "mark_failed_stmt jid jobErr now d =
     (Inr (), update_jobs (\<lambda>j. j_ID j = jid)
       (\<lambda>j. j\<lparr>j_Status := JobStatusFailed, j_CompletedAt := Some now, j_UpdatedAt := now,
              j_Error := Some jobErr\<rparr>) d)"

definition JobStore_MarkFailed :: "'z env \<Rightarrow> uuid \<Rightarrow> string \<Rightarrow> ('z world, err + unit) state" where
  "JobStore_MarkFailed E jid jobErr = pg E (\<lambda>n. mark_failed_stmt jid jobErr (clock E n))"

definition cancel_stmt :: "uuid \<Rightarrow> time \<Rightarrow> db \<Rightarrow> (err + nat) \<times> db" where
  "cancel_stmt jid now d =
     (let p = (\<lambda>j. j_ID j = jid \<and> j_Status j \<in> {JobStatusQueued, JobStatusRunning})
      in (Inr (length (filter p (jobs_table d))),
          update_jobs p (\<lambda>j. j\<lparr>j_Status := JobStatusCancelled, j_CompletedAt := Some now,
            j_UpdatedAt := now\<rparr>) d))"

definition JobStore_Cancel :: "'z env \<Rightarrow> uuid \<Rightarrow> ('z world, err + unit) state" where
  "JobStore_Cancel E jid = do {
     result \<leftarrow> pg E (\<lambda>n. cancel_stmt jid (clock E n));
     State_Monad.return (case result of
       Inl e \<Rightarrow> Inl e
     | Inr rowsAffected \<Rightarrow> if rowsAffected = 0 then Inl ErrJobNotCancellable else Inr ())
   }"

definition JobStore_StatusCounts :: "'z env \<Rightarrow> ('z world, err + (job_status \<times> int) list) state" where
  "JobStore_StatusCounts E =
     pg E (\<lambda>n d. (Inr (map (\<lambda>s. (s, int (length (filter (\<lambda>j. j_Status j = s) (jobs_table d)))))
       (remdups (map j_Status (jobs_table d)))), d))"

end
