(* ===== verification/Worker_Store.thy ===== *)
theory Worker_Store
  imports Job_Store
begin

text \<open>
  \<open>internal/store/workers.go\<close>: the worker registry and the recovery of a dead worker's jobs.
\<close>

definition update_workers :: "(worker \<Rightarrow> bool) \<Rightarrow> (worker \<Rightarrow> worker) \<Rightarrow> db \<Rightarrow> db" where
  "update_workers p f d = d\<lparr>workers_table := update_where p f (workers_table d)\<rparr>"

definition new_worker :: "string \<Rightarrow> time \<Rightarrow> worker" where
  "new_worker wid now =
     \<lparr>w_ID = wid, w_Status = WorkerStatusActive, w_LastHeartbeat = now, w_StartedAt = now,
      w_CompletedCount = 0, w_FailedCount = 0, w_CreatedAt = now, w_UpdatedAt = now\<rparr>"

text \<open>\<open>INSERT .. ON CONFLICT (id) DO UPDATE\<close>\<close>

definition register_stmt :: "string \<Rightarrow> time \<Rightarrow> db \<Rightarrow> (err + unit) \<times> db" where
  "register_stmt wid now d =
     (Inr (),
      if wid \<in> w_ID ` set (workers_table d)
      then update_workers (\<lambda>k. w_ID k = wid)
             (\<lambda>k. k\<lparr>w_Status := WorkerStatusActive, w_LastHeartbeat := now, w_UpdatedAt := now\<rparr>) d
      else d\<lparr>workers_table := workers_table d @ [new_worker wid now]\<rparr>)"

definition WorkerStore_Register :: "'z env \<Rightarrow> string \<Rightarrow> ('z world, err + unit) state" where
  "WorkerStore_Register E wid = pg E (\<lambda>n. register_stmt wid (clock E n))"

definition heartbeat_stmt :: "string \<Rightarrow> time \<Rightarrow> db \<Rightarrow> (err + unit) \<times> db" where
  "heartbeat_stmt wid now d =
     (Inr (), update_workers (\<lambda>k. w_ID k = wid)
        (\<lambda>k. k\<lparr>w_LastHeartbeat := now, w_UpdatedAt := now\<rparr>) d)"

definition WorkerStore_Heartbeat :: "'z env \<Rightarrow> string \<Rightarrow> ('z world, err + unit) state" where
  "WorkerStore_Heartbeat E wid = pg E (\<lambda>n. heartbeat_stmt wid (clock E n))"

definition set_status_stmt :: "string \<Rightarrow> worker_status \<Rightarrow> time \<Rightarrow> db \<Rightarrow> (err + unit) \<times> db" where
  "set_status_stmt wid status now d =
     (Inr (), update_workers (\<lambda>k. w_ID k = wid) (\<lambda>k. k\<lparr>w_Status := status, w_UpdatedAt := now\<rparr>) d)"

definition WorkerStore_SetStatus ::
  "'z env \<Rightarrow> string \<Rightarrow> worker_status \<Rightarrow> ('z world, err + unit) state" where
  "WorkerStore_SetStatus E wid status = pg E (\<lambda>n. set_status_stmt wid status (clock E n))"

text \<open>\<open>completed_count + 1\<close> and \<open>failed_count + 1\<close>, refused when they leave the column's range.\<close>

definition increment_completed_stmt :: "string \<Rightarrow> time \<Rightarrow> db \<Rightarrow> (err + unit) \<times> db" where
  "increment_completed_stmt wid now d =
     (if list_ex (\<lambda>k. w_ID k = wid \<and> \<not> int4 (w_CompletedCount k + 1)) (workers_table d)
      then (Inl ErrOutOfRange, d)
      else (Inr (), update_workers (\<lambda>k. w_ID k = wid)
             (\<lambda>k. k\<lparr>w_CompletedCount := w_CompletedCount k + 1, w_UpdatedAt := now\<rparr>) d))"

definition WorkerStore_IncrementCompleted :: "'z env \<Rightarrow> string \<Rightarrow> ('z world, err + unit) state" where
  "WorkerStore_IncrementCompleted E wid = pg E (\<lambda>n. increment_completed_stmt wid (clock E n))"

definition increment_failed_stmt :: "string \<Rightarrow> time \<Rightarrow> db \<Rightarrow> (err + unit) \<times> db" where
  "increment_failed_stmt wid now d =
     (if list_ex (\<lambda>k. w_ID k = wid \<and> \<not> int4 (w_FailedCount k + 1)) (workers_table d)
      then (Inl ErrOutOfRange, d)
      else (Inr (), update_workers (\<lambda>k. w_ID k = wid)
             (\<lambda>k. k\<lparr>w_FailedCount := w_FailedCount k + 1, w_UpdatedAt := now\<rparr>) d))"

definition WorkerStore_IncrementFailed :: "'z env \<Rightarrow> string \<Rightarrow> ('z world, err + unit) state" where
  "WorkerStore_IncrementFailed E wid = pg E (\<lambda>n. increment_failed_stmt wid (clock E n))"

definition WorkerStore_List :: "'z env \<Rightarrow> ('z world, err + worker list) state" where
  "WorkerStore_List E =
     pg E (\<lambda>n d. (Inr (sort_key (\<lambda>k. - w_LastHeartbeat k) (workers_table d)), d))"

definition dead_worker :: "time \<Rightarrow> worker \<Rightarrow> bool" where
  "dead_worker cutoff k \<longleftrightarrow> w_Status k = WorkerStatusActive \<and> w_LastHeartbeat k < cutoff"

definition WorkerStore_FindDeadWorkers ::
  "'z env \<Rightarrow> duration \<Rightarrow> ('z world, err + worker list) state" where
  "WorkerStore_FindDeadWorkers E timeout =
     pg E (\<lambda>n d. (Inr (filter (dead_worker (clock E n - timeout)) (workers_table d)), d))"

definition recover_stmt :: "string \<Rightarrow> time \<Rightarrow> db \<Rightarrow> (err + job list) \<times> db" where
  "recover_stmt deadWorkerID now d =
     (let p = (\<lambda>j. j_WorkerID j = Some deadWorkerID \<and> j_Status j = JobStatusRunning);
          f = (\<lambda>j. j\<lparr>j_Status := JobStatusQueued, j_WorkerID := None, j_UpdatedAt := now\<rparr>)
      in (Inr (returning p f (jobs_table d)), update_jobs p f d))"

definition WorkerStore_RecoverDeadWorkerJobs ::
  "'z env \<Rightarrow> string \<Rightarrow> ('z world, err + job list) state" where
  "WorkerStore_RecoverDeadWorkerJobs E deadWorkerID =
     pg E (\<lambda>n. recover_stmt deadWorkerID (clock E n))"

end
