(* ===== verification/Workflow_Store.thy ===== *)
theory Workflow_Store
  imports Worker_Store
begin

text \<open>
  \<open>internal/store/workflows.go\<close>: workflows and their tasks. A transaction is one call whose
  effect is the effect at its commit; any failure before it rolls everything back.
\<close>

section \<open>Create\<close>

definition new_workflow :: "uuid \<Rightarrow> time \<Rightarrow> string \<Rightarrow> workflow" where
  "new_workflow wid now name =
     \<lparr>wf_ID = wid, wf_Name = name, wf_Status = WorkflowStatusPending, wf_Error = None,
      wf_CreatedAt = now, wf_StartedAt = None, wf_CompletedAt = None, wf_UpdatedAt = now\<rparr>"

definition new_task :: "uuid \<Rightarrow> uuid \<Rightarrow> time \<Rightarrow> create_task_request \<Rightarrow> workflow_task" where
  "new_task tid wid now tr =
     \<lparr>t_ID = tid, t_WorkflowID = wid, t_JobID = None, t_Name = ct_Name tr, t_Type = ct_Type tr,
      t_Payload = (case ct_Payload tr of None \<Rightarrow> ''{}'' | Some p \<Rightarrow> p),
      t_Status = WorkflowTaskStatusPending, t_Dependencies = ct_Dependencies tr, t_Error = None,
      t_CreatedAt = now, t_StartedAt = None, t_CompletedAt = None, t_UpdatedAt = now\<rparr>"

text \<open>The inserts of the loop: \<open>id\<close> is the key, \<open>(workflow_id, name)\<close> is unique.\<close>

fun insert_tasks ::
  "(nat \<Rightarrow> uuid) \<Rightarrow> uuid \<Rightarrow> time \<Rightarrow> create_task_request list \<Rightarrow> nat \<Rightarrow> workflow_task list \<Rightarrow>
   err + workflow_task list" where
  "insert_tasks ids wid now [] k rows = Inr []"
| "insert_tasks ids wid now (tr # trs) k rows =
     (let t = new_task (ids k) wid now tr
      in if list_ex (\<lambda>r. t_ID r = t_ID t \<or> t_WorkflowID r = wid \<and> t_Name r = t_Name t) rows
         then Inl ErrUnique
         else (case insert_tasks ids wid now trs (Suc k) (rows @ [t]) of
                 Inl e \<Rightarrow> Inl e
               | Inr ts \<Rightarrow> Inr (t # ts)))"

definition create_workflow_stmt ::
  "(nat \<Rightarrow> uuid) \<Rightarrow> time \<Rightarrow> create_workflow_request \<Rightarrow> db \<Rightarrow>
   (err + (workflow \<times> workflow_task list)) \<times> db" where
  "create_workflow_stmt ids now req d =
     (let wflow = new_workflow (ids 0) now (cw_Name req)
      in if wf_ID wflow \<in> wf_ID ` set (workflows_table d) then (Inl ErrUnique, d)
         else (case insert_tasks ids (wf_ID wflow) now (cw_Tasks req) 1 (tasks_table d) of
                 Inl e \<Rightarrow> (Inl e, d)
               | Inr tasks \<Rightarrow>
                   (Inr (wflow, tasks),
                    d\<lparr>workflows_table := workflows_table d @ [wflow],
                      tasks_table := tasks_table d @ tasks\<rparr>)))"

definition WorkflowStore_Create ::
  "'z env \<Rightarrow> create_workflow_request \<Rightarrow> ('z world, err + (workflow \<times> workflow_task list)) state" where
  "WorkflowStore_Create E req = pg E (\<lambda>n. create_workflow_stmt (fresh E n) (clock E n) req)"

section \<open>Queries\<close>

definition tasks_of :: "uuid \<Rightarrow> db \<Rightarrow> workflow_task list" where
  "tasks_of wid d =
     sort_key t_CreatedAt (filter (\<lambda>t. t_WorkflowID t = wid) (tasks_table d))"

definition WorkflowStore_GetTasksByWorkflowID ::
  "'z env \<Rightarrow> uuid \<Rightarrow> ('z world, err + workflow_task list) state" where
  "WorkflowStore_GetTasksByWorkflowID E wid = pg E (\<lambda>n d. (Inr (tasks_of wid d), d))"

definition WorkflowStore_Get ::
  "'z env \<Rightarrow> uuid \<Rightarrow> ('z world, err + (workflow \<times> workflow_task list) option) state" where
  "WorkflowStore_Get E wid = do {
     r \<leftarrow> pg E (\<lambda>n d. (query_row (filter (\<lambda>f. wf_ID f = wid) (workflows_table d)), d));
     case no_rows_nil r of
       Inl e \<Rightarrow> State_Monad.return (Inl e)
     | Inr None \<Rightarrow> State_Monad.return (Inr None)
     | Inr (Some wflow) \<Rightarrow> do {
         ts \<leftarrow> WorkflowStore_GetTasksByWorkflowID E wid;
         State_Monad.return (case ts of Inl e \<Rightarrow> Inl e | Inr tasks \<Rightarrow> Inr (Some (wflow, tasks)))
       }
   }"

text \<open>
  The ready tasks: pending, and no row of the same workflow that a dependency names is other than
  \<open>SUCCEEDED\<close>.
\<close>

definition ready_task :: "db \<Rightarrow> uuid \<Rightarrow> workflow_task \<Rightarrow> bool" where
  "ready_task d wid t \<longleftrightarrow>
     t_WorkflowID t = wid \<and> t_Status t = WorkflowTaskStatusPending \<and>
     \<not> list_ex (\<lambda>dep_name. list_ex (\<lambda>dep.
         t_WorkflowID dep = t_WorkflowID t \<and> t_Name dep = dep_name \<and>
         t_Status dep \<noteq> WorkflowTaskStatusSucceeded) (tasks_table d)) (t_Dependencies t)"

definition WorkflowStore_GetReadyTasks ::
  "'z env \<Rightarrow> uuid \<Rightarrow> ('z world, err + workflow_task list) state" where
  "WorkflowStore_GetReadyTasks E wid =
     pg E (\<lambda>n d. (Inr (sort_key t_CreatedAt (filter (ready_task d wid) (tasks_table d))), d))"

definition WorkflowStore_GetTaskByJobID ::
  "'z env \<Rightarrow> uuid \<Rightarrow> ('z world, err + workflow_task option) state" where
  "WorkflowStore_GetTaskByJobID E jobID = do {
     r \<leftarrow> pg E (\<lambda>n d. (query_row (filter (\<lambda>t. t_JobID t = Some jobID) (tasks_table d)), d));
     State_Monad.return (no_rows_nil r)
   }"

section \<open>Updates\<close>

definition COALESCE :: "'a option \<Rightarrow> 'a option \<Rightarrow> 'a option" where
  "COALESCE a b = (case a of None \<Rightarrow> b | Some x \<Rightarrow> Some x)"

definition set_workflow ::
  "workflow_status \<Rightarrow> string option \<Rightarrow> time \<Rightarrow> workflow \<Rightarrow> workflow" where
  "set_workflow status errStr now f =
     f\<lparr>wf_Status := status,
       wf_Error := COALESCE errStr (wf_Error f),
       wf_StartedAt := (if status = WorkflowStatusRunning \<and> wf_StartedAt f = None
                        then Some now else wf_StartedAt f),
       wf_CompletedAt := (if WorkflowStatus_IsTerminal status then Some now else wf_CompletedAt f),
       wf_UpdatedAt := now\<rparr>"

definition update_workflow_stmt ::
  "uuid \<Rightarrow> workflow_status \<Rightarrow> string option \<Rightarrow> time \<Rightarrow> db \<Rightarrow> (err + unit) \<times> db" where
  "update_workflow_stmt wid status errStr now d =
     (Inr (), d\<lparr>workflows_table :=
        update_where (\<lambda>f. wf_ID f = wid) (set_workflow status errStr now) (workflows_table d)\<rparr>)"

definition WorkflowStore_UpdateStatus ::
  "'z env \<Rightarrow> uuid \<Rightarrow> workflow_status \<Rightarrow> string option \<Rightarrow> ('z world, err + unit) state" where
  "WorkflowStore_UpdateStatus E wid status errStr =
     pg E (\<lambda>n. update_workflow_stmt wid status errStr (clock E n))"

definition set_task ::
  "task_status \<Rightarrow> uuid option \<Rightarrow> string option \<Rightarrow> time \<Rightarrow> workflow_task \<Rightarrow> workflow_task" where
  "set_task status jobID errStr now t =
     t\<lparr>t_JobID := COALESCE jobID (t_JobID t),
       t_Status := status,
       t_Error := COALESCE errStr (t_Error t),
       t_StartedAt := (if status = WorkflowTaskStatusRunning \<and> t_StartedAt t = None
                       then Some now else t_StartedAt t),
       t_CompletedAt := (if WorkflowTaskStatus_IsTerminal status then Some now else t_CompletedAt t),
       t_UpdatedAt := now\<rparr>"

text \<open>\<open>job_id\<close> references \<open>jobs(id)\<close>: a new value must be the id of a row.\<close>

definition update_task_stmt ::
  "uuid \<Rightarrow> task_status \<Rightarrow> uuid option \<Rightarrow> string option \<Rightarrow> time \<Rightarrow> db \<Rightarrow> (err + unit) \<times> db" where
  "update_task_stmt tid status jobID errStr now d =
     (if list_ex (\<lambda>t. t_ID t = tid) (tasks_table d) \<and>
         (case jobID of None \<Rightarrow> False | Some j \<Rightarrow> j \<notin> j_ID ` set (jobs_table d))
      then (Inl ErrForeignKey, d)
      else (Inr (), d\<lparr>tasks_table :=
             update_where (\<lambda>t. t_ID t = tid) (set_task status jobID errStr now) (tasks_table d)\<rparr>))"

definition WorkflowStore_UpdateTask ::
  "'z env \<Rightarrow> uuid \<Rightarrow> task_status \<Rightarrow> uuid option \<Rightarrow> string option \<Rightarrow> ('z world, err + unit) state" where
  "WorkflowStore_UpdateTask E tid status jobID errStr =
     pg E (\<lambda>n. update_task_stmt tid status jobID errStr (clock E n))"

definition workflow_matches :: "workflow_filter \<Rightarrow> workflow \<Rightarrow> bool" where
  "workflow_matches f wflow =
     (case ff_Status f of None \<Rightarrow> True | Some s \<Rightarrow> workflow_status_text (wf_Status wflow) = s)"

definition WorkflowStore_List ::
  "'z env \<Rightarrow> workflow_filter \<Rightarrow> ('z world, err + (workflow list \<times> int)) state" where
  "WorkflowStore_List E f = do {
     c \<leftarrow> pg E (\<lambda>n d. (Inr (int (length (filter (workflow_matches f) (workflows_table d)))), d));
     case c of
       Inl e \<Rightarrow> State_Monad.return (Inl e)
     | Inr total_rows \<Rightarrow>
         let limit = (if ff_Limit f \<le> 0 then 20 else ff_Limit f);
             offset = (if ff_Offset f < 0 then 0 else ff_Offset f)
         in do {
           rows \<leftarrow> pg E (\<lambda>n d. (Inr (take (nat limit) (drop (nat offset)
             (sort_key (\<lambda>x. - wf_CreatedAt x)
               (filter (workflow_matches f) (workflows_table d))))), d));
           State_Monad.return (case rows of Inl e \<Rightarrow> Inl e | Inr ws \<Rightarrow> Inr (ws, total_rows))
         }
   }"

definition cancel_workflow_stmt :: "uuid \<Rightarrow> time \<Rightarrow> db \<Rightarrow> (err + unit) \<times> db" where
  "cancel_workflow_stmt wid now d =
     (let wfs = update_where
            (\<lambda>f. wf_ID f = wid \<and> wf_Status f \<in> {WorkflowStatusPending, WorkflowStatusRunning})
            (\<lambda>f. f\<lparr>wf_Status := WorkflowStatusCancelled, wf_CompletedAt := Some now,
                   wf_UpdatedAt := now\<rparr>) (workflows_table d);
          ts = update_where
            (\<lambda>t. t_WorkflowID t = wid \<and>
                 t_Status t \<in> {WorkflowTaskStatusPending, WorkflowTaskStatusRunning})
            (\<lambda>t. t\<lparr>t_Status := WorkflowTaskStatusCancelled, t_CompletedAt := Some now,
                   t_UpdatedAt := now\<rparr>) (tasks_table d)
      in (Inr (), d\<lparr>workflows_table := wfs, tasks_table := ts\<rparr>))"

definition WorkflowStore_Cancel :: "'z env \<Rightarrow> uuid \<Rightarrow> ('z world, err + unit) state" where
  "WorkflowStore_Cancel E wid = pg E (\<lambda>n. cancel_workflow_stmt wid (clock E n))"

end
