(* ===== verification/Dag.thy ===== *)
theory Dag
  imports Domain_Types "HOL-Library.AList" "HOL-Library.Multiset"
begin

text \<open>
  \<open>ValidateDAG\<close> of \<open>internal/domain/workflow.go\<close>: the checks on names, types and dependencies,
  the construction of the in-degrees and the adjacency lists, and Kahn's loop. The map
  \<open>inDegree\<close> is an association list, and the order in which Go's \<open>range\<close> walks it is a
  parameter \<open>ord\<close> (any permutation). The lemmas follow the loop with the set of visited tasks
  and show that the loop visits every task exactly when the dependencies have no cycle.
\<close>

datatype dag_error =
    NoTasks
  | NameRequired
  | TypeRequired string
  | DuplicateName string
  | SelfDependency string
  | UnknownDependency string string
  | CycleDetected

section \<open>The first pass: names and types\<close>

fun check_tasks ::
  "create_task_request list \<Rightarrow> (string \<Rightarrow> bool) \<Rightarrow> dag_error + (string \<Rightarrow> bool)" where
  "check_tasks [] taskNames = Inr taskNames"
| "check_tasks (t # ts) taskNames =
     (if ct_Name t = '''' then Inl NameRequired
      else if ct_Type t = '''' then Inl (TypeRequired (ct_Name t))
      else if taskNames (ct_Name t) then Inl (DuplicateName (ct_Name t))
      else check_tasks ts (taskNames(ct_Name t := True)))"

section \<open>The second pass: in-degrees and adjacency lists\<close>

type_synonym degrees = "(string \<times> int) list"

text \<open>Reading a Go map gives the zero value for a missing key.\<close>

definition deg :: "degrees \<Rightarrow> string \<Rightarrow> int" where
  "deg d k = (case map_of d k of None \<Rightarrow> 0 | Some v \<Rightarrow> v)"

fun init_degrees :: "create_task_request list \<Rightarrow> degrees \<Rightarrow> degrees" where
  "init_degrees [] d = d"
| "init_degrees (t # ts) d = init_degrees ts (AList.update (ct_Name t) 0 d)"

record graph =
  inDegree :: degrees
  adjacency :: "string \<Rightarrow> string list"

fun add_dependencies ::
  "string \<Rightarrow> (string \<Rightarrow> bool) \<Rightarrow> string list \<Rightarrow> graph \<Rightarrow> dag_error + graph" where
  "add_dependencies name taskNames [] g = Inr g"
| "add_dependencies name taskNames (dep # deps) g =
     (if dep = name then Inl (SelfDependency name)
      else if \<not> taskNames dep then Inl (UnknownDependency name dep)
      else add_dependencies name taskNames deps
        \<lparr>inDegree = AList.update name (deg (inDegree g) name + 1) (inDegree g),
         adjacency = (adjacency g)(dep := adjacency g dep @ [name])\<rparr>)"

fun build_graph ::
  "(string \<Rightarrow> bool) \<Rightarrow> create_task_request list \<Rightarrow> graph \<Rightarrow> dag_error + graph" where
  "build_graph taskNames [] g = Inr g"
| "build_graph taskNames (t # ts) g =
     (case add_dependencies (ct_Name t) taskNames (ct_Dependencies t) g of
        Inl e \<Rightarrow> Inl e
      | Inr g' \<Rightarrow> build_graph taskNames ts g')"

section \<open>Kahn's loop\<close>

text \<open>The inner loop over \<open>adjacency[curr]\<close>.\<close>

fun relax :: "string list \<Rightarrow> degrees \<Rightarrow> string list \<Rightarrow> degrees \<times> string list" where
  "relax [] d queue = (d, queue)"
| "relax (neighbor # ns) d queue =
     (let d' = AList.update neighbor (deg d neighbor - 1) d
      in relax ns d' (if deg d' neighbor = 0 then queue @ [neighbor] else queue))"

text \<open>
  Each push of the loop turns one positive degree into zero, so twice the number of positive
  degrees plus the length of the queue shrinks with every round.
\<close>

definition positive_degrees :: "degrees \<Rightarrow> nat" where
  "positive_degrees d = length (filter (\<lambda>(k, v). 0 < v) d)"

lemma positive_update_dec:
  "positive_degrees (AList.update k (deg d k - 1) d) =
     (if deg d k = 1 then positive_degrees d - 1 else positive_degrees d) \<and>
   (deg d k = 1 \<longrightarrow> 0 < positive_degrees d)"
  by (induction d) (auto simp: positive_degrees_def deg_def split: option.splits)

lemma deg_update: "deg (AList.update k v d) k' = (if k = k' then v else deg d k')"
  by (simp add: deg_def update_conv')

lemma relax_measure:
  "relax ns d queue = (d', queue') \<Longrightarrow>
   2 * positive_degrees d' + length queue' \<le> 2 * positive_degrees d + length queue"
proof (induction ns arbitrary: d queue)
  case (Cons k ns)
  from Cons.prems Cons.IH positive_update_dec [of k d] show ?case
    by (fastforce simp: Let_def deg_update split: if_splits)
qed simp

function kahn :: "(string \<Rightarrow> string list) \<Rightarrow> degrees \<Rightarrow> string list \<Rightarrow> nat \<Rightarrow> nat" where
  "kahn adj d [] visitedCount = visitedCount"
| "kahn adj d (cur # queue) visitedCount =
     (case relax (adj cur) d queue of (d', queue') \<Rightarrow> kahn adj d' queue' (visitedCount + 1))"
  by pat_completeness auto
termination
  by (relation "measure (\<lambda>(adj, d, queue, n). 2 * positive_degrees d + length queue)")
    (auto dest!: relax_measure [OF sym])

definition ValidateDAG ::
  "(degrees \<Rightarrow> degrees) \<Rightarrow> create_task_request list \<Rightarrow> dag_error + unit" where
  "ValidateDAG ord tasks =
     (if length tasks = 0 then Inl NoTasks
      else case check_tasks tasks (\<lambda>_. False) of
        Inl e \<Rightarrow> Inl e
      | Inr taskNames \<Rightarrow>
          (case build_graph taskNames tasks
                  \<lparr>inDegree = init_degrees tasks [], adjacency = (\<lambda>_. [])\<rparr> of
             Inl e \<Rightarrow> Inl e
           | Inr g \<Rightarrow>
               (let queue = map fst (filter (\<lambda>(name, degree). degree = 0) (ord (inDegree g)));
                    visitedCount = kahn (adjacency g) (inDegree g) queue 0
                in if visitedCount \<noteq> length tasks then Inl CycleDetected else Inr ())))"

section \<open>What the passes compute\<close>

text \<open>The dependency relation of a request: an edge from a dependency to the task that needs it.\<close>

definition dep_rel :: "create_task_request list \<Rightarrow> (string \<times> string) set" where
  "dep_rel tasks = {(dep, name). \<exists>t \<in> set tasks. ct_Name t = name \<and> dep \<in> set (ct_Dependencies t)}"

definition named_tasks :: "create_task_request list \<Rightarrow> bool" where
  "named_tasks tasks \<longleftrightarrow>
     (\<forall>t \<in> set tasks. ct_Name t \<noteq> '''' \<and> ct_Type t \<noteq> '''') \<and> distinct (map ct_Name tasks)"

definition known_deps :: "create_task_request list \<Rightarrow> bool" where
  "known_deps tasks \<longleftrightarrow>
     (\<forall>t \<in> set tasks. \<forall>dep \<in> set (ct_Dependencies t). dep \<noteq> ct_Name t \<and> dep \<in> ct_Name ` set tasks)"

lemma named_tasks_Cons:
  "named_tasks (t # ts) \<longleftrightarrow> ct_Name t \<noteq> [] \<and> ct_Type t \<noteq> [] \<and>
     ct_Name t \<notin> ct_Name ` set ts \<and> named_tasks ts"
  by (auto simp: named_tasks_def)

lemma fresh_name_upd:
  "(\<forall>s \<in> set ts. \<not> (names(k := True)) (ct_Name s)) \<longleftrightarrow>
     k \<notin> ct_Name ` set ts \<and> (\<forall>s \<in> set ts. \<not> names (ct_Name s))"
  by (auto simp: image_iff)

lemma check_tasks_Inr_iff:
  "check_tasks ts names = Inr names' \<longleftrightarrow>
     named_tasks ts \<and> (\<forall>t \<in> set ts. \<not> names (ct_Name t)) \<and>
     names' = (\<lambda>n. names n \<or> n \<in> ct_Name ` set ts)"
proof (induction ts arbitrary: names)
  case Nil
  then show ?case by (auto simp: named_tasks_def)
next
  case (Cons t ts)
  show ?case
  proof (cases "ct_Name t = '''' \<or> ct_Type t = '''' \<or> names (ct_Name t)")
    case True
    then show ?thesis by (auto simp: named_tasks_def)
  next
    case False
    have *: "(\<lambda>n. (names(ct_Name t := True)) n \<or> n \<in> ct_Name ` set ts) =
        (\<lambda>n. names n \<or> n \<in> ct_Name ` set (t # ts))"
      by auto
    from False have "check_tasks (t # ts) names = Inr names' \<longleftrightarrow>
        check_tasks ts (names(ct_Name t := True)) = Inr names'"
      by simp
    also have "\<dots> \<longleftrightarrow> named_tasks ts \<and> (\<forall>s \<in> set ts. \<not> (names(ct_Name t := True)) (ct_Name s)) \<and>
        names' = (\<lambda>n. names n \<or> n \<in> ct_Name ` set (t # ts))"
      unfolding Cons.IH * ..
    also have "\<dots> \<longleftrightarrow> named_tasks (t # ts) \<and> (\<forall>s \<in> set (t # ts). \<not> names (ct_Name s)) \<and>
        names' = (\<lambda>n. names n \<or> n \<in> ct_Name ` set (t # ts))"
      using False unfolding named_tasks_Cons fresh_name_upd by simp blast
    finally show ?thesis .
  qed
qed

lemma keys_update: "fst ` set (AList.update k v d) = insert k (fst ` set d)"
  by (simp add: dom_map_of_conv_image_fst [symmetric] update_conv')

lemma init_degrees:
  "distinct (map fst d) \<Longrightarrow> distinct (map fst (init_degrees ts d)) \<and>
   fst ` set (init_degrees ts d) = fst ` set d \<union> ct_Name ` set ts \<and>
   (\<forall>k. deg (init_degrees ts d) k = (if k \<in> ct_Name ` set ts then 0 else deg d k))"
  by (induction ts d rule: init_degrees.induct)
    (auto simp: keys_update deg_update distinct_update)

text \<open>How \<open>add_dependencies\<close> and \<open>build_graph\<close> change the graph, when they succeed.\<close>

lemma add_dependencies_Inr:
  "add_dependencies name names deps g = Inr g' \<Longrightarrow>
   (\<forall>dep \<in> set deps. dep \<noteq> name \<and> names dep) \<and>
   (\<forall>k. deg (inDegree g') k = deg (inDegree g) k + (if k = name then int (length deps) else 0)) \<and>
   (\<forall>dep. adjacency g' dep = adjacency g dep @ replicate (count_list deps dep) name) \<and>
   (distinct (map fst (inDegree g)) \<longrightarrow> distinct (map fst (inDegree g'))) \<and>
   (name \<in> fst ` set (inDegree g) \<longrightarrow> fst ` set (inDegree g') = fst ` set (inDegree g))"
proof (induction name names deps g rule: add_dependencies.induct)
  case (2 name names dep deps g)
  then show ?case
    by (auto simp: deg_update distinct_update keys_update insert_absorb
        replicate_append_same split: if_splits)
qed simp

lemma add_dependencies_total:
  "\<forall>dep \<in> set deps. dep \<noteq> name \<and> names dep \<Longrightarrow> \<exists>g'. add_dependencies name names deps g = Inr g'"
  by (induction name names deps g rule: add_dependencies.induct) auto

lemma build_graph_Inr:
  assumes "build_graph names ts g = Inr g'" and "distinct (map fst (inDegree g))"
    and "ct_Name ` set ts \<subseteq> fst ` set (inDegree g)"
  shows "(\<forall>t \<in> set ts. \<forall>dep \<in> set (ct_Dependencies t). dep \<noteq> ct_Name t \<and> names dep) \<and>
   (\<forall>k. deg (inDegree g') k = deg (inDegree g) k +
      (\<Sum>t\<leftarrow>filter (\<lambda>t. ct_Name t = k) ts. int (length (ct_Dependencies t)))) \<and>
   (\<forall>dep. adjacency g' dep = adjacency g dep @
      concat (map (\<lambda>t. replicate (count_list (ct_Dependencies t) dep) (ct_Name t)) ts)) \<and>
   distinct (map fst (inDegree g')) \<and> fst ` set (inDegree g') = fst ` set (inDegree g)"
  using assms
proof (induction names ts g rule: build_graph.induct)
  case (2 names t ts g)
  then obtain g1 where g1: "add_dependencies (ct_Name t) names (ct_Dependencies t) g = Inr g1"
    and rest: "build_graph names ts g1 = Inr g'"
    by (auto split: sum.splits)
  note add = add_dependencies_Inr [OF g1]
  have keys: "distinct (map fst (inDegree g1))" "fst ` set (inDegree g1) = fst ` set (inDegree g)"
    using add 2(3,4) by auto
  note IH = 2(1) [OF g1 rest keys(1)]
  show ?case using IH add keys 2(4) by auto
qed simp

lemma build_graph_total:
  "\<forall>t \<in> set ts. \<forall>dep \<in> set (ct_Dependencies t). dep \<noteq> ct_Name t \<and> names dep \<Longrightarrow>
   \<exists>g'. build_graph names ts g = Inr g'"
proof (induction names ts g rule: build_graph.induct)
  case (2 names t ts g)
  then obtain g1 where "add_dependencies (ct_Name t) names (ct_Dependencies t) g = Inr g1"
    using add_dependencies_total [of "ct_Dependencies t" "ct_Name t" names g] by auto
  with 2 show ?case by auto
qed simp

section \<open>The loop invariant\<close>

lemma relax_counts:
  assumes "\<forall>k \<in> set ns. int (count_list ns k) \<le> deg d k" and "relax ns d q = (d', q')"
  shows "(\<forall>k. deg d' k = deg d k - int (count_list ns k)) \<and>
    (\<exists>p. q' = q @ p \<and> distinct p \<and>
      set p = {k \<in> set ns. deg d k = int (count_list ns k)})"
  using assms
proof (induction ns arbitrary: d q)
  case (Cons n ns)
  let ?d = "AList.update n (deg d n - 1) d"
  let ?q = "if deg ?d n = 0 then q @ [n] else q"
  have dd: "deg ?d k = deg d k - (if k = n then 1 else 0)" for k
    by (simp add: deg_update)
  have le: "\<forall>k \<in> set ns. int (count_list ns k) \<le> deg ?d k"
    using Cons.prems(1) by (auto simp: dd)
  have run: "relax ns ?d ?q = (d', q')"
    using Cons.prems(2) by (simp add: Let_def)
  from Cons.IH [OF le run] obtain p where degs: "\<forall>k. deg d' k = deg ?d k - int (count_list ns k)"
    and q': "q' = ?q @ p" and p: "distinct p" "set p = {k \<in> set ns. deg ?d k = int (count_list ns k)}"
    by blast
  have ge: "int (count_list ns n) + 1 \<le> deg d n"
    using Cons.prems(1) by simp
  have zero: "deg ?d n = 0 \<longleftrightarrow> deg d n = int (count_list (n # ns) n) \<and> n \<notin> set ns"
    using ge count_list_0_iff [of ns n] by (auto simp: dd)
  have other: "k \<noteq> n \<Longrightarrow> deg ?d k = int (count_list ns k) \<longleftrightarrow> deg d k = int (count_list (n # ns) k)" for k
    by (simp add: dd)
  have this_one: "deg ?d n = int (count_list ns n) \<longleftrightarrow> deg d n = int (count_list (n # ns) n)"
    by (simp add: dd) arith
  let ?p = "if deg ?d n = 0 then n # p else p"
  have "k \<in> set ?p \<longleftrightarrow> k \<in> set (n # ns) \<and> deg d k = int (count_list (n # ns) k)" for k
  proof (cases "k = n")
    case True
    then show ?thesis using p(2) zero this_one by auto
  next
    case False
    then show ?thesis using p(2) other [OF False] by simp
  qed
  then have "set ?p = {k \<in> set (n # ns). deg d k = int (count_list (n # ns) k)}"
    by blast
  moreover have "distinct ?p"
    using p zero by auto
  moreover have "q' = q @ ?p"
    by (simp add: q')
  moreover have "\<forall>k. deg d' k = deg d k - int (count_list (n # ns) k)"
    using degs by (simp add: dd)
  ultimately show ?case by blast
qed simp

text \<open>
  \<open>kahn_inv V D d q S\<close>: of the tasks \<open>V\<close> with dependency lists \<open>D\<close>, the set \<open>S\<close> has been visited,
  the queue \<open>q\<close> holds exactly the others whose dependencies are all visited, the degrees count
  the dependencies that are not, and the edges into visited tasks have no cycle.
\<close>

definition edges_into :: "(string \<Rightarrow> string list) \<Rightarrow> string set \<Rightarrow> (string \<times> string) set" where
  "edges_into D S = {(x, k). k \<in> S \<and> x \<in> set (D k)}"

definition kahn_inv ::
  "string set \<Rightarrow> (string \<Rightarrow> string list) \<Rightarrow> degrees \<Rightarrow> string list \<Rightarrow> string set \<Rightarrow> bool" where
  "kahn_inv V D d q S \<longleftrightarrow>
     S \<subseteq> V \<and> distinct q \<and> set q \<inter> S = {} \<and>
     (\<forall>k \<in> V. deg d k = int (length (filter (\<lambda>x. x \<notin> S) (D k)))) \<and>
     S \<union> set q = {k \<in> V. set (D k) \<subseteq> S} \<and>
     acyclic (edges_into D S)"

lemma length_filter_insert:
  "x \<notin> S \<Longrightarrow> length (filter (\<lambda>y. y \<notin> S) xs) =
     length (filter (\<lambda>y. y \<notin> insert x S) xs) + count_list xs x"
  by (induction xs) auto

lemma filter_len_eq_count:
  assumes "x \<notin> S"
  shows "length (filter (\<lambda>y. y \<notin> S) xs) = count_list xs x \<longleftrightarrow> set xs \<subseteq> insert x S"
proof -
  have "length (filter (\<lambda>y. y \<notin> S) xs) = count_list xs x \<longleftrightarrow>
      filter (\<lambda>y. y \<notin> insert x S) xs = []"
    using length_filter_insert [OF assms, of xs] by simp
  then show ?thesis by (auto simp: filter_empty_conv)
qed

lemma acyclic_insert_sink:
  assumes acyc: "acyclic (edges_into D S)" and x: "x \<notin> S" "set (D x) \<subseteq> S"
    and closed: "\<And>k. k \<in> S \<Longrightarrow> set (D k) \<subseteq> S"
  shows "acyclic (edges_into D (insert x S))"
proof (rule acyclicI, intro allI)
  have no_out: "(x, k) \<notin> edges_into D (insert x S)" for k
    using x closed [of k] by (auto simp: edges_into_def)
  have old: "(a, b) \<in> edges_into D S" if "(a, b) \<in> edges_into D (insert x S)" "b \<noteq> x" for a b
    using that by (simp add: edges_into_def)
  have path: "(a, b) \<in> (edges_into D (insert x S))\<^sup>+ \<Longrightarrow> b \<noteq> x \<Longrightarrow> (a, b) \<in> (edges_into D S)\<^sup>+" for a b
  proof (induction rule: trancl_induct)
    case (base y)
    then show ?case using old by (simp add: trancl.r_into_trancl)
  next
    case (step y z)
    have "y \<noteq> x" using no_out step.hyps(2) by metis
    with step.IH old [OF step.hyps(2) step.prems] show ?case
      by (simp add: trancl.trancl_into_trancl)
  qed
  fix y
  show "(y, y) \<notin> (edges_into D (insert x S))\<^sup>+"
  proof (cases "y = x")
    case True
    show ?thesis
    proof
      assume "(y, y) \<in> (edges_into D (insert x S))\<^sup>+"
      then obtain z where "(y, z) \<in> edges_into D (insert x S)" by (meson tranclD)
      with True no_out show False by simp
    qed
  next
    case False
    then show ?thesis using path [of y y] acyc by (meson acyclic_def)
  qed
qed

lemma kahn_inv_step:
  assumes inv: "kahn_inv V D d (x # q) S" and run: "relax (adj x) d q = (d', q')"
    and adj: "\<And>x k. count_list (adj x) k = (if k \<in> V then count_list (D k) x else 0)"
  shows "kahn_inv V D d' q' (insert x S)"
proof -
  note I = inv [unfolded kahn_inv_def]
  have xV: "x \<in> V" and xS: "x \<notin> S" and xq: "x \<notin> set q" and Dx: "set (D x) \<subseteq> S"
    using I by auto
  have in_adj: "k \<in> set (adj x) \<longleftrightarrow> k \<in> V \<and> x \<in> set (D k)" for k
    using adj [of x k] count_list_0_iff [of "adj x" k] count_list_0_iff [of "D k" x]
    by (auto split: if_splits)
  have len: "length (filter (\<lambda>y. y \<notin> S) (D k)) =
      length (filter (\<lambda>y. y \<notin> insert x S) (D k)) + count_list (D k) x" for k
    by (rule length_filter_insert [OF xS])
  have "\<forall>k \<in> set (adj x). int (count_list (adj x) k) \<le> deg d k"
    using I len in_adj by (auto simp: adj)
  from relax_counts [OF this run] obtain p where
      degs: "\<forall>k. deg d' k = deg d k - int (count_list (adj x) k)" and q': "q' = q @ p"
      and p: "distinct p" "set p = {k \<in> set (adj x). deg d k = int (count_list (adj x) k)}"
    by blast
  have setp: "set p = {k \<in> V. x \<in> set (D k) \<and> set (D k) \<subseteq> insert x S}"
    using p(2) I in_adj filter_len_eq_count [OF xS] by (auto simp: adj)
  have closed: "\<forall>k \<in> S. set (D k) \<subseteq> S" using I by auto
  have "set p \<inter> (S \<union> set q) = {}"
    using setp I xS by auto
  moreover have "\<forall>k \<in> V. deg d' k = int (length (filter (\<lambda>y. y \<notin> insert x S) (D k)))"
    using I degs len by (simp add: adj)
  moreover have "insert x S \<union> set q' = {k \<in> V. set (D k) \<subseteq> insert x S}"
    using I setp q' xV Dx by auto
  moreover have "acyclic (edges_into D (insert x S))"
    using I xS Dx closed by (intro acyclic_insert_sink) auto
  moreover have "x \<notin> set p" using setp Dx xS by auto
  ultimately show ?thesis
    using I p(1) xq q' xV unfolding kahn_inv_def by auto
qed

lemma kahn_run:
  assumes "kahn_inv V D d q S" and "finite V"
    and "\<And>x k. count_list (adj x) k = (if k \<in> V then count_list (D k) x else 0)"
  shows "\<exists>d' S'. kahn_inv V D d' [] S' \<and> kahn adj d q (card S) = card S'"
  using assms
proof (induction adj d q "card S" arbitrary: S rule: kahn.induct)
  case (1 adj d)
  then show ?case by auto
next
  case (2 adj d x q)
  obtain d' q' where run: "relax (adj x) d q = (d', q')" by fastforce
  have inv: "kahn_inv V D d' q' (insert x S)"
    by (rule kahn_inv_step [OF 2(2) run 2(4)])
  have "x \<notin> S" "finite S"
    using 2(2,3) by (auto simp: kahn_inv_def intro: finite_subset)
  then have "card S + 1 = card (insert x S)" by simp
  with 2(1) [OF run [symmetric] this inv 2(3,4)] run show ?case by simp
qed

text \<open>At the end of the loop everything has been visited exactly when there is no cycle.\<close>

lemma kahn_inv_end:
  assumes inv: "kahn_inv V D d [] S" and fin: "finite V" and known: "\<forall>k \<in> V. set (D k) \<subseteq> V"
  shows "card S = card V \<longleftrightarrow> acyclic (edges_into D V)"
proof
  assume "card S = card V"
  then have "S = V" using inv fin by (metis card_subset_eq kahn_inv_def)
  then show "acyclic (edges_into D V)" using inv by (simp add: kahn_inv_def)
next
  assume acyc: "acyclic (edges_into D V)"
  have "finite (edges_into D V)"
    by (rule finite_subset [of _ "V \<times> V"]) (use fin known in \<open>auto simp: edges_into_def\<close>)
  then have wf: "wf (edges_into D V)" using acyc by (rule finite_acyclic_wf)
  have "V \<subseteq> S"
  proof (rule ccontr)
    assume "\<not> V \<subseteq> S"
    then obtain z where "z \<in> V - S" by blast
    from wfE_min [OF wf this] obtain k where k: "k \<in> V - S"
      and min: "\<And>x. (x, k) \<in> edges_into D V \<Longrightarrow> x \<notin> V - S" by blast
    have "set (D k) \<subseteq> S" using k min known by (auto simp: edges_into_def)
    then have "k \<in> S" using inv k by (auto simp: kahn_inv_def)
    with k show False by blast
  qed
  then show "card S = card V" using inv by (metis kahn_inv_def subset_antisym)
qed

section \<open>The whole function\<close>

text \<open>What \<open>ValidateDAG\<close> has to accept.\<close>

definition valid_dag :: "create_task_request list \<Rightarrow> bool" where
  "valid_dag tasks \<longleftrightarrow>
     tasks \<noteq> [] \<and> named_tasks tasks \<and> known_deps tasks \<and> acyclic (dep_rel tasks)"

definition deps_of :: "create_task_request list \<Rightarrow> string \<Rightarrow> string list" where
  "deps_of tasks k = (case row_of ct_Name k tasks of None \<Rightarrow> [] | Some t \<Rightarrow> ct_Dependencies t)"

lemma deps_of_task:
  "distinct (map ct_Name tasks) \<Longrightarrow> t \<in> set tasks \<Longrightarrow> deps_of tasks (ct_Name t) = ct_Dependencies t"
  by (simp add: deps_of_def row_of_distinct)

lemma edges_into_dep_rel:
  "distinct (map ct_Name tasks) \<Longrightarrow> edges_into (deps_of tasks) (ct_Name ` set tasks) = dep_rel tasks"
  by (auto simp: edges_into_def dep_rel_def deps_of_task)

lemma sum_deps_of:
  "distinct (map ct_Name ts) \<Longrightarrow>
   (\<Sum>t\<leftarrow>filter (\<lambda>t. ct_Name t = k) ts. int (length (ct_Dependencies t))) =
   int (length (deps_of ts k))"
  by (simp add: filter_key_distinct deps_of_def split: option.split)

lemma count_list_replicate: "count_list (replicate n x) y = (if x = y then n else 0)"
  by (induction n) auto

lemma count_adjacency:
  "distinct (map ct_Name ts) \<Longrightarrow>
   count_list (concat (map (\<lambda>t. replicate (count_list (ct_Dependencies t) x) (ct_Name t)) ts)) k =
   (if k \<in> ct_Name ` set ts then count_list (deps_of ts k) x else 0)"
  by (induction ts) (auto simp: deps_of_def count_list_replicate)

lemma start_queue:
  assumes "mset (ord d) = mset d" and "distinct (map fst d)"
  shows "distinct (map fst (filter (\<lambda>(k, v). v = 0) (ord d)))"
    and "set (map fst (filter (\<lambda>(k, v). v = 0) (ord d))) = {k \<in> fst ` set d. deg d k = 0}"
proof -
  have "mset (map fst (ord d)) = mset (map fst d)"
    using assms(1) by (metis mset_map)
  then have "distinct (map fst (ord d))"
    using assms(2) by (metis mset_eq_imp_distinct_iff)
  then show "distinct (map fst (filter (\<lambda>(k, v). v = 0) (ord d)))"
    by (simp add: distinct_map_filter)
  have "set (ord d) = set d" using assms(1) by (rule mset_eq_setD)
  moreover have "deg d k = v" if "(k, v) \<in> set d" for k v
    using that assms(2) by (simp add: deg_def)
  ultimately show "set (map fst (filter (\<lambda>(k, v). v = 0) (ord d))) =
      {k \<in> fst ` set d. deg d k = 0}"
    by force
qed

lemma ValidateDAG_wellformed:
  assumes ord: "\<And>d. mset (ord d) = mset d"
    and ne: "tasks \<noteq> []" and named: "named_tasks tasks" and known: "known_deps tasks"
  shows "ValidateDAG ord tasks = (if acyclic (dep_rel tasks) then Inr () else Inl CycleDetected)"
proof -
  let ?V = "ct_Name ` set tasks" and ?D = "deps_of tasks"
  let ?g0 = "\<lparr>inDegree = init_degrees tasks [], adjacency = (\<lambda>_. [])\<rparr>"
  let ?names = "\<lambda>n. n \<in> ?V"
  have dist: "distinct (map ct_Name tasks)" using named by (simp add: named_tasks_def)
  have checked: "check_tasks tasks (\<lambda>_. False) = Inr ?names"
    using named by (simp add: check_tasks_Inr_iff)
  have init: "distinct (map fst (inDegree ?g0))" "fst ` set (inDegree ?g0) = ?V"
      "\<And>k. deg (inDegree ?g0) k = 0"
    using init_degrees [of "[]" tasks] by (auto simp: deg_def)
  obtain g where g: "build_graph ?names tasks ?g0 = Inr g"
    using build_graph_total [of tasks ?names ?g0] known by (auto simp: known_deps_def)
  have sub: "?V \<subseteq> fst ` set (inDegree ?g0)" by (simp only: init(2))
  note built = build_graph_Inr [OF g init(1) sub]
  have degs: "deg (inDegree g) k = int (length (?D k))" for k
    using built init(3) by (simp add: sum_deps_of [OF dist])
  have adj: "count_list (adjacency g x) k = (if k \<in> ?V then count_list (?D k) x else 0)" for x k
    using built by (simp add: count_adjacency [OF dist])
  have keys: "distinct (map fst (inDegree g))" "fst ` set (inDegree g) = ?V"
    using built init(2) by auto
  let ?queue = "map fst (filter (\<lambda>(name, degree). degree = 0) (ord (inDegree g)))"
  have queue: "distinct ?queue" "set ?queue = {k \<in> ?V. set (?D k) \<subseteq> {}}"
    using start_queue [of ord, OF ord keys(1)] unfolding keys(2) by (auto simp: degs)
  have inv: "kahn_inv ?V ?D (inDegree g) ?queue {}"
    unfolding kahn_inv_def using queue by (simp add: degs edges_into_def acyclic_def)
  from kahn_run [OF inv finite_imageI [OF finite_set] adj] obtain d' S' where
      fin: "kahn_inv ?V ?D d' [] S'" and run: "kahn (adjacency g) (inDegree g) ?queue 0 = card S'"
    by auto
  have "\<forall>k \<in> ?V. set (?D k) \<subseteq> ?V"
    using known dist by (auto simp: known_deps_def deps_of_task)
  with kahn_inv_end [OF fin] have "card S' = card ?V \<longleftrightarrow> acyclic (dep_rel tasks)"
    by (simp add: edges_into_dep_rel [OF dist])
  moreover have "card ?V = length tasks"
    using distinct_card [OF dist] by simp
  ultimately show ?thesis
    unfolding ValidateDAG_def using ne checked g run by simp
qed

lemma known_deps_iff:
  "known_deps tasks \<longleftrightarrow>
    (\<forall>t \<in> set tasks. \<forall>dep \<in> set (ct_Dependencies t). dep \<noteq> ct_Name t \<and> dep \<in> ct_Name ` set tasks)"
  by (simp add: known_deps_def)

lemma ValidateDAG_malformed:
  assumes "\<not> (tasks \<noteq> [] \<and> named_tasks tasks \<and> known_deps tasks)"
  shows "\<exists>e. ValidateDAG ord tasks = Inl e \<and> e \<noteq> CycleDetected"
proof (cases "tasks \<noteq> [] \<and> named_tasks tasks")
  case True
  then have checked: "check_tasks tasks (\<lambda>_. False) = Inr (\<lambda>n. n \<in> ct_Name ` set tasks)"
    by (simp add: check_tasks_Inr_iff)
  let ?g0 = "\<lparr>inDegree = init_degrees tasks [], adjacency = (\<lambda>_. [])\<rparr>"
  have "build_graph (\<lambda>n. n \<in> ct_Name ` set tasks) tasks ?g0 \<noteq> Inr g" for g
  proof
    assume "build_graph (\<lambda>n. n \<in> ct_Name ` set tasks) tasks ?g0 = Inr g"
    from build_graph_Inr [OF this] have "known_deps tasks"
      using init_degrees [of "[]" tasks] by (simp add: known_deps_def)
    with assms True show False by blast
  qed
  moreover have "add_dependencies n names ds g \<noteq> Inl CycleDetected" for n names ds g
    by (induction n names ds g rule: add_dependencies.induct) auto
  then have "build_graph names ts g \<noteq> Inl CycleDetected" for names ts g
    by (induction names ts g rule: build_graph.induct) (auto split: sum.split)
  ultimately show ?thesis
    using checked True
    by (cases "build_graph (\<lambda>n. n \<in> ct_Name ` set tasks) tasks ?g0") (auto simp: ValidateDAG_def)
next
  case False
  have no_cycle: "check_tasks ts names \<noteq> Inl CycleDetected" for ts names
    by (induction ts arbitrary: names) auto
  show ?thesis
  proof (cases "tasks = []")
    case True
    then show ?thesis by (simp add: ValidateDAG_def)
  next
    case ne: False
    with False have "\<not> named_tasks tasks" by simp
    then have "check_tasks tasks (\<lambda>_. False) \<noteq> Inr n" for n
      by (simp add: check_tasks_Inr_iff)
    then show ?thesis using ne no_cycle [of tasks "\<lambda>_. False"]
      by (cases "check_tasks tasks (\<lambda>_. False)") (auto simp: ValidateDAG_def)
  qed
qed

lemma valid_dag_accepted:
  assumes "\<And>d. mset (ord d) = mset d"
  shows "ValidateDAG ord tasks = Inr () \<longleftrightarrow> valid_dag tasks"
  using ValidateDAG_wellformed [OF assms] ValidateDAG_malformed [of tasks ord]
  unfolding valid_dag_def by (metis Inl_Inr_False)

lemma check_tasks_first_error:
  assumes "named_tasks pre" and "\<forall>t \<in> set pre. \<not> names (ct_Name t)"
    and "ct_Name t = [] \<or> ct_Type t = [] \<or> names (ct_Name t) \<or> ct_Name t \<in> ct_Name ` set pre"
  shows "check_tasks (pre @ t # post) names =
    Inl (if ct_Name t = [] then NameRequired else if ct_Type t = [] then TypeRequired (ct_Name t)
         else DuplicateName (ct_Name t))"
  using assms
proof (induction pre arbitrary: names)
  case (Cons p pre)
  have "named_tasks pre" "\<forall>s \<in> set pre. \<not> (names(ct_Name p := True)) (ct_Name s)"
    using Cons.prems(1,2) unfolding named_tasks_Cons fresh_name_upd by simp_all
  moreover have "ct_Name t = [] \<or> ct_Type t = [] \<or> (names(ct_Name p := True)) (ct_Name t) \<or>
      ct_Name t \<in> ct_Name ` set pre"
    using Cons.prems(3) by auto
  ultimately have "check_tasks (pre @ t # post) (names(ct_Name p := True)) = Inl
     (if ct_Name t = [] then NameRequired else if ct_Type t = [] then TypeRequired (ct_Name t)
         else DuplicateName (ct_Name t))"
    by (rule Cons.IH)
  then show ?case using Cons.prems(1,2) by (auto simp: named_tasks_Cons)
qed auto

section \<open>Properties\<close>

text \<open>A four-task diamond, for the witnesses, and a two-task cycle.\<close>

definition diamond :: "create_task_request list" where
  "diamond =
    [\<lparr>ct_Name = ''A'', ct_Type = ''t'', ct_Payload = None, ct_Priority = None, ct_Dependencies = []\<rparr>,
     \<lparr>ct_Name = ''B'', ct_Type = ''t'', ct_Payload = None, ct_Priority = None, ct_Dependencies = [''A'']\<rparr>,
     \<lparr>ct_Name = ''C'', ct_Type = ''t'', ct_Payload = None, ct_Priority = None, ct_Dependencies = [''A'']\<rparr>,
     \<lparr>ct_Name = ''D'', ct_Type = ''t'', ct_Payload = None, ct_Priority = None,
       ct_Dependencies = [''B'', ''C'']\<rparr>]"

definition two_cycle :: "create_task_request list" where
  "two_cycle =
    [\<lparr>ct_Name = ''A'', ct_Type = ''t'', ct_Payload = None, ct_Priority = None, ct_Dependencies = [''B'']\<rparr>,
     \<lparr>ct_Name = ''B'', ct_Type = ''t'', ct_Payload = None, ct_Priority = None, ct_Dependencies = [''A'']\<rparr>]"

text \<open>
  C1. \<open>ValidateDAG\<close> accepts a request exactly when it has at least one task, the task names are
  non-empty and distinct, the types are non-empty, every dependency names another task of the
  request, and the dependency relation has no cycle; whatever order Go's map iteration takes.
\<close>

theorem ValidateDAG_accepts_iff:
  assumes "\<And>d. mset (ord d) = mset d"
  shows "ValidateDAG ord tasks = Inr () \<longleftrightarrow>
    tasks \<noteq> [] \<and>
    (\<forall>t \<in> set tasks. ct_Name t \<noteq> '''' \<and> ct_Type t \<noteq> '''') \<and> distinct (map ct_Name tasks) \<and>
    (\<forall>t \<in> set tasks. \<forall>dep \<in> set (ct_Dependencies t). dep \<noteq> ct_Name t \<and> dep \<in> ct_Name ` set tasks) \<and>
    acyclic {(dep, name). \<exists>t \<in> set tasks. ct_Name t = name \<and> dep \<in> set (ct_Dependencies t)}"
  unfolding valid_dag_accepted [OF assms]
  by (simp add: valid_dag_def named_tasks_def known_deps_def dep_rel_def)

theorem ValidateDAG_accepts_iff_witness:
  "ValidateDAG rev diamond = Inr () \<and>
   acyclic {(dep, name). \<exists>t \<in> set diamond. ct_Name t = name \<and> dep \<in> set (ct_Dependencies t)}"
proof -
  have "ValidateDAG rev diamond = Inr ()" by code_simp
  with ValidateDAG_accepts_iff [of rev diamond] show ?thesis by simp
qed

text \<open>
  C5. \<open>ValidateDAG\<close> reports a cycle exactly when every other check passes and the dependency
  relation really has one.
\<close>

theorem ValidateDAG_cycle_iff:
  assumes "\<And>d. mset (ord d) = mset d"
  shows "ValidateDAG ord tasks = Inl CycleDetected \<longleftrightarrow>
    tasks \<noteq> [] \<and> named_tasks tasks \<and> known_deps tasks \<and> \<not> acyclic (dep_rel tasks)"
  using ValidateDAG_wellformed [OF assms] ValidateDAG_malformed [of tasks ord]
  by (metis Inr_not_Inl sum.inject(1))

theorem ValidateDAG_cycle_iff_witness:
  "ValidateDAG rev two_cycle = Inl CycleDetected \<and> \<not> acyclic (dep_rel two_cycle)"
proof -
  have "ValidateDAG rev two_cycle = Inl CycleDetected" by code_simp
  with ValidateDAG_cycle_iff [of rev two_cycle] show ?thesis by simp
qed

text \<open>
  C6. The first task with an empty name, an empty type or a name used before it decides the
  error, in that order of precedence, whatever follows it.
\<close>

theorem ValidateDAG_first_bad_task:
  assumes "named_tasks pre" and "\<not> named_tasks (pre @ [t])"
  shows "ValidateDAG ord (pre @ t # post) =
    Inl (if ct_Name t = [] then NameRequired else if ct_Type t = [] then TypeRequired (ct_Name t)
         else DuplicateName (ct_Name t))"
proof -
  have "ct_Name t = [] \<or> ct_Type t = [] \<or> ct_Name t \<in> ct_Name ` set pre"
    using assms by (auto simp: named_tasks_def)
  then show ?thesis
    using check_tasks_first_error [OF assms(1), of "\<lambda>_. False" t post]
    by (simp add: ValidateDAG_def)
qed

theorem ValidateDAG_first_bad_task_witness:
  "ValidateDAG rev ([hd diamond] @ hd diamond # two_cycle) = Inl (DuplicateName ''A'')"
  using ValidateDAG_first_bad_task [of "[hd diamond]" "hd diamond" rev two_cycle]
  by (simp add: diamond_def named_tasks_def)

end
