(* ===== verification/Db_Step.thy ===== *)
theory Db_Step
  imports Workflow_Store Dag
begin

text \<open>
  Everything the program ever does to the database: \<open>db_step\<close> has one rule per SQL statement of
  the stores, under the conditions the callers establish (a validated request, a valid DAG). The
  relation \<open>jobs_step\<close> is its effect on the job table, and \<open>job_move\<close> the way one row may change.
  An invariant closed under \<open>db_step\<close> is kept by every method of the stores, whatever fails and
  whatever the other processes do (locale \<open>db_invariant\<close>).
\<close>

inductive db_step :: "db \<Rightarrow> db \<Rightarrow> bool" where
  Insert: "1 \<le> p \<Longrightarrow> p \<le> 3 \<Longrightarrow> 1 \<le> m \<Longrightarrow>
    db_step d (snd (insert_job_stmt jid now typ payload p m key q d))"
| ClaimNext: "db_step d (snd (claim_next_stmt lk wid now d))"
| ClaimJob: "db_step d (snd (claim_job_stmt jid wid now d))"
| Revert: "db_step d (snd (revert_stmt jid now d))"
| RecordFailure: "db_step d (snd (record_failure_stmt jid e nextRunAt now d))"
| RequeueDue: "db_step d (snd (requeue_due_stmt lk limit now d))"
| ManualRetry: "db_step d (snd (manual_retry_stmt jid now d))"
| MarkSucceeded: "db_step d (snd (mark_succeeded_stmt jid now d))"
| MarkFailed: "db_step d (snd (mark_failed_stmt jid e now d))"
| Cancel: "db_step d (snd (cancel_stmt jid now d))"
| Register: "db_step d (snd (register_stmt wid now d))"
| Heartbeat: "db_step d (snd (heartbeat_stmt wid now d))"
| SetStatus: "db_step d (snd (set_status_stmt wid st now d))"
| IncrementCompleted: "db_step d (snd (increment_completed_stmt wid now d))"
| IncrementFailed: "db_step d (snd (increment_failed_stmt wid now d))"
| Recover: "db_step d (snd (recover_stmt wid now d))"
| CreateWorkflow: "valid_dag (cw_Tasks req) \<Longrightarrow>
    db_step d (snd (create_workflow_stmt ids now req d))"
| UpdateWorkflow: "db_step d (snd (update_workflow_stmt fid wst err now d))"
| UpdateTask: "db_step d (snd (update_task_stmt tid tst jobID err now d))"
| CancelWorkflow: "db_step d (snd (cancel_workflow_stmt fid now d))"

section \<open>The job table\<close>

inductive job_move :: "job \<Rightarrow> job \<Rightarrow> bool" where
  Start: "j_Status j \<in> {JobStatusQueued, JobStatusRetrying} \<Longrightarrow> int4 (j_Attempt j + 1) \<Longrightarrow>
    job_move j (run_job wid now j)"
| Back: "j_Status j = JobStatusRunning \<Longrightarrow>
    job_move j (j\<lparr>j_Status := JobStatusQueued, j_WorkerID := None, j_UpdatedAt := now\<rparr>)"
| Fail: "job_move j (fail_job e nextRunAt now j)"
| Due: "j_Status j = JobStatusRetrying \<Longrightarrow>
    job_move j (j\<lparr>j_Status := JobStatusQueued, j_UpdatedAt := now\<rparr>)"
| Reset: "j_Status j \<in> {JobStatusDeadLetter, JobStatusFailed} \<Longrightarrow> job_move j (reset_job now j)"
| Succeed: "job_move j (succeed_job now j)"
| NoHandler: "job_move j (j\<lparr>j_Status := JobStatusFailed, j_CompletedAt := Some now,
    j_UpdatedAt := now, j_Error := Some e\<rparr>)"
| Cancelled: "j_Status j \<in> {JobStatusQueued, JobStatusRunning} \<Longrightarrow>
    job_move j (j\<lparr>j_Status := JobStatusCancelled, j_CompletedAt := Some now, j_UpdatedAt := now\<rparr>)"

inductive_cases job_moveE: "job_move j j'"

inductive jobs_step :: "job list \<Rightarrow> job list \<Rightarrow> bool" where
  Same: "jobs_step js js"
| Append: "1 \<le> p \<Longrightarrow> p \<le> 3 \<Longrightarrow> 1 \<le> m \<Longrightarrow> int4 m \<Longrightarrow> jid \<notin> j_ID ` set js \<Longrightarrow>
    key = None \<or> key \<notin> j_IdempotencyKey ` set js \<Longrightarrow>
    jobs_step js (js @ [new_job jid now typ payload p m key q])"
| Update: "(\<And>j. j \<in> set js \<Longrightarrow> P j \<Longrightarrow> job_move j (f j)) \<Longrightarrow> jobs_step js (update_where P f js)"

lemma jobs_table_update_jobs [simp]: "jobs_table (update_jobs p f d) = update_where p f (jobs_table d)"
  by (simp add: update_jobs_def)

lemma update_jobs_other [simp]:
  "workers_table (update_jobs p f d) = workers_table d"
  "workflows_table (update_jobs p f d) = workflows_table d"
  "tasks_table (update_jobs p f d) = tasks_table d"
  by (simp_all add: update_jobs_def)

lemma update_workers_other [simp]:
  "jobs_table (update_workers p f d) = jobs_table d"
  "workers_table (update_workers p f d) = update_where p f (workers_table d)"
  "workflows_table (update_workers p f d) = workflows_table d"
  "tasks_table (update_workers p f d) = tasks_table d"
  by (simp_all add: update_workers_def)

lemma start_stmt_step:
  assumes "\<And>j. j \<in> set (jobs_table d) \<Longrightarrow> p j \<Longrightarrow> j_Status j \<in> {JobStatusQueued, JobStatusRetrying}"
  shows "jobs_step (jobs_table d) (jobs_table (snd (start_stmt p wid now d)))"
  using assms by (auto simp: start_stmt_def list_ex_iff intro!: Same Update Start)

lemma inj_on_id: "distinct (map j_ID js) \<Longrightarrow> j \<in> set js \<Longrightarrow> k \<in> set js \<Longrightarrow> j_ID j = j_ID k \<Longrightarrow> j = k"
  by (auto simp: distinct_map inj_on_def)

lemma claim_next_step:
  assumes "distinct (map j_ID (jobs_table d))"
  shows "jobs_step (jobs_table d) (jobs_table (snd (claim_next_stmt lk wid now d)))"
proof -
  let ?q = "filter (\<lambda>j. j_Status j = JobStatusQueued \<and> j_RunAt j \<le> now \<and> \<not> lk (j_ID j)) (jobs_table d)"
  let ?s = "sort_key (\<lambda>j. (j_Priority j, j_RunAt j)) ?q"
  show ?thesis
  proof (cases ?s)
    case Nil
    then show ?thesis unfolding claim_next_stmt_def Let_def by (simp add: Same)
  next
    case (Cons k ks)
    then have "k \<in> set ?s" by simp
    then have k: "k \<in> set (jobs_table d)" "j_Status k = JobStatusQueued" by auto
    have "jobs_step (jobs_table d) (jobs_table (snd (start_stmt (\<lambda>j. j_ID j = j_ID k) wid now d)))"
      by (rule start_stmt_step) (use k assms inj_on_id in fastforce)
    with Cons show ?thesis unfolding claim_next_stmt_def Let_def by simp
  qed
qed

lemma due_retries_sub:
  "u \<in> set (due_retries lk limit now js) \<Longrightarrow>
   \<exists>j \<in> set js. j_ID j = u \<and> j_Status j = JobStatusRetrying \<and> j_RunAt j \<le> now \<and> \<not> lk u"
  by (auto simp: due_retries_def dest!: in_set_takeD)

lemma requeue_due_step:
  assumes "distinct (map j_ID (jobs_table d))"
  shows "jobs_step (jobs_table d) (jobs_table (snd (requeue_due_stmt lk limit now d)))"
  unfolding requeue_due_stmt_def Let_def snd_conv jobs_table_update_jobs
proof (rule Update)
  fix j
  assume j: "j \<in> set (jobs_table d)" "j_ID j \<in> set (due_retries lk limit now (jobs_table d))"
  then have "j_Status j = JobStatusRetrying"
    using due_retries_sub inj_on_id [OF assms] by blast
  then show "job_move j (j\<lparr>j_Status := JobStatusQueued, j_UpdatedAt := now\<rparr>)" by (rule Due)
qed

lemma db_step_jobs:
  assumes "db_step d d'" and "distinct (map j_ID (jobs_table d))"
  shows "jobs_step (jobs_table d) (jobs_table d')"
  using assms(1)
proof cases
  case (Insert p m jid now ty payload key q)
  then show ?thesis
    by (auto simp: insert_job_stmt_def Let_def intro!: jobs_step.Same jobs_step.Append)
next
  case (ClaimNext lk wid now)
  then show ?thesis using claim_next_step [OF assms(2)] by simp
next
  case (ClaimJob jid wid now)
  show ?thesis unfolding ClaimJob claim_job_stmt_def by (rule start_stmt_step) simp
next
  case (RequeueDue lk limit now)
  then show ?thesis using requeue_due_step [OF assms(2)] by simp
next
  case (CreateWorkflow req ids now)
  then show ?thesis
    by (auto simp: create_workflow_stmt_def Let_def intro!: jobs_step.Same split: sum.split)
qed (auto simp: revert_stmt_def record_failure_stmt_def manual_retry_stmt_def mark_succeeded_stmt_def
    mark_failed_stmt_def cancel_stmt_def register_stmt_def heartbeat_stmt_def set_status_stmt_def
    increment_completed_stmt_def increment_failed_stmt_def recover_stmt_def update_workflow_stmt_def
    update_task_stmt_def cancel_workflow_stmt_def Let_def intro!: jobs_step.intros job_move.intros)

section \<open>What every row of the job table satisfies\<close>

text \<open>
  A running job has a worker, a start and an attempt; a waiting one has no worker; a job has a
  completion time exactly when its status is terminal; the attempts decide between retrying and
  dead letter; the error is recorded with the failures and cleared by success.
\<close>

definition job_ok :: "job \<Rightarrow> bool" where
  "job_ok j \<longleftrightarrow>
     0 \<le> j_Attempt j \<and> int4 (j_Attempt j) \<and> 1 \<le> j_Priority j \<and> j_Priority j \<le> 3 \<and> 1 \<le> j_MaxAttempts j \<and>
     (j_CompletedAt j \<noteq> None \<longleftrightarrow> JobStatus_IsTerminal (j_Status j)) \<and>
     (case j_Status j of
        JobStatusQueued \<Rightarrow> j_WorkerID j = None
      | JobStatusRunning \<Rightarrow> j_WorkerID j \<noteq> None \<and> j_StartedAt j \<noteq> None \<and> 1 \<le> j_Attempt j
      | JobStatusRetrying \<Rightarrow> j_WorkerID j = None \<and> j_Error j \<noteq> None \<and> j_Attempt j < j_MaxAttempts j
      | JobStatusDeadLetter \<Rightarrow> j_WorkerID j = None \<and> j_Error j \<noteq> None \<and> j_MaxAttempts j \<le> j_Attempt j
      | JobStatusSucceeded \<Rightarrow> j_Error j = None
      | JobStatusFailed \<Rightarrow> j_Error j \<noteq> None
      | JobStatusCancelled \<Rightarrow> True
      | JobStatusTimeout \<Rightarrow> False)"

lemma new_job_fields [simp]:
  "j_ID (new_job jid now ty payload p m key q) = jid"
  "j_IdempotencyKey (new_job jid now ty payload p m key q) = key"
  "j_Status (new_job jid now ty payload p m key q) = JobStatusQueued"
  by (simp_all add: new_job_def)

lemma job_ok_new:
  "1 \<le> p \<Longrightarrow> p \<le> 3 \<Longrightarrow> 1 \<le> m \<Longrightarrow> job_ok (new_job jid now ty payload p m key q)"
  by (simp add: job_ok_def new_job_def int4_def JobStatus_IsTerminal_def)

lemma job_ok_move:
  assumes "job_move j j'" and "job_ok j"
  shows "job_ok j'"
  using assms
  by (cases; cases "j_Status j")
    (auto simp: job_ok_def run_job_def fail_job_def reset_job_def succeed_job_def
      JobStatus_IsTerminal_def int4_def)

definition jobs_ok :: "job list \<Rightarrow> bool" where
  "jobs_ok js \<longleftrightarrow> (\<forall>j \<in> set js. job_ok j) \<and> distinct (map j_ID js) \<and>
     distinct (filter (\<lambda>k. k \<noteq> None) (map j_IdempotencyKey js))"

text \<open>The fields no statement changes.\<close>

definition same_request :: "job \<Rightarrow> job \<Rightarrow> bool" where
  "same_request j j' \<longleftrightarrow>
     j_ID j' = j_ID j \<and> j_Type j' = j_Type j \<and> j_Payload j' = j_Payload j \<and>
     j_Priority j' = j_Priority j \<and> j_MaxAttempts j' = j_MaxAttempts j \<and>
     j_IdempotencyKey j' = j_IdempotencyKey j \<and> j_Queue j' = j_Queue j \<and>
     j_CreatedAt j' = j_CreatedAt j"

lemma job_move_request: "job_move j j' \<Longrightarrow> same_request j j'"
  by (auto elim!: job_moveE
      simp: same_request_def run_job_def fail_job_def reset_job_def succeed_job_def)

lemma map_update_where_on:
  "(\<And>r. r \<in> set rs \<Longrightarrow> p r \<Longrightarrow> k (f r) = k r) \<Longrightarrow> map k (update_where p f rs) = map k rs"
  by (induction rs) auto

lemma jobs_ok_step:
  assumes "jobs_step js js'" and "jobs_ok js"
  shows "jobs_ok js'"
  using assms(1)
proof cases
  case (Append p m jid key now ty payload q)
  then show ?thesis
    using assms(2) by (auto simp: jobs_ok_def job_ok_new)
next
  case (Update P f)
  have move: "same_request j (f j)" if "j \<in> set js" "P j" for j
    by (rule job_move_request [OF Update(2) [OF that]])
  have "map j_ID js' = map j_ID js" "map j_IdempotencyKey js' = map j_IdempotencyKey js"
    unfolding Update(1) by (rule map_update_where_on; use move in \<open>simp add: same_request_def\<close>)+
  moreover have "\<forall>j \<in> set js'. job_ok j"
    using assms(2) Update(2) job_ok_move unfolding Update(1) by (auto simp: rows jobs_ok_def)
  ultimately show ?thesis using assms(2) by (simp add: jobs_ok_def)
qed (use assms(2) in simp)

lemma jobs_step_request:
  assumes "jobs_step js js'" and "j \<in> set js"
  shows "\<exists>j' \<in> set js'. same_request j j' \<and> (j' = j \<or> job_move j j')"
  using assms(1)
proof cases
  case (Update P f)
  show ?thesis
  proof (cases "P j")
    case True
    then have "f j \<in> set js'" using assms(2) by (auto simp: Update(1) rows)
    then show ?thesis using Update(2) [OF assms(2) True] job_move_request by blast
  next
    case False
    then have "j \<in> set js'" using assms(2) by (auto simp: Update(1) rows)
    then show ?thesis by (auto simp: same_request_def)
  qed
qed (use assms(2) in \<open>auto simp: same_request_def\<close>)

lemma jobs_step_ids:
  assumes "jobs_step js js'"
  shows "j_ID ` set js \<subseteq> j_ID ` set js'"
proof
  fix u
  assume "u \<in> j_ID ` set js"
  then obtain j where j: "j \<in> set js" "u = j_ID j" by blast
  from jobs_step_request [OF assms j(1)] j(2) show "u \<in> j_ID ` set js'"
    by (auto simp: same_request_def intro!: rev_image_eqI)
qed

section \<open>The workflow tables\<close>

definition task_deps :: "uuid \<Rightarrow> workflow_task list \<Rightarrow> (string \<times> string) set" where
  "task_deps wid ts =
     {(dep, name). \<exists>t \<in> set ts. t_WorkflowID t = wid \<and> t_Name t = name \<and> dep \<in> set (t_Dependencies t)}"

text \<open>
  Keys are unique, references exist, every dependency names a task of the same workflow, and the
  dependencies of a workflow have no cycle.
\<close>

definition tasks_ok :: "uuid set \<Rightarrow> workflow_task list \<Rightarrow> bool" where
  "tasks_ok wids ts \<longleftrightarrow>
     distinct (map t_ID ts) \<and> distinct (map (\<lambda>t. (t_WorkflowID t, t_Name t)) ts) \<and>
     (\<forall>t \<in> set ts. t_WorkflowID t \<in> wids) \<and>
     (\<forall>t \<in> set ts. \<forall>dep \<in> set (t_Dependencies t).
        \<exists>t' \<in> set ts. t_WorkflowID t' = t_WorkflowID t \<and> t_Name t' = dep) \<and>
     (\<forall>wid. acyclic (task_deps wid ts))"

definition task_jobs_ok :: "uuid set \<Rightarrow> workflow_task list \<Rightarrow> bool" where
  "task_jobs_ok jids ts \<longleftrightarrow> (\<forall>t \<in> set ts. \<forall>j. t_JobID t = Some j \<longrightarrow> j \<in> jids)"

definition db_ok :: "db \<Rightarrow> bool" where
  "db_ok d \<longleftrightarrow>
     jobs_ok (jobs_table d) \<and> distinct (map w_ID (workers_table d)) \<and>
     distinct (map wf_ID (workflows_table d)) \<and>
     tasks_ok (wf_ID ` set (workflows_table d)) (tasks_table d) \<and>
     task_jobs_ok (j_ID ` set (jobs_table d)) (tasks_table d)"

text \<open>Updates change none of the fields this speaks about.\<close>

definition same_place :: "workflow_task \<Rightarrow> workflow_task \<Rightarrow> bool" where
  "same_place t t' \<longleftrightarrow> t_ID t' = t_ID t \<and> t_WorkflowID t' = t_WorkflowID t \<and>
     t_Name t' = t_Name t \<and> t_Dependencies t' = t_Dependencies t"

lemma tasks_ok_update:
  assumes "\<And>t. same_place t (f t)" and "tasks_ok wids ts"
  shows "tasks_ok wids (update_where p f ts)"
proof -
  let ?ts = "update_where p f ts"
  have maps: "map t_ID ?ts = map t_ID ts"
    "map (\<lambda>t. (t_WorkflowID t, t_Name t)) ?ts = map (\<lambda>t. (t_WorkflowID t, t_Name t)) ts"
    using assms(1) by (simp_all add: map_update_where same_place_def)
  have new: "\<exists>t' \<in> set ?ts. same_place t t'" if "t \<in> set ts" for t
    using that assms(1) [of t] by (cases "p t") (auto simp: rows same_place_def)
  have old: "\<exists>t \<in> set ts. same_place t t'" if "t' \<in> set ?ts" for t'
    using that assms(1) by (auto simp: rows same_place_def)
  have "task_deps wid ?ts = task_deps wid ts" for wid
  proof (rule set_eqI, clarify)
    fix a b
    show "(a, b) \<in> task_deps wid ?ts \<longleftrightarrow> (a, b) \<in> task_deps wid ts"
      unfolding task_deps_def same_place_def mem_Collect_eq case_prod_conv
      using new old unfolding same_place_def by metis
  qed
  moreover have "\<forall>t \<in> set ?ts. t_WorkflowID t \<in> wids"
    using assms(2) old unfolding tasks_ok_def same_place_def by metis
  moreover have "\<forall>t \<in> set ?ts. \<forall>dep \<in> set (t_Dependencies t).
        \<exists>t' \<in> set ?ts. t_WorkflowID t' = t_WorkflowID t \<and> t_Name t' = dep"
    using assms(2) old new unfolding tasks_ok_def same_place_def by metis
  ultimately show ?thesis using assms(2) by (simp add: tasks_ok_def maps)
qed

lemma same_place_set_task: "same_place t (set_task st jobID err now t)"
  by (simp add: same_place_def set_task_def)

text \<open>What the insert loop of \<open>Create\<close> adds.\<close>

lemma insert_tasks_rows:
  assumes "insert_tasks ids wid now trs k rows = Inr ts"
    and "distinct (map t_ID rows)" and "distinct (map (\<lambda>t. (t_WorkflowID t, t_Name t)) rows)"
  shows "map t_Name ts = map ct_Name trs \<and> map t_Dependencies ts = map ct_Dependencies trs \<and>
    (\<forall>t \<in> set ts. t_WorkflowID t = wid \<and> t_JobID t = None \<and> t_Status t = WorkflowTaskStatusPending) \<and>
    distinct (map t_ID (rows @ ts)) \<and>
    distinct (map (\<lambda>t. (t_WorkflowID t, t_Name t)) (rows @ ts))"
  using assms
proof (induction ids wid now trs k rows arbitrary: ts rule: insert_tasks.induct)
  case (2 ids wid now tr trs k rows)
  let ?t = "new_task (ids k) wid now tr"
  from "2.prems"(1) obtain us where us: "insert_tasks ids wid now trs (Suc k) (rows @ [?t]) = Inr us"
    and ts: "ts = ?t # us"
    and fresh: "\<not> list_ex (\<lambda>r. t_ID r = t_ID ?t \<or> t_WorkflowID r = wid \<and> t_Name r = t_Name ?t) rows"
    by (auto simp: Let_def split: if_splits sum.splits)
  have t: "t_WorkflowID ?t = wid" "t_JobID ?t = None" "t_Status ?t = WorkflowTaskStatusPending"
    "t_Name ?t = ct_Name tr" "t_Dependencies ?t = ct_Dependencies tr"
    by (simp_all add: new_task_def)
  have "distinct (map t_ID (rows @ [?t]))"
    "distinct (map (\<lambda>t. (t_WorkflowID t, t_Name t)) (rows @ [?t]))"
    using fresh "2.prems"(2,3) t by (auto simp: list_ex_iff)
  note IH = "2.IH" [OF refl fresh us this]
  have "distinct (map t_ID (rows @ ?t # us))"
    "distinct (map (\<lambda>t. (t_WorkflowID t, t_Name t)) (rows @ ?t # us))"
    using IH by (simp_all only: append_assoc append_Cons append_Nil)
  moreover have "map t_Name (?t # us) = map ct_Name (tr # trs)"
    "map t_Dependencies (?t # us) = map ct_Dependencies (tr # trs)"
    "\<forall>t \<in> set (?t # us). t_WorkflowID t = wid \<and> t_JobID t = None \<and>
       t_Status t = WorkflowTaskStatusPending"
    using conjunct1 [OF IH] conjunct1 [OF conjunct2 [OF IH]] conjunct1 [OF conjunct2 [OF conjunct2 [OF IH]]] t
    by simp_all
  ultimately show ?case unfolding ts by blast
qed simp

lemma tasks_ok_create:
  assumes ins: "insert_tasks ids wid now trs k rows = Inr ts" and ok: "tasks_ok wids rows"
    and dag: "valid_dag trs" and new: "wid \<notin> wids"
  shows "tasks_ok (insert wid wids) (rows @ ts)"
proof -
  have old: "t_WorkflowID t \<noteq> wid" if "t \<in> set rows" for t
    using ok new that by (auto simp: tasks_ok_def)
  from insert_tasks_rows [OF ins] ok
  have names: "map t_Name ts = map ct_Name trs" and deps: "map t_Dependencies ts = map ct_Dependencies trs"
    and wid: "\<forall>t \<in> set ts. t_WorkflowID t = wid"
    and dist: "distinct (map t_ID (rows @ ts))" "distinct (map (\<lambda>t. (t_WorkflowID t, t_Name t)) (rows @ ts))"
    by (auto simp: tasks_ok_def)
  have len: "length ts = length trs" using names map_eq_imp_length_eq by blast
  have nth: "t_Name (ts ! i) = ct_Name (trs ! i)" "t_Dependencies (ts ! i) = ct_Dependencies (trs ! i)"
    if "i < length ts" for i
    using names deps that len by (metis nth_map)+
  have to: "\<exists>tr \<in> set trs. ct_Name tr = t_Name t \<and> ct_Dependencies tr = t_Dependencies t" if "t \<in> set ts" for t
    using that nth len by (metis in_set_conv_nth)
  have from_req: "\<exists>t \<in> set ts. ct_Name tr = t_Name t \<and> ct_Dependencies tr = t_Dependencies t" if "tr \<in> set trs" for tr
    using that nth len by (metis in_set_conv_nth)
  have "task_deps wid (rows @ ts) = dep_rel trs"
  proof (rule set_eqI, clarify)
    fix a b
    show "(a, b) \<in> task_deps wid (rows @ ts) \<longleftrightarrow> (a, b) \<in> dep_rel trs"
      unfolding task_deps_def dep_rel_def mem_Collect_eq case_prod_conv set_append
      using to from_req wid old by (metis Un_iff)
  qed
  moreover have "task_deps w (rows @ ts) = task_deps w rows" if "w \<noteq> wid" for w
    using that wid by (auto simp: task_deps_def)
  ultimately have "acyclic (task_deps w (rows @ ts))" for w
    using dag ok by (cases "w = wid") (auto simp: valid_dag_def tasks_ok_def)
  moreover have "\<exists>t' \<in> set (rows @ ts). t_WorkflowID t' = t_WorkflowID t \<and> t_Name t' = dep"
    if t: "t \<in> set ts" and d: "dep \<in> set (t_Dependencies t)" for t dep
  proof -
    obtain tr where tr: "tr \<in> set trs" "ct_Dependencies tr = t_Dependencies t" using to [OF t] by blast
    then have "dep \<in> ct_Name ` set trs" using dag d by (auto simp: valid_dag_def known_deps_def)
    then obtain t' where "t' \<in> set ts" "t_Name t' = dep" using from_req by fastforce
    then show ?thesis using wid t by auto
  qed
  ultimately show ?thesis
    using ok wid dist unfolding tasks_ok_def by (auto simp del: map_append distinct_append) blast+
qed

lemmas stmt_defs = insert_job_stmt_def claim_next_stmt_def claim_job_stmt_def start_stmt_def
  revert_stmt_def record_failure_stmt_def requeue_due_stmt_def manual_retry_stmt_def
  mark_succeeded_stmt_def mark_failed_stmt_def cancel_stmt_def register_stmt_def heartbeat_stmt_def
  set_status_stmt_def increment_completed_stmt_def increment_failed_stmt_def recover_stmt_def
  create_workflow_stmt_def update_workflow_stmt_def update_task_stmt_def cancel_workflow_stmt_def

lemma claim_next_frame:
  "workers_table (snd (claim_next_stmt lk wid now d)) = workers_table d"
  "workflows_table (snd (claim_next_stmt lk wid now d)) = workflows_table d"
  "tasks_table (snd (claim_next_stmt lk wid now d)) = tasks_table d"
  by (simp_all add: claim_next_stmt_def start_stmt_def Let_def split: list.split)

lemma db_step_workers:
  assumes "db_step d d'" and "distinct (map w_ID (workers_table d))"
  shows "distinct (map w_ID (workers_table d'))"
  using assms
  by cases (auto simp: stmt_defs Let_def claim_next_frame map_update_where new_worker_def
      split: sum.split list.split)

lemma db_step_workflow_ids:
  assumes "db_step d d'"
  shows "wf_ID ` set (workflows_table d) \<subseteq> wf_ID ` set (workflows_table d')"
    and "distinct (map wf_ID (workflows_table d)) \<Longrightarrow> distinct (map wf_ID (workflows_table d'))"
proof -
  have ids: "map wf_ID (update_where p (set_workflow st e now) fs) = map wf_ID fs"
    "map wf_ID (update_where p (\<lambda>f. f\<lparr>wf_Status := WorkflowStatusCancelled, wf_CompletedAt := c,
       wf_UpdatedAt := now\<rparr>) fs) = map wf_ID fs" for p st e now fs c
    by (simp_all add: map_update_where set_workflow_def)
  have img: "wf_ID ` set (update_where p (set_workflow st e now) fs) = wf_ID ` set fs"
    "wf_ID ` set (update_where p (\<lambda>f. f\<lparr>wf_Status := WorkflowStatusCancelled, wf_CompletedAt := c,
       wf_UpdatedAt := now\<rparr>) fs) = wf_ID ` set fs" for p st e now fs c
    by (simp_all only: set_map [symmetric] ids)
  show "wf_ID ` set (workflows_table d) \<subseteq> wf_ID ` set (workflows_table d')"
    using assms by cases (auto simp: stmt_defs Let_def claim_next_frame img split: sum.split list.split)
  show "distinct (map wf_ID (workflows_table d)) \<Longrightarrow> distinct (map wf_ID (workflows_table d'))"
    using assms by cases (auto simp: stmt_defs Let_def claim_next_frame ids split: sum.split list.split)
qed

lemma db_step_tasks:
  assumes "db_step d d'" and "tasks_ok (wf_ID ` set (workflows_table d)) (tasks_table d)"
  shows "tasks_ok (wf_ID ` set (workflows_table d')) (tasks_table d')"
  using assms(1)
proof cases
  case (CreateWorkflow req ids now)
  let ?f = "new_workflow (ids 0) now (cw_Name req)"
  have "wf_ID ?f = ids 0" by (simp add: new_workflow_def)
  then show ?thesis
    using assms(2) tasks_ok_create [OF _ assms(2) CreateWorkflow(2)]
    unfolding CreateWorkflow(1) create_workflow_stmt_def Let_def
    by (auto split: sum.split)
next
  case (UpdateWorkflow fid wst err now)
  have "map wf_ID (workflows_table d') = map wf_ID (workflows_table d)"
    by (simp add: UpdateWorkflow update_workflow_stmt_def map_update_where set_workflow_def)
  then have "wf_ID ` set (workflows_table d') = wf_ID ` set (workflows_table d)"
    by (metis set_map)
  then show ?thesis using assms(2) by (simp add: UpdateWorkflow update_workflow_stmt_def)
next
  case (CancelWorkflow fid now)
  have "map wf_ID (workflows_table d') = map wf_ID (workflows_table d)"
    by (simp add: CancelWorkflow cancel_workflow_stmt_def Let_def map_update_where)
  then have "wf_ID ` set (workflows_table d') = wf_ID ` set (workflows_table d)"
    by (metis set_map)
  then show ?thesis
    using tasks_ok_update [OF _ assms(2)]
    by (simp add: CancelWorkflow cancel_workflow_stmt_def Let_def same_place_def)
next
  case (UpdateTask tid tst jobID err now)
  then show ?thesis
    using assms(2) tasks_ok_update [OF same_place_set_task assms(2)]
    by (simp add: update_task_stmt_def)
qed (use assms(2) in \<open>simp_all add: stmt_defs Let_def claim_next_frame split: list.split\<close>)

lemma task_jobs_ok_mono: "task_jobs_ok A ts \<Longrightarrow> A \<subseteq> B \<Longrightarrow> task_jobs_ok B ts"
  by (auto simp: task_jobs_ok_def)

lemma db_step_task_jobs:
  assumes "db_step d d'" and "distinct (map j_ID (jobs_table d))"
    and "tasks_ok (wf_ID ` set (workflows_table d)) (tasks_table d)"
    and ok: "task_jobs_ok (j_ID ` set (jobs_table d)) (tasks_table d)"
  shows "task_jobs_ok (j_ID ` set (jobs_table d')) (tasks_table d')"
proof -
  have sub: "j_ID ` set (jobs_table d) \<subseteq> j_ID ` set (jobs_table d')"
    by (rule jobs_step_ids [OF db_step_jobs [OF assms(1,2)]])
  have "task_jobs_ok (j_ID ` set (jobs_table d)) (tasks_table d')"
    using assms(1)
  proof cases
    case (CreateWorkflow req ids now)
    then show ?thesis
      using ok assms(3) insert_tasks_rows [of ids _ now "cw_Tasks req" 1 "tasks_table d"]
      by (auto simp: create_workflow_stmt_def Let_def task_jobs_ok_def tasks_ok_def split: sum.split)
  next
    case (UpdateTask tid tst jobID err now)
    then show ?thesis
      using ok
      by (auto simp: update_task_stmt_def task_jobs_ok_def rows set_task_def COALESCE_def list_ex_iff
          split: option.splits if_splits)
  next
    case (CancelWorkflow fid now)
    then show ?thesis
      using ok by (auto simp: cancel_workflow_stmt_def Let_def task_jobs_ok_def rows)
  qed (use ok in \<open>simp_all add: stmt_defs Let_def claim_next_frame split: list.split\<close>)
  then show ?thesis by (rule task_jobs_ok_mono [OF _ sub])
qed

lemma db_ok_step: "db_step d d' \<Longrightarrow> db_ok d \<Longrightarrow> db_ok d'"
  unfolding db_ok_def
  using db_step_jobs [of d d'] jobs_ok_step db_step_workers [of d d'] db_step_workflow_ids(2) [of d d']
    db_step_tasks [of d d'] db_step_task_jobs [of d d']
  by (simp add: jobs_ok_def)

lemma db_ok_empty: "db_ok empty_db"
  by (simp add: db_ok_def empty_db_def jobs_ok_def tasks_ok_def task_jobs_ok_def task_deps_def acyclic_def)

section \<open>The stores keep every closed invariant\<close>

locale db_invariant =
  fixes I :: "db \<Rightarrow> bool" and E :: "'z env"
  assumes closed: "db_step d d' \<Longrightarrow> I d \<Longrightarrow> I d'"
    and others: "rely I E"
begin

abbreviation inv :: "'z world \<Rightarrow> bool" where
  "inv \<equiv> \<lambda>w. I (db w)"

lemma keeps_stmt:
  assumes "\<And>n d. db_step d (snd (f n d)) \<or> snd (f n d) = d"
  shows "keeps inv (pg E f)"
  by (rule keeps_pg [OF others]) (metis assms closed)

lemma keeps_query: "keeps inv (pg E (\<lambda>n d. (q n d, d)))"
  by (rule keeps_stmt) simp

lemmas keeps_stmts =
  keeps_stmt [OF disjI1 [OF db_step.ClaimNext]]
  keeps_stmt [OF disjI1 [OF db_step.ClaimJob]]
  keeps_stmt [OF disjI1 [OF db_step.Revert]]
  keeps_stmt [OF disjI1 [OF db_step.RecordFailure]]
  keeps_stmt [OF disjI1 [OF db_step.RequeueDue]]
  keeps_stmt [OF disjI1 [OF db_step.ManualRetry]]
  keeps_stmt [OF disjI1 [OF db_step.MarkSucceeded]]
  keeps_stmt [OF disjI1 [OF db_step.MarkFailed]]
  keeps_stmt [OF disjI1 [OF db_step.Cancel]]
  keeps_stmt [OF disjI1 [OF db_step.Register]]
  keeps_stmt [OF disjI1 [OF db_step.Heartbeat]]
  keeps_stmt [OF disjI1 [OF db_step.SetStatus]]
  keeps_stmt [OF disjI1 [OF db_step.IncrementCompleted]]
  keeps_stmt [OF disjI1 [OF db_step.IncrementFailed]]
  keeps_stmt [OF disjI1 [OF db_step.Recover]]
  keeps_stmt [OF disjI1 [OF db_step.UpdateWorkflow]]
  keeps_stmt [OF disjI1 [OF db_step.UpdateTask]]
  keeps_stmt [OF disjI1 [OF db_step.CancelWorkflow]]

lemma keeps_findByIdempotencyKey [pres]: "keeps inv (findByIdempotencyKey E key)"
  unfolding findByIdempotencyKey_def by (intro pres keeps_query)

lemma keeps_JobStore_Create:
  assumes "case cj_Priority req of None \<Rightarrow> True | Some p \<Rightarrow> 1 \<le> p \<and> p \<le> 3"
    and "case cj_MaxAttempts req of None \<Rightarrow> True | Some m \<Rightarrow> 1 \<le> m"
  shows "keeps inv (JobStore_Create E req)"
proof -
  have "keeps inv (pg E (\<lambda>n. insert_job_stmt (fresh E n 0) (clock E n) ty payload
      (case cj_Priority req of None \<Rightarrow> DefaultPriority | Some p \<Rightarrow> p)
      (case cj_MaxAttempts req of None \<Rightarrow> DefaultMaxAttempts | Some m \<Rightarrow> m) key q))" for ty payload key q
    by (rule keeps_stmt)
      (use assms in \<open>auto simp: default_defs intro!: db_step.Insert split: option.splits\<close>)
  then show ?thesis
    unfolding JobStore_Create_def Let_def by (intro pres)
qed

lemma keeps_job_methods [pres]:
  "keeps inv (JobStore_Get E jid)"
  "keeps inv (JobStore_Claim E wid)"
  "keeps inv (JobStore_ClaimJob E jid wid)"
  "keeps inv (JobStore_RevertToQueued E jid)"
  "keeps inv (JobStore_RecordFailure E jid e nextRunAt)"
  "keeps inv (JobStore_RequeueDueRetries E limit)"
  "keeps inv (JobStore_ManualRetry E jid)"
  "keeps inv (JobStore_MarkSucceeded E jid)"
  "keeps inv (JobStore_MarkFailed E jid e)"
  "keeps inv (JobStore_Cancel E jid)"
  "keeps inv (JobStore_StatusCounts E)"
  unfolding JobStore_Get_def JobStore_Claim_def JobStore_ClaimJob_def JobStore_RevertToQueued_def
    JobStore_RecordFailure_def JobStore_RequeueDueRetries_def JobStore_ManualRetry_def
    JobStore_MarkSucceeded_def JobStore_MarkFailed_def JobStore_Cancel_def JobStore_StatusCounts_def
    Let_def
  by (intro pres keeps_query keeps_stmts)+

lemma keeps_JobStore_List [pres]: "keeps inv (JobStore_List E f)"
proof -
  have "keeps inv (pg E (\<lambda>n d. if b then (Inl e, d) else (g d, d)))" for b e and g :: "db \<Rightarrow> err + 'b"
    by (rule keeps_stmt) simp
  moreover have "keeps inv (pg E (\<lambda>n d. if b then (Inl e, d) else if b' then (Inl e', d) else (g d, d)))"
    for b e b' e' and g :: "db \<Rightarrow> err + 'c"
    by (rule keeps_stmt) simp
  ultimately show ?thesis unfolding JobStore_List_def Let_def by (intro pres)
qed

lemma keeps_worker_methods [pres]:
  "keeps inv (WorkerStore_Register E wid)"
  "keeps inv (WorkerStore_Heartbeat E wid)"
  "keeps inv (WorkerStore_SetStatus E wid st)"
  "keeps inv (WorkerStore_IncrementCompleted E wid)"
  "keeps inv (WorkerStore_IncrementFailed E wid)"
  "keeps inv (WorkerStore_List E)"
  "keeps inv (WorkerStore_FindDeadWorkers E timeout)"
  "keeps inv (WorkerStore_RecoverDeadWorkerJobs E wid)"
  unfolding WorkerStore_Register_def WorkerStore_Heartbeat_def WorkerStore_SetStatus_def
    WorkerStore_IncrementCompleted_def WorkerStore_IncrementFailed_def WorkerStore_List_def
    WorkerStore_FindDeadWorkers_def WorkerStore_RecoverDeadWorkerJobs_def
  by (intro pres keeps_query keeps_stmts)+

lemma keeps_WorkflowStore_Create:
  "valid_dag (cw_Tasks req) \<Longrightarrow> keeps inv (WorkflowStore_Create E req)"
  unfolding WorkflowStore_Create_def by (rule keeps_stmt) (blast intro: db_step.intros)

lemma keeps_workflow_methods [pres]:
  "keeps inv (WorkflowStore_GetTasksByWorkflowID E fid)"
  "keeps inv (WorkflowStore_GetReadyTasks E fid)"
  "keeps inv (WorkflowStore_GetTaskByJobID E jid)"
  "keeps inv (WorkflowStore_UpdateStatus E fid st e)"
  "keeps inv (WorkflowStore_UpdateTask E tid tst j e)"
  "keeps inv (WorkflowStore_List E f)"
  "keeps inv (WorkflowStore_Cancel E fid)"
  unfolding WorkflowStore_GetTasksByWorkflowID_def WorkflowStore_GetReadyTasks_def
    WorkflowStore_GetTaskByJobID_def WorkflowStore_UpdateStatus_def WorkflowStore_UpdateTask_def
    WorkflowStore_List_def WorkflowStore_Cancel_def Let_def
  by (intro pres keeps_query keeps_stmts)+

lemma keeps_WorkflowStore_Get [pres]: "keeps inv (WorkflowStore_Get E fid)"
  unfolding WorkflowStore_Get_def by (intro pres keeps_query)

end

interpretation quiet_db: db_invariant db_ok quiet_env
  by unfold_locales (auto intro: db_ok_step rely_reliable)

end
