(* ===== verification/Queue_Interface.thy ===== *)
theory Queue_Interface
  imports Runtime
begin

text \<open>
  The interface of \<open>internal/queue/queue.go\<close>: a record of operations, as the Go interface
  \<open>Queue\<close> is a table of methods, and the contract its comments state, as a locale over the jobs
  that wait at each priority and the jobs in progress with their visibility deadlines. The
  engine's components are written against the record, and their lemmas about the queue are
  proved once, inside the locale.
\<close>

record queue_stats =
  qs_QueueName :: string
  qs_PriorityCounts :: "(int \<times> int) list"
  qs_InProgressCount :: int

record 'w queue_iface =
  q_Enqueue :: "job option \<Rightarrow> ('w, err + unit) state"
  q_Claim :: "string \<Rightarrow> string \<Rightarrow> duration \<Rightarrow> ('w, err + uuid) state"
  q_Ack :: "string \<Rightarrow> uuid \<Rightarrow> ('w, err + unit) state"
  q_RequeueStale :: "string \<Rightarrow> int \<Rightarrow> ('w, err + int) state"
  q_Heartbeat :: "string \<Rightarrow> duration \<Rightarrow> ('w, err + unit) state"
  q_RemoveWorker :: "string \<Rightarrow> ('w, err + unit) state"
  q_QueueLength :: "string \<Rightarrow> ('w, err + int) state"
  q_InProgressCount :: "string \<Rightarrow> ('w, err + int) state"
  q_GetQueueStats :: "string \<Rightarrow> ('w, err + queue_stats) state"
  q_Close :: "('w, err + unit) state"

section \<open>The contract\<close>

text \<open>
  The abstract queue: what waits in each priority of each named queue, and what is in progress
  until when (milliseconds). Both forms of the empty name are the default queue.
\<close>

record queue_view =
  waiting :: "string \<Rightarrow> int \<Rightarrow> uuid set"
  inflight :: "string \<Rightarrow> uuid \<Rightarrow> int option"

definition queue_name :: "string \<Rightarrow> string" where
  "queue_name n = (if n = '''' then ''default'' else n)"

definition queue_priority :: "int \<Rightarrow> int" where
  "queue_priority p = (if p < 1 \<or> p > 3 then DefaultPriority else p)"

lemma queue_priority_range: "queue_priority p \<in> {1, 2, 3}"
  by (auto simp: queue_priority_def DefaultPriority_def)

text \<open>A claim is invisible to others until its deadline, 30 seconds away unless told otherwise.\<close>

definition claim_deadline :: "time \<Rightarrow> duration \<Rightarrow> int" where
  "claim_deadline now visibilityTimeout =
     UnixMilli (now + (if visibilityTimeout \<le> 0 then 30 * second else visibilityTimeout))"

definition v_enqueue :: "job \<Rightarrow> queue_view \<Rightarrow> queue_view" where
  "v_enqueue j v =
     v\<lparr>waiting := (waiting v)(queue_name (j_Queue j) :=
        (waiting v (queue_name (j_Queue j)))(queue_priority (j_Priority j) :=
           insert (j_ID j) (waiting v (queue_name (j_Queue j)) (queue_priority (j_Priority j)))))\<rparr>"

definition v_claim :: "string \<Rightarrow> int \<Rightarrow> uuid \<Rightarrow> int \<Rightarrow> queue_view \<Rightarrow> queue_view" where
  "v_claim n p u deadline v =
     v\<lparr>waiting := (waiting v)(n := (waiting v n)(p := waiting v n p - {u})),
       inflight := (inflight v)(n := (inflight v n)(u \<mapsto> deadline))\<rparr>"

definition v_ack :: "string \<Rightarrow> uuid \<Rightarrow> queue_view \<Rightarrow> queue_view" where
  "v_ack n u v = v\<lparr>inflight := (inflight v)(n := (inflight v n)(u := None))\<rparr>"

definition expired :: "string \<Rightarrow> int \<Rightarrow> queue_view \<Rightarrow> uuid set" where
  "expired n now v = {u. \<exists>t. inflight v n u = Some t \<and> t \<le> now}"

definition v_requeue :: "string \<Rightarrow> int \<Rightarrow> int \<Rightarrow> queue_view \<Rightarrow> queue_view" where
  "v_requeue n p now v =
     v\<lparr>waiting := (waiting v)(n := (waiting v n)(p := waiting v n p \<union> expired n now v)),
       inflight := (inflight v)(n := (\<lambda>u. if u \<in> expired n now v then None else inflight v n u))\<rparr>"

lemmas view_defs = v_enqueue_def v_claim_def v_ack_def v_requeue_def

definition queued :: "queue_view \<Rightarrow> string \<Rightarrow> uuid set" where
  "queued v n = (\<Union>p \<in> {1, 2, 3}. waiting v n p)"

definition tracked :: "queue_view \<Rightarrow> string \<Rightarrow> uuid set" where
  "tracked v n = queued v n \<union> dom (inflight v n)"

text \<open>
  How one operation ends: its reply \<open>rv\<close> and its effect \<open>eff\<close> on the view both arrive, neither
  happens, or the effect happens and the reply is lost.
\<close>

definition delivers :: "outcome \<Rightarrow> err + 'a \<Rightarrow> err + 'a \<Rightarrow> 'v \<Rightarrow> 'v \<Rightarrow> 'v \<Rightarrow> bool" where
  "delivers out r rv new old eff \<longleftrightarrow>
     (case out of
        Delivered \<Rightarrow> r = rv \<and> new = eff
      | Refused \<Rightarrow> r = Inl ErrIO \<and> new = old
      | NoReply \<Rightarrow> r = Inl ErrIO \<and> new = eff)"

text \<open>A claim takes a waiting job of some priority, and reports an empty queue only when it is.\<close>

definition claim_result ::
  "string \<Rightarrow> int \<Rightarrow> queue_view \<Rightarrow> err + uuid \<Rightarrow> queue_view \<Rightarrow> bool" where
  "claim_result n deadline v rv v' \<longleftrightarrow>
     rv = Inl ErrQueueEmpty \<and> queued v n = {} \<and> v' = v \<or>
     (\<exists>u p. rv = Inr u \<and> p \<in> {1, 2, 3} \<and> u \<in> waiting v n p \<and> v' = v_claim n p u deadline v)"

text \<open>The call is one step and leaves the database as the others left it.\<close>

definition one_call :: "'z env \<Rightarrow> 'z world \<Rightarrow> 'z world \<Rightarrow> bool" where
  "one_call E w w' \<longleftrightarrow> db w' = db (settle E w) \<and> tick w' = Suc (tick w)"

text \<open>
  \<open>dispatch_queue E Q view ok\<close>: in the environment \<open>E\<close>, the operations of \<open>Q\<close> act on \<open>view\<close> as
  the abstract queue says and leave the database alone, in every world that is \<open>ok\<close>.
\<close>

locale dispatch_queue =
  fixes E :: "'z env"
    and Q :: "'z world queue_iface"
    and view :: "'z world \<Rightarrow> queue_view"
    and ok :: "'z world \<Rightarrow> bool"
  assumes ok_settle: "ok w \<Longrightarrow> ok (settle E w)"
    and view_frame: "rds w = rds w' \<Longrightarrow> view w = view w'"
    and ok_frame: "rds w = rds w' \<Longrightarrow> ok w = ok w'"
    and enqueue_invalid: "run_state (q_Enqueue Q None) w = (Inl ErrInvalidJob, w)"
    and enqueue_nil: "j_ID j = uuid_Nil \<Longrightarrow> run_state (q_Enqueue Q (Some j)) w = (Inl ErrInvalidJob, w)"
    and enqueue: "j_ID j \<noteq> uuid_Nil \<Longrightarrow> ok w \<Longrightarrow> run_state (q_Enqueue Q (Some j)) w = (re, w') \<Longrightarrow>
      ok w' \<and> one_call E w w' \<and>
      delivers (fault E (tick w)) re (Inr ()) (view w') (view (settle E w))
        (v_enqueue j (view (settle E w)))"
    and claim: "ok w \<Longrightarrow> run_state (q_Claim Q wid n vt) w = (rc, w') \<Longrightarrow>
      ok w' \<and> one_call E w w' \<and>
      (\<exists>rv v'. claim_result (queue_name n) (claim_deadline (clock E (tick w)) vt)
          (view (settle E w)) rv v' \<and>
        delivers (fault E (tick w)) rc rv (view w') (view (settle E w)) v')"
    and ack: "ok w \<Longrightarrow> run_state (q_Ack Q n u) w = (ra, w') \<Longrightarrow>
      ok w' \<and> one_call E w w' \<and>
      delivers (fault E (tick w)) ra (Inr ()) (view w') (view (settle E w))
        (v_ack (queue_name n) u (view (settle E w)))"
    and requeue_stale: "ok w \<Longrightarrow> run_state (q_RequeueStale Q n p) w = (rs, w') \<Longrightarrow>
      ok w' \<and> one_call E w w' \<and>
      delivers (fault E (tick w)) rs
        (Inr (int (card (expired (queue_name n) (UnixMilli (clock E (tick w))) (view (settle E w))))))
        (view w') (view (settle E w))
        (v_requeue (queue_name n) (queue_priority p) (UnixMilli (clock E (tick w))) (view (settle E w)))"
    and remove_worker: "ok w \<Longrightarrow> run_state (q_RemoveWorker Q wid) w = (rr, w') \<Longrightarrow>
      w' = w \<or> ok w' \<and> one_call E w w' \<and> view w' = view (settle E w)"
    and heartbeat: "ok w \<Longrightarrow> run_state (q_Heartbeat Q wid ttl) w = (rh, w') \<Longrightarrow>
      w' = w \<or> ok w' \<and> one_call E w w' \<and> view w' = view (settle E w)"

text \<open>A queue all of whose operations keep an invariant of the world.\<close>

definition queue_keeps :: "('w \<Rightarrow> bool) \<Rightarrow> 'w queue_iface \<Rightarrow> bool" where
  "queue_keeps J Q \<longleftrightarrow>
     (\<forall>j. keeps J (q_Enqueue Q j)) \<and> (\<forall>wid n vt. keeps J (q_Claim Q wid n vt)) \<and>
     (\<forall>n u. keeps J (q_Ack Q n u)) \<and> (\<forall>n p. keeps J (q_RequeueStale Q n p)) \<and>
     (\<forall>wid ttl. keeps J (q_Heartbeat Q wid ttl)) \<and> (\<forall>wid. keeps J (q_RemoveWorker Q wid)) \<and>
     (\<forall>n. keeps J (q_QueueLength Q n)) \<and> (\<forall>n. keeps J (q_InProgressCount Q n)) \<and>
     (\<forall>n. keeps J (q_GetQueueStats Q n)) \<and> keeps J (q_Close Q)"

lemma queue_keepsD:
  assumes "queue_keeps J Q"
  shows "keeps J (q_Enqueue Q j)" "keeps J (q_Claim Q wid n vt)" "keeps J (q_Ack Q n u)"
    "keeps J (q_RequeueStale Q n p)" "keeps J (q_Heartbeat Q wid ttl)" "keeps J (q_RemoveWorker Q wid)"
    "keeps J (q_GetQueueStats Q n)"
  using assms by (simp_all add: queue_keeps_def)

end
