(* ===== verification/Redis_Queue.thy ===== *)
theory Redis_Queue
  imports Queue_Interface
begin

text \<open>
  \<open>internal/queue/redis.go\<close>: the key names, the two Lua scripts, the methods of \<open>RedisQueue\<close> over
  the Redis commands \<open>R\<close> and the UUID text \<open>U\<close>, and the interface record they form. The lemmas
  give the weighted slots of the claim script, the order it searches in, and the proof that the
  methods meet the contract \<open>dispatch_queue\<close>.
\<close>

section \<open>Key names\<close>

definition priorityQueueKey :: "string \<Rightarrow> int \<Rightarrow> string" where
  "priorityQueueKey queueName priority = ''queue:'' @ queueName @ '':priority:'' @ show_int priority"

definition inProgressKey :: "string \<Rightarrow> string" where
  "inProgressKey queueName = ''queue:'' @ queueName @ '':in-progress''"

definition workerHeartbeatKey :: "string \<Rightarrow> string" where
  "workerHeartbeatKey workerID = ''worker:'' @ workerID @ '':heartbeat''"

definition claimCounterKey :: "string \<Rightarrow> string" where
  "claimCounterKey queueName = ''queue:'' @ queueName @ '':claim_counter''"

definition workersActiveKey :: string where "workersActiveKey = ''workers:active''"

definition defaultQueueName :: string where "defaultQueueName = ''default''"

section \<open>The claim script\<close>

text \<open>The order the script searches the three queues in, for the counter's new value.\<close>

definition search_order :: "'k \<Rightarrow> 'k \<Rightarrow> 'k \<Rightarrow> int \<Rightarrow> int \<Rightarrow> int \<Rightarrow> int \<Rightarrow> 'k list" where
  "search_order k1 k2 k3 w1 w2 w3 cnt =
     (let total_w = w1 + w2 + w3; slot = cnt mod total_w
      in if slot < w1 then [k1, k2, k3]
         else if slot < w1 + w2 then [k2, k1, k3]
         else [k3, k1, k2])"

fun claim_search ::
  "'z zset_ops \<Rightarrow> string \<Rightarrow> int \<Rightarrow> string list \<Rightarrow> 'z redis \<Rightarrow> string option \<times> 'z redis" where
  "claim_search R in_progress_key deadline [] rd = (None, rd)"
| "claim_search R in_progress_key deadline (q_key # q_keys) rd =
     (case zrange R 0 0 (zsets rd q_key) of
        [] \<Rightarrow> claim_search R in_progress_key deadline q_keys rd
      | job_id # _ \<Rightarrow>
          (let z1 = (zsets rd)(q_key := zrem R job_id (zsets rd q_key));
               z2 = z1(in_progress_key := zadd R deadline job_id (z1 in_progress_key))
           in (Some job_id, rd\<lparr>zsets := z2\<rparr>)))"

definition claimScript ::
  "'z zset_ops \<Rightarrow> string list \<Rightarrow> int \<Rightarrow> int \<Rightarrow> int \<Rightarrow> int \<Rightarrow> 'z redis \<Rightarrow> string option \<times> 'z redis" where
  "claimScript R KEYS deadline w1 w2 w3 rd =
     (let in_progress_key = KEYS ! 3; counter_key = KEYS ! 4;
          cnt = counters rd counter_key + 1;
          rd1 = rd\<lparr>counters := (counters rd)(counter_key := cnt)\<rparr>
      in claim_search R in_progress_key deadline
           (search_order (KEYS ! 0) (KEYS ! 1) (KEYS ! 2) w1 w2 w3 cnt) rd1)"

section \<open>The script that requeues stale jobs\<close>

fun requeue_jobs ::
  "'z zset_ops \<Rightarrow> string \<Rightarrow> string \<Rightarrow> int \<Rightarrow> string list \<Rightarrow> int \<Rightarrow> 'z redis \<Rightarrow> int \<times> 'z redis" where
  "requeue_jobs R in_progress_key target_queue_key now [] cnt rd = (cnt, rd)"
| "requeue_jobs R in_progress_key target_queue_key now (job_id # ids) cnt rd =
     (let z1 = (zsets rd)(in_progress_key := zrem R job_id (zsets rd in_progress_key));
          z2 = z1(target_queue_key := zadd R now job_id (z1 target_queue_key))
      in requeue_jobs R in_progress_key target_queue_key now ids (cnt + 1) (rd\<lparr>zsets := z2\<rparr>))"

definition requeueStaleScript ::
  "'z zset_ops \<Rightarrow> string list \<Rightarrow> int \<Rightarrow> 'z redis \<Rightarrow> int \<times> 'z redis" where
  "requeueStaleScript R KEYS now rd =
     (let in_progress_key = KEYS ! 0; target_queue_key = KEYS ! 1;
          stale_jobs = zrangebyscore R now (zsets rd in_progress_key)
      in requeue_jobs R in_progress_key target_queue_key now stale_jobs 0 rd)"

section \<open>The methods\<close>

definition RedisQueue_Enqueue ::
  "'z zset_ops \<Rightarrow> uuid_ops \<Rightarrow> 'z env \<Rightarrow> job option \<Rightarrow> ('z world, err + unit) state" where
  "RedisQueue_Enqueue R U E job =
     (case job of
        None \<Rightarrow> State_Monad.return (Inl ErrInvalidJob)
      | Some j \<Rightarrow>
          if j_ID j = uuid_Nil then State_Monad.return (Inl ErrInvalidJob)
          else
            let queueName = (if j_Queue j = '''' then defaultQueueName else j_Queue j);
                priority = (if j_Priority j < 1 \<or> j_Priority j > 3 then DefaultPriority
                            else j_Priority j);
                key = priorityQueueKey queueName priority
            in rcmd E (\<lambda>now rd. ((), rd\<lparr>zsets := (zsets rd)
                 (key := zadd R (UnixMilli now) (uuid_String U (j_ID j)) (zsets rd key))\<rparr>)))"

definition RedisQueue_ClaimWithWeights ::
  "'z zset_ops \<Rightarrow> uuid_ops \<Rightarrow> 'z env \<Rightarrow> string \<Rightarrow> string \<Rightarrow> duration \<Rightarrow> int \<Rightarrow> int \<Rightarrow> int \<Rightarrow>
   ('z world, err + uuid) state" where
  "RedisQueue_ClaimWithWeights R U E workerID queueName0 visibilityTimeout0 w1 w2 w3 =
     (let queueName = (if queueName0 = '''' then defaultQueueName else queueName0);
          visibilityTimeout = (if visibilityTimeout0 \<le> 0 then 30 * second else visibilityTimeout0);
          w1' = (if w1 \<le> 0 then 6 else w1);
          w2' = (if w2 \<le> 0 then 3 else w2);
          w3' = (if w3 \<le> 0 then 1 else w3);
          keys = [priorityQueueKey queueName 1, priorityQueueKey queueName 2,
                  priorityQueueKey queueName 3, inProgressKey queueName, claimCounterKey queueName]
      in do {
        result \<leftarrow> rcmd E (\<lambda>now. claimScript R keys (UnixMilli (now + visibilityTimeout)) w1' w2' w3');
        State_Monad.return (case result of
          Inl e \<Rightarrow> Inl e
        | Inr None \<Rightarrow> Inl ErrQueueEmpty
        | Inr (Some jobIDStr) \<Rightarrow>
            if jobIDStr = '''' then Inl ErrQueueEmpty
            else (case uuid_Parse U jobIDStr of
                    None \<Rightarrow> Inl (ErrParse jobIDStr)
                  | Some jobID \<Rightarrow> Inr jobID))
      })"

definition RedisQueue_Claim ::
  "'z zset_ops \<Rightarrow> uuid_ops \<Rightarrow> 'z env \<Rightarrow> string \<Rightarrow> string \<Rightarrow> duration \<Rightarrow> ('z world, err + uuid) state" where
  "RedisQueue_Claim R U E workerID queueName visibilityTimeout =
     RedisQueue_ClaimWithWeights R U E workerID queueName visibilityTimeout 6 3 1"

definition RedisQueue_Ack ::
  "'z zset_ops \<Rightarrow> uuid_ops \<Rightarrow> 'z env \<Rightarrow> string \<Rightarrow> uuid \<Rightarrow> ('z world, err + unit) state" where
  "RedisQueue_Ack R U E queueName0 jobID =
     (let queueName = (if queueName0 = '''' then defaultQueueName else queueName0);
          key = inProgressKey queueName
      in rcmd E (\<lambda>now rd. ((), rd\<lparr>zsets := (zsets rd)
           (key := zrem R (uuid_String U jobID) (zsets rd key))\<rparr>)))"

definition RedisQueue_RequeueStale ::
  "'z zset_ops \<Rightarrow> uuid_ops \<Rightarrow> 'z env \<Rightarrow> string \<Rightarrow> int \<Rightarrow> ('z world, err + int) state" where
  "RedisQueue_RequeueStale R U E queueName0 defaultPriority0 =
     (let queueName = (if queueName0 = '''' then defaultQueueName else queueName0);
          defaultPriority = (if defaultPriority0 < 1 \<or> defaultPriority0 > 3 then DefaultPriority
                             else defaultPriority0);
          keys = [inProgressKey queueName, priorityQueueKey queueName defaultPriority]
      in rcmd E (\<lambda>now. requeueStaleScript R keys (UnixMilli now)))"

definition RedisQueue_Heartbeat ::
  "'z env \<Rightarrow> string \<Rightarrow> duration \<Rightarrow> ('z world, err + unit) state" where
  "RedisQueue_Heartbeat E workerID ttl =
     (if workerID = '''' then State_Monad.return (Inl ErrEmptyWorkerID)
      else rcmd E (\<lambda>now rd. ((), rd\<lparr>
        strkeys := (strkeys rd)(workerHeartbeatKey workerID \<mapsto> (now, now + ttl)),
        sets := (sets rd)(workersActiveKey := insert workerID (sets rd workersActiveKey))\<rparr>)))"

definition RedisQueue_RemoveWorker :: "'z env \<Rightarrow> string \<Rightarrow> ('z world, err + unit) state" where
  "RedisQueue_RemoveWorker E workerID =
     (if workerID = '''' then State_Monad.return (Inr ())
      else rcmd E (\<lambda>now rd. ((), rd\<lparr>
        strkeys := (strkeys rd)(workerHeartbeatKey workerID := None),
        sets := (sets rd)(workersActiveKey := sets rd workersActiveKey - {workerID})\<rparr>)))"

definition zcard_cmd :: "'z zset_ops \<Rightarrow> 'z env \<Rightarrow> string \<Rightarrow> ('z world, err + int) state" where
  "zcard_cmd R E key = rcmd E (\<lambda>now rd. (int (zcard R (zsets rd key)), rd))"

definition RedisQueue_QueueLength ::
  "'z zset_ops \<Rightarrow> 'z env \<Rightarrow> string \<Rightarrow> ('z world, err + int) state" where
  "RedisQueue_QueueLength R E queueName0 =
     (let queueName = (if queueName0 = '''' then defaultQueueName else queueName0)
      in for_each [1, 2, 3] (Inr 0) (\<lambda>p total.
           case total of
             Inl e \<Rightarrow> State_Monad.return (Inl e)
           | Inr t \<Rightarrow> do {
               c \<leftarrow> zcard_cmd R E (priorityQueueKey queueName p);
               State_Monad.return (case c of Inl e \<Rightarrow> Inl e | Inr k \<Rightarrow> Inr (t + k))
             }))"

definition RedisQueue_InProgressCount ::
  "'z zset_ops \<Rightarrow> 'z env \<Rightarrow> string \<Rightarrow> ('z world, err + int) state" where
  "RedisQueue_InProgressCount R E queueName0 =
     (let queueName = (if queueName0 = '''' then defaultQueueName else queueName0)
      in zcard_cmd R E (inProgressKey queueName))"

definition RedisQueue_GetQueueStats ::
  "'z zset_ops \<Rightarrow> 'z env \<Rightarrow> string \<Rightarrow> ('z world, err + queue_stats) state" where
  "RedisQueue_GetQueueStats R E queueName0 =
     (let queueName = (if queueName0 = '''' then defaultQueueName else queueName0)
      in do {
        counts \<leftarrow> for_each [1, 2, 3] (Inr []) (\<lambda>p acc.
          case acc of
            Inl e \<Rightarrow> State_Monad.return (Inl e)
          | Inr cs \<Rightarrow> do {
              c \<leftarrow> zcard_cmd R E (priorityQueueKey queueName p);
              State_Monad.return (case c of Inl e \<Rightarrow> Inl e | Inr k \<Rightarrow> Inr (cs @ [(p, k)]))
            });
        case counts of
          Inl e \<Rightarrow> State_Monad.return (Inl e)
        | Inr cs \<Rightarrow> do {
            inProg \<leftarrow> zcard_cmd R E (inProgressKey queueName);
            State_Monad.return (case inProg of
              Inl e \<Rightarrow> Inl e
            | Inr k \<Rightarrow> Inr \<lparr>qs_QueueName = queueName, qs_PriorityCounts = cs, qs_InProgressCount = k\<rparr>)
          }
      })"

text \<open>The method table of \<open>*RedisQueue\<close> as a \<open>Queue\<close>.\<close>

definition RedisQueue :: "'z zset_ops \<Rightarrow> uuid_ops \<Rightarrow> 'z env \<Rightarrow> 'z world queue_iface" where
  "RedisQueue R U E =
     \<lparr>q_Enqueue = RedisQueue_Enqueue R U E,
      q_Claim = RedisQueue_Claim R U E,
      q_Ack = RedisQueue_Ack R U E,
      q_RequeueStale = RedisQueue_RequeueStale R U E,
      q_Heartbeat = RedisQueue_Heartbeat E,
      q_RemoveWorker = RedisQueue_RemoveWorker E,
      q_QueueLength = RedisQueue_QueueLength R E,
      q_InProgressCount = RedisQueue_InProgressCount R E,
      q_GetQueueStats = RedisQueue_GetQueueStats R E,
      q_Close = State_Monad.return (Inr ())\<rparr>"

section \<open>The keys of different queues and purposes never meet\<close>

lemma show_priority: "show_int 1 = ''1''" "show_int 2 = ''2''" "show_int 3 = ''3''"
  by (simp_all add: show_int_def show_nat.simps)

lemma key_eq_iff:
  assumes "p \<in> {1, 2, 3}" and "q \<in> {1, 2, 3}"
  shows "priorityQueueKey n p = priorityQueueKey m q \<longleftrightarrow> n = m \<and> p = q"
  using assms by (auto simp: priorityQueueKey_def show_priority)

lemma inProgressKey_eq_iff: "inProgressKey n = inProgressKey m \<longleftrightarrow> n = m"
  by (simp add: inProgressKey_def)

lemma last_key:
  "p \<in> {1, 2, 3} \<Longrightarrow> last (priorityQueueKey n p) \<in> {CHR ''1'', CHR ''2'', CHR ''3''}"
  "last (inProgressKey n) = CHR ''s''"
  "last (claimCounterKey n) = CHR ''r''"
  by (auto simp: priorityQueueKey_def inProgressKey_def claimCounterKey_def show_priority)

lemma key_neq:
  assumes "p \<in> {1, 2, 3}"
  shows "priorityQueueKey n p \<noteq> inProgressKey m" "inProgressKey m \<noteq> priorityQueueKey n p"
    "priorityQueueKey n p \<noteq> claimCounterKey m" "inProgressKey n \<noteq> claimCounterKey m"
  using last_key(1) [of p n] last_key(2) [of m] last_key(3) [of m] last_key(2) [of n] assms by auto

section \<open>The abstract queue behind the sorted sets\<close>

definition redis_view :: "'z zset_ops \<Rightarrow> uuid_ops \<Rightarrow> 'z world \<Rightarrow> queue_view" where
  "redis_view R U w =
     \<lparr>waiting = (\<lambda>n p. if p \<in> {1, 2, 3} then
        {u. zscore R (zsets (rds w) (priorityQueueKey n p)) (uuid_String U u) \<noteq> None} else {}),
      inflight = (\<lambda>n u. zscore R (zsets (rds w) (inProgressKey n)) (uuid_String U u))\<rparr>"

lemma redis_view_cong: "zsets (rds w) = zsets (rds w') \<Longrightarrow> redis_view R U w = redis_view R U w'"
  by (simp only: redis_view_def)

text \<open>The sorted sets after a member has moved from one key to another with a new score.\<close>

definition moved ::
  "'z zset_ops \<Rightarrow> string \<Rightarrow> int \<Rightarrow> string \<Rightarrow> string \<Rightarrow> (string \<Rightarrow> 'z) \<Rightarrow> string \<Rightarrow> 'z" where
  "moved R target score k m z =
     (let z1 = z(k := zrem R m (z k)) in z1(target := zadd R score m (z1 target)))"

definition canonical :: "'z zset_ops \<Rightarrow> uuid_ops \<Rightarrow> 'z redis \<Rightarrow> bool" where
  "canonical R U rd \<longleftrightarrow> (\<forall>key. dom (zscore R (zsets rd key)) \<subseteq> range (uuid_String U))"

definition canonical_world :: "'z zset_ops \<Rightarrow> uuid_ops \<Rightarrow> 'z world \<Rightarrow> bool" where
  "canonical_world R U w \<longleftrightarrow> canonical R U (rds w)"

lemma view_eqI:
  "waiting v = waiting v' \<Longrightarrow> inflight v = inflight v' \<Longrightarrow> v = (v' :: queue_view)"
  by simp

locale redis_queue = redis_server R U for R :: "'z zset_ops" and U :: uuid_ops +
  fixes E :: "'z env"
  assumes others_canonical: "canonical R U r \<Longrightarrow> canonical R U (snd (others E n (d, r)))"
begin

abbreviation ok :: "'z world \<Rightarrow> bool" where
  "ok \<equiv> canonical_world R U"

lemmas ok_def = canonical_world_def

lemma settle_ok: "ok w \<Longrightarrow> ok (settle E w)"
  using others_canonical by (auto simp: ok_def settle_def split: prod.split) (metis snd_conv)

lemma canonical_upd:
  "canonical R U rd \<Longrightarrow> dom (zscore R z) \<subseteq> range (uuid_String U) \<Longrightarrow>
   canonical R U (rd\<lparr>zsets := (zsets rd)(key := z)\<rparr>)"
  by (simp add: canonical_def)

lemma canonical_add:
  "canonical R U rd \<Longrightarrow>
   canonical R U (rd\<lparr>zsets := (zsets rd)(key := zadd R s (uuid_String U u) (zsets rd key))\<rparr>)"
  by (rule canonical_upd) (auto simp: canonical_def score_add)

lemma canonical_rem:
  "canonical R U rd \<Longrightarrow>
   canonical R U (rd\<lparr>zsets := (zsets rd)(key := zrem R m (zsets rd key))\<rparr>)"
  by (rule canonical_upd) (auto simp: canonical_def score_rem)

lemma canonical_moved:
  assumes "canonical R U rd"
  shows "canonical R U (rd\<lparr>zsets := moved R ip s k (uuid_String U u) (zsets rd)\<rparr>)"
proof -
  let ?rd = "rd\<lparr>zsets := (zsets rd)(k := zrem R (uuid_String U u) (zsets rd k))\<rparr>"
  have "canonical R U (?rd\<lparr>zsets := (zsets ?rd)(ip := zadd R s (uuid_String U u) (zsets ?rd ip))\<rparr>)"
    by (intro canonical_add canonical_rem assms)
  then show ?thesis by (simp add: moved_def)
qed

lemma canonical_counters: "canonical R U (rd\<lparr>counters := c\<rparr>) = canonical R U rd"
  by (simp add: canonical_def)

lemma queue_names:
  "(if n = '''' then defaultQueueName else n) = queue_name n"
  "(if p < 1 \<or> p > 3 then DefaultPriority else p) = queue_priority p"
  by (simp_all add: queue_name_def queue_priority_def defaultQueueName_def)

subsection \<open>Enqueue and Ack\<close>

lemma enqueue_view:
  assumes "rds w' = (rds w)\<lparr>zsets := (zsets (rds w))(priorityQueueKey n p :=
      zadd R s (uuid_String U u) (zsets (rds w) (priorityQueueKey n p)))\<rparr>" and "p \<in> {1, 2, 3}"
  shows "redis_view R U w' = (redis_view R U w)\<lparr>waiting := (waiting (redis_view R U w))(n :=
      (waiting (redis_view R U w) n)(p := insert u (waiting (redis_view R U w) n p)))\<rparr>"
proof (rule view_eqI)
  show "inflight (redis_view R U w') = inflight (redis_view R U w\<lparr>waiting :=
      (waiting (redis_view R U w))(n := (waiting (redis_view R U w) n)
        (p := insert u (waiting (redis_view R U w) n p)))\<rparr>)"
    using assms(2) by (auto simp: redis_view_def assms(1) key_neq)
  show "waiting (redis_view R U w') = waiting (redis_view R U w\<lparr>waiting :=
      (waiting (redis_view R U w))(n := (waiting (redis_view R U w) n)
        (p := insert u (waiting (redis_view R U w) n p)))\<rparr>)"
    using assms(2) by (auto simp: redis_view_def assms(1) key_eq_iff score_add String_inj fun_eq_iff)
qed

lemma ack_view:
  assumes "rds w' = (rds w)\<lparr>zsets := (zsets (rds w))(inProgressKey n :=
      zrem R (uuid_String U u) (zsets (rds w) (inProgressKey n)))\<rparr>"
  shows "redis_view R U w' = v_ack n u (redis_view R U w)"
  by (rule view_eqI)
    (auto simp: redis_view_def v_ack_def assms key_neq inProgressKey_eq_iff score_rem String_inj
      fun_eq_iff)

subsection \<open>Claim\<close>

lemma search_order_perm:
  "set (search_order a b c w1 w2 w3 k) = {a, b, c}"
  by (auto simp: search_order_def Let_def)

text \<open>The search takes the first member of the first non-empty queue in the order.\<close>

lemma claim_search_cases:
  assumes "claim_search R ip dl keys rd = (res, rd')"
  shows "res = None \<and> rd' = rd \<and> (\<forall>k \<in> set keys. zscore R (zsets rd k) = Map.empty) \<or>
    (\<exists>k m s. find (\<lambda>k. zscore R (zsets rd k) \<noteq> Map.empty) keys = Some k \<and>
      res = Some m \<and> zscore R (zsets rd k) m = Some s \<and>
      (\<forall>m' t. zscore R (zsets rd k) m' = Some t \<longrightarrow> s < t \<or> s = t \<and> m \<le> m') \<and>
      rd' = rd\<lparr>zsets := moved R ip dl k m (zsets rd)\<rparr>)"
  using assms
proof (induction keys)
  case (Cons k keys)
  show ?case
  proof (cases "zrange R 0 0 (zsets rd k)")
    case Nil
    then have "zscore R (zsets rd k) = Map.empty" using first_none by blast
    with Cons Nil show ?thesis by simp
  next
    case (Cons m ms)
    from first_some [OF Cons] obtain s where "zscore R (zsets rd k) m = Some s"
      and "\<forall>m' t. zscore R (zsets rd k) m' = Some t \<longrightarrow> s < t \<or> s = t \<and> m \<le> m'" by blast
    moreover have "res = Some m" "rd' = rd\<lparr>zsets := moved R ip dl k m (zsets rd)\<rparr>"
      using Cons.prems \<open>zrange R 0 0 (zsets rd k) = m # ms\<close> by (simp_all add: Let_def moved_def)
    moreover have "zscore R (zsets rd k) \<noteq> Map.empty" using calculation(1) by auto
    ultimately show ?thesis
      by - (rule disjI2, rule exI [of _ k], rule exI [of _ m], rule exI [of _ s], simp)
  qed
qed simp

lemma claim_view:
  assumes rd': "rds w' = (rds w)\<lparr>counters := c,
      zsets := moved R (inProgressKey n) dl k m (zsets (rds w))\<rparr>"
    and k: "k = priorityQueueKey n p" "p \<in> {1, 2, 3}" and m: "m = uuid_String U u"
  shows "redis_view R U w' = v_claim n p u dl (redis_view R U w)"
proof (rule view_eqI)
  show "waiting (redis_view R U w') = waiting (v_claim n p u dl (redis_view R U w))"
    unfolding redis_view_def v_claim_def using k(2)
    by (auto simp: rd' moved_def k(1) m key_eq_iff key_neq score_rem String_inj fun_eq_iff)
  show "inflight (redis_view R U w') = inflight (v_claim n p u dl (redis_view R U w))"
    unfolding redis_view_def v_claim_def using k(2)
    by (auto simp: rd' moved_def k(1) m key_neq inProgressKey_eq_iff score_add String_inj fun_eq_iff)
qed

subsection \<open>Requeue\<close>

lemma requeue_jobs_effect:
  assumes "requeue_jobs R ip target now ids cnt rd = (c, rd')" and "ip \<noteq> target" and "distinct ids"
  shows "c = cnt + int (length ids) \<and> (\<exists>z. rd' = rd\<lparr>zsets := z\<rparr> \<and>
    zscore R (z ip) = (\<lambda>m. if m \<in> set ids then None else zscore R (zsets rd ip) m) \<and>
    zscore R (z target) = (\<lambda>m. if m \<in> set ids then Some now else zscore R (zsets rd target) m) \<and>
    (\<forall>k. k \<noteq> ip \<and> k \<noteq> target \<longrightarrow> z k = zsets rd k))"
  using assms
proof (induction ids arbitrary: cnt rd)
  case Nil
  then show ?case by (intro conjI exI [of _ "zsets rd"]) auto
next
  case (Cons m ids)
  let ?rd = "rd\<lparr>zsets := moved R target now ip m (zsets rd)\<rparr>"
  have "requeue_jobs R ip target now ids (cnt + 1) ?rd = (c, rd')"
    using Cons.prems(1) by (simp add: moved_def Let_def)
  from Cons.IH [OF this Cons.prems(2)] Cons.prems(3) obtain z where
      c: "c = cnt + 1 + int (length ids)" and rd': "rd' = ?rd\<lparr>zsets := z\<rparr>"
      and ip: "zscore R (z ip) = (\<lambda>k. if k \<in> set ids then None else zscore R (zsets ?rd ip) k)"
      and tg: "zscore R (z target) = (\<lambda>k. if k \<in> set ids then Some now else zscore R (zsets ?rd target) k)"
      and rest: "\<forall>k. k \<noteq> ip \<and> k \<noteq> target \<longrightarrow> z k = zsets ?rd k"
    by auto
  have "zscore R (zsets ?rd ip) = (zscore R (zsets rd ip))(m := None)"
    "zscore R (zsets ?rd target) = (zscore R (zsets rd target))(m \<mapsto> now)"
    using Cons.prems(2) by (simp_all add: moved_def score_rem score_add)
  then show ?case
    using c rd' rest Cons.prems(3)
    by (intro conjI exI [of _ z]) (auto simp: ip tg moved_def fun_eq_iff)
qed

lemma requeue_view:
  assumes canon: "canonical R U (rds w)" and p: "p \<in> {1, 2, 3}"
    and run: "requeueStaleScript R [inProgressKey n, priorityQueueKey n p] now (rds w) = (c, rd')"
    and w': "rds w' = rd'"
  shows "c = int (card (expired n now (redis_view R U w)))"
    and "redis_view R U w' = v_requeue n p now (redis_view R U w)"
    and "canonical R U rd'"
proof -
  let ?ip = "inProgressKey n" and ?tg = "priorityQueueKey n p"
  let ?ids = "zrangebyscore R now (zsets (rds w) ?ip)"
  have run': "requeue_jobs R ?ip ?tg now ?ids 0 (rds w) = (c, rd')"
    using run by (simp add: requeueStaleScript_def Let_def)
  have neq: "?ip \<noteq> ?tg" by (rule key_neq(2) [OF p])
  from requeue_jobs_effect [OF run' neq by_score_distinct] obtain z where
      c: "c = int (length ?ids)" and rd': "rd' = (rds w)\<lparr>zsets := z\<rparr>"
      and ip: "zscore R (z ?ip) = (\<lambda>m. if m \<in> set ?ids then None else zscore R (zsets (rds w) ?ip) m)"
      and tg: "zscore R (z ?tg) = (\<lambda>m. if m \<in> set ?ids then Some now else zscore R (zsets (rds w) ?tg) m)"
      and rest: "\<And>k. k \<noteq> ?ip \<Longrightarrow> k \<noteq> ?tg \<Longrightarrow> z k = zsets (rds w) k"
    by auto
  have exp: "expired n now (redis_view R U w) = uuid_String U -` set ?ids"
    by (auto simp: expired_def redis_view_def by_score)
  have sub: "set ?ids \<subseteq> range (uuid_String U)"
    using canon by (auto simp: canonical_def by_score dom_def)
  have inj: "inj (uuid_String U)" by (simp add: inj_def String_inj)
  have "card (uuid_String U -` set ?ids) = card (set ?ids)"
    by (rule card_vimage_inj [OF inj sub])
  then show "c = int (card (expired n now (redis_view R U w)))"
    using distinct_card [OF by_score_distinct] by (simp add: c exp)
  have "waiting (redis_view R U w') m q = waiting (v_requeue n p now (redis_view R U w)) m q" for m q
  proof (cases "q \<in> {1, 2, 3}")
    case True
    show ?thesis
    proof (cases "m = n \<and> q = p")
      case True
      then show ?thesis
        using p unfolding v_requeue_def exp by (auto simp: redis_view_def w' rd' tg)
    next
      case False
      then have "z (priorityQueueKey m q) = zsets (rds w) (priorityQueueKey m q)"
        using True p by (intro rest) (auto simp: key_eq_iff key_neq)
      with True False show ?thesis
        unfolding v_requeue_def exp by (auto simp: redis_view_def w' rd')
    qed
  next
    case False
    then show ?thesis using p by (auto simp: redis_view_def v_requeue_def)
  qed
  moreover have "inflight (redis_view R U w') m = inflight (v_requeue n p now (redis_view R U w)) m" for m
  proof (cases "m = n")
    case True
    then show ?thesis unfolding v_requeue_def exp by (auto simp: redis_view_def w' rd' ip)
  next
    case False
    then have "z (inProgressKey m) = zsets (rds w) (inProgressKey m)"
      using p by (intro rest) (auto simp: inProgressKey_eq_iff key_neq)
    with False show ?thesis unfolding v_requeue_def by (auto simp: redis_view_def w' rd')
  qed
  ultimately show "redis_view R U w' = v_requeue n p now (redis_view R U w)"
    by (intro view_eqI ext) simp_all
  show "canonical R U rd'"
    unfolding canonical_def
  proof
    fix k
    have old: "zscore R (zsets (rds w) k') m = Some t \<Longrightarrow> m \<in> range (uuid_String U)" for k' m t
      using canon unfolding canonical_def by blast
    show "dom (zscore R (zsets rd' k)) \<subseteq> range (uuid_String U)"
    proof
      fix m
      assume "m \<in> dom (zscore R (zsets rd' k))"
      then obtain t where t: "zscore R (z k) m = Some t" by (auto simp: rd')
      show "m \<in> range (uuid_String U)"
        using t sub old rest [of k]
        by (cases "k = ?ip"; cases "k = ?tg") (auto simp: ip tg split: if_splits)
    qed
  qed
qed

subsection \<open>The methods meet the contract\<close>

lemma rcmd_contract:
  assumes run: "run_state (rcmd E f) w = (r, w')" and okw: "ok w"
    and eff: "\<And>v q. f (clock E (tick w)) (rds (settle E w)) = (v, q) \<Longrightarrow>
      ok (settle E w\<lparr>rds := q\<rparr>) \<and> P v (redis_view R U (settle E w\<lparr>rds := q\<rparr>))"
  shows "ok w' \<and> one_call E w w' \<and>
    (\<exists>v eff. P v eff \<and> delivers (fault E (tick w)) r (Inr v) (redis_view R U w')
       (redis_view R U (settle E w)) eff)"
proof -
  have same: "rds (settle E w) = rds x \<Longrightarrow> redis_view R U x = redis_view R U (settle E w)" for x
    by (rule redis_view_cong) simp
  from run obtain v q where vq: "f (clock E (tick w)) (rds (settle E w)) = (v, q)"
    and out: "fault E (tick w) = Delivered \<and> r = Inr v \<and> w' = (settle E w)\<lparr>rds := q\<rparr> \<or>
       fault E (tick w) = Refused \<and> r = Inl ErrIO \<and> w' = settle E w \<or>
       fault E (tick w) = NoReply \<and> r = Inl ErrIO \<and> w' = (settle E w)\<lparr>rds := q\<rparr>"
    by (rule run_rcmd_cases)
  from out eff [OF vq] settle_ok [OF okw] show ?thesis
    unfolding one_call_def delivers_def by (elim disjE) auto
qed

lemma enqueue_run:
  assumes id: "j_ID j \<noteq> uuid_Nil" and okw: "ok w"
    and run: "run_state (RedisQueue_Enqueue R U E (Some j)) w = (re, w')"
  shows "ok w' \<and> one_call E w w' \<and>
    delivers (fault E (tick w)) re (Inr ()) (redis_view R U w') (redis_view R U (settle E w))
      (v_enqueue j (redis_view R U (settle E w)))"
proof -
  let ?n = "queue_name (j_Queue j)" and ?p = "queue_priority (j_Priority j)"
  let ?k = "priorityQueueKey ?n ?p"
  let ?upd = "\<lambda>now rd. rd\<lparr>zsets := (zsets rd)
      (?k := zadd R (UnixMilli now) (uuid_String U (j_ID j)) (zsets rd ?k))\<rparr>"
  have run': "run_state (rcmd E (\<lambda>now rd. ((), ?upd now rd))) w = (re, w')"
    using run id by (simp add: RedisQueue_Enqueue_def Let_def queue_names)
  have "ok w'' \<and> redis_view R U w'' = v_enqueue j (redis_view R U (settle E w))"
    if "w'' = (settle E w)\<lparr>rds := ?upd (clock E (tick w)) (rds (settle E w))\<rparr>" for w''
    using enqueue_view [of w'' "settle E w" ?n ?p "UnixMilli (clock E (tick w))" "j_ID j"]
      queue_priority_range [of "j_Priority j"] canonical_add [of "rds (settle E w)"] settle_ok [OF okw]
    by (simp add: that ok_def v_enqueue_def)
  with rcmd_contract [OF run' okw, of "\<lambda>_ v. v = v_enqueue j (redis_view R U (settle E w))"]
  show ?thesis by auto
qed

lemma ack_run:
  assumes okw: "ok w" and run: "run_state (RedisQueue_Ack R U E n u) w = (ra, w')"
  shows "ok w' \<and> one_call E w w' \<and>
    delivers (fault E (tick w)) ra (Inr ()) (redis_view R U w') (redis_view R U (settle E w))
      (v_ack (queue_name n) u (redis_view R U (settle E w)))"
proof -
  let ?k = "inProgressKey (queue_name n)"
  let ?upd = "\<lambda>rd. rd\<lparr>zsets := (zsets rd)(?k := zrem R (uuid_String U u) (zsets rd ?k))\<rparr>"
  have run': "run_state (rcmd E (\<lambda>now rd. ((), ?upd rd))) w = (ra, w')"
    using run by (simp add: RedisQueue_Ack_def Let_def queue_names)
  have "ok w'' \<and> redis_view R U w'' = v_ack (queue_name n) u (redis_view R U (settle E w))"
    if "w'' = (settle E w)\<lparr>rds := ?upd (rds (settle E w))\<rparr>" for w''
    using ack_view [of w'' "settle E w" "queue_name n" u] canonical_rem [of "rds (settle E w)"]
      settle_ok [OF okw] by (simp add: that ok_def)
  with rcmd_contract [OF run' okw, of "\<lambda>_ v. v = v_ack (queue_name n) u (redis_view R U (settle E w))"]
  show ?thesis by auto
qed

lemma requeue_run:
  assumes okw: "ok w" and run: "run_state (RedisQueue_RequeueStale R U E n p) w = (rs, w')"
  shows "ok w' \<and> one_call E w w' \<and>
    delivers (fault E (tick w)) rs
      (Inr (int (card (expired (queue_name n) (UnixMilli (clock E (tick w))) (redis_view R U (settle E w))))))
      (redis_view R U w') (redis_view R U (settle E w))
      (v_requeue (queue_name n) (queue_priority p) (UnixMilli (clock E (tick w)))
        (redis_view R U (settle E w)))"
proof -
  let ?keys = "[inProgressKey (queue_name n), priorityQueueKey (queue_name n) (queue_priority p)]"
  let ?now = "UnixMilli (clock E (tick w))" and ?v = "redis_view R U (settle E w)"
  have run': "run_state (rcmd E (\<lambda>now. requeueStaleScript R ?keys (UnixMilli now))) w = (rs, w')"
    using run by (simp add: RedisQueue_RequeueStale_def Let_def queue_names)
  have "ok (settle E w\<lparr>rds := q\<rparr>) \<and> (c = int (card (expired (queue_name n) ?now ?v)) \<and>
      redis_view R U (settle E w\<lparr>rds := q\<rparr>) = v_requeue (queue_name n) (queue_priority p) ?now ?v)"
    if "requeueStaleScript R ?keys ?now (rds (settle E w)) = (c, q)" for c q
    using requeue_view [OF settle_ok [OF okw, unfolded ok_def] queue_priority_range that,
        of "settle E w\<lparr>rds := q\<rparr>"]
    by (simp add: ok_def)
  from rcmd_contract [OF run' okw, of "\<lambda>c v. c = int (card (expired (queue_name n) ?now ?v)) \<and>
      v = v_requeue (queue_name n) (queue_priority p) ?now ?v", OF this]
  show ?thesis by auto
qed

lemma claim_effect:
  assumes okw: "ok w"
    and run: "claimScript R [priorityQueueKey n 1, priorityQueueKey n 2, priorityQueueKey n 3,
        inProgressKey n, claimCounterKey n] dl w1 w2 w3 (rds w) = (res, rd')"
  shows "ok (w\<lparr>rds := rd'\<rparr>) \<and>
      (res = None \<and> queued (redis_view R U w) n = {} \<and>
         redis_view R U (w\<lparr>rds := rd'\<rparr>) = redis_view R U w \<or>
       (\<exists>u p. res = Some (uuid_String U u) \<and> p \<in> {1, 2, 3} \<and> u \<in> waiting (redis_view R U w) n p \<and>
         redis_view R U (w\<lparr>rds := rd'\<rparr>) = v_claim n p u dl (redis_view R U w)))"
proof -
  let ?K = "priorityQueueKey n"
  define cnt where "cnt = counters (rds w) (claimCounterKey n) + 1"
  define rd1 where "rd1 = (rds w)\<lparr>counters := (counters (rds w))(claimCounterKey n := cnt)\<rparr>"
  have rd1: "zsets rd1 = zsets (rds w)" by (simp add: rd1_def)
  have "claim_search R (inProgressKey n) dl (search_order (?K 1) (?K 2) (?K 3) w1 w2 w3 cnt) rd1 =
      (res, rd')"
    using run by (simp add: claimScript_def Let_def cnt_def rd1_def)
  from claim_search_cases [OF this] show ?thesis
    unfolding search_order_perm
  proof (elim disjE exE conjE)
    assume "res = None" "rd' = rd1" and "\<forall>k \<in> {?K 1, ?K 2, ?K 3}. zscore R (zsets rd1 k) = Map.empty"
    then show ?thesis
      using okw redis_view_cong [of "w\<lparr>rds := rd'\<rparr>" w]
      by (simp add: queued_def ok_def rd1_def canonical_counters) (simp add: redis_view_def)
  next
    fix k m s
    assume find: "find (\<lambda>k. zscore R (zsets rd1 k) \<noteq> Map.empty)
        (search_order (?K 1) (?K 2) (?K 3) w1 w2 w3 cnt) = Some k" and res: "res = Some m" and m: "zscore R (zsets rd1 k) m = Some s"
      and rd': "rd' = rd1\<lparr>zsets := moved R (inProgressKey n) dl k m (zsets rd1)\<rparr>"
    from find_SomeD [OF find] have "k \<in> {?K 1, ?K 2, ?K 3}"
      by (simp add: search_order_perm)
    then obtain p :: int where p: "k = ?K p" "p \<in> {1, 2, 3}" by blast
    obtain u where u: "m = uuid_String U u"
      using okw m unfolding ok_def canonical_def rd1 by blast
    have "u \<in> waiting (redis_view R U w) n p"
      using m p by (simp add: redis_view_def rd1 u)
    moreover have "redis_view R U (w\<lparr>rds := rd'\<rparr>) = v_claim n p u dl (redis_view R U w)"
      by (rule claim_view [OF _ p u]) (simp add: rd' rd1_def)
    moreover have "ok (w\<lparr>rds := rd'\<rparr>)"
      using okw canonical_moved [of rd1] by (simp add: ok_def rd' u rd1_def canonical_counters)
    ultimately show ?thesis using res u p(2) by blast
  qed
qed

lemma claim_run:
  assumes okw: "ok w" and run: "run_state (RedisQueue_Claim R U E wid n vt) w = (rc, w')"
  shows "ok w' \<and> one_call E w w' \<and>
      (\<exists>rv v'. claim_result (queue_name n) (claim_deadline (clock E (tick w)) vt)
          (redis_view R U (settle E w)) rv v' \<and>
        delivers (fault E (tick w)) rc rv (redis_view R U w') (redis_view R U (settle E w)) v')"
proof -
  let ?n = "queue_name n" and ?s = "settle E w" and ?dl = "claim_deadline (clock E (tick w)) vt"
  let ?keys = "[priorityQueueKey ?n 1, priorityQueueKey ?n 2, priorityQueueKey ?n 3,
      inProgressKey ?n, claimCounterKey ?n]"
  let ?reply = "\<lambda>res. case res of None \<Rightarrow> Inl ErrQueueEmpty
        | Some s \<Rightarrow> if s = [] then Inl ErrQueueEmpty
            else (case uuid_Parse U s of None \<Rightarrow> Inl (ErrParse s) | Some u \<Rightarrow> Inr u)"
  obtain r where r: "run_state (rcmd E (\<lambda>now. claimScript R ?keys (claim_deadline now vt) 6 3 1)) w = (r, w')"
      and rc: "rc = (case r of Inl e \<Rightarrow> Inl e | Inr res \<Rightarrow> ?reply res)"
    using run by (auto simp: RedisQueue_Claim_def RedisQueue_ClaimWithWeights_def Let_def queue_names
        claim_deadline_def split: prod.splits sum.splits option.splits)
  have "ok (?s\<lparr>rds := q\<rparr>) \<and>
      claim_result ?n ?dl (redis_view R U ?s) (?reply res) (redis_view R U (?s\<lparr>rds := q\<rparr>))"
    if "claimScript R ?keys ?dl 6 3 1 (rds ?s) = (res, q)" for res q
    using claim_effect [OF settle_ok [OF okw] that] String_nonempty
    by (auto simp: claim_result_def parse_String)
  from rcmd_contract [OF r okw, of "\<lambda>res. claim_result ?n ?dl (redis_view R U ?s) (?reply res)", OF this]
  obtain res eff where "ok w'" "one_call E w w'"
    and "claim_result ?n ?dl (redis_view R U ?s) (?reply res) eff"
    and "delivers (fault E (tick w)) r (Inr res) (redis_view R U w') (redis_view R U ?s) eff"
    by blast
  moreover from this(4) have "delivers (fault E (tick w)) rc (?reply res) (redis_view R U w')
      (redis_view R U ?s) eff"
    unfolding delivers_def rc by (cases "fault E (tick w)") auto
  ultimately show ?thesis by blast
qed

lemma liveness_keys_run:
  assumes run: "run_state (rcmd E (\<lambda>now rd. (x, rd\<lparr>strkeys := f now rd, sets := g now rd\<rparr>))) w = (r, w')"
    and okw: "ok w"
  shows "ok w' \<and> one_call E w w' \<and> redis_view R U w' = redis_view R U (settle E w)"
proof -
  have "ok (settle E w\<lparr>rds := q\<rparr>) \<and> redis_view R U (settle E w\<lparr>rds := q\<rparr>) = redis_view R U (settle E w)"
    if "zsets q = zsets (rds (settle E w))" for q
    using that settle_ok [OF okw] redis_view_cong [of "settle E w\<lparr>rds := q\<rparr>" "settle E w"]
    by (simp add: ok_def canonical_def)
  then have "ok (settle E w\<lparr>rds := q\<rparr>) \<and>
      (v = x \<and> redis_view R U (settle E w\<lparr>rds := q\<rparr>) = redis_view R U (settle E w))"
    if "(x, (rds (settle E w))\<lparr>strkeys := f (clock E (tick w)) (rds (settle E w)),
      sets := g (clock E (tick w)) (rds (settle E w))\<rparr>) = (v, q)" for v q
    using that by auto
  from rcmd_contract [OF run okw, of "\<lambda>r v. r = x \<and> v = redis_view R U (settle E w)", OF this]
  obtain v where "ok w' \<and> one_call E w w'" and "delivers (fault E (tick w)) r (Inr v) (redis_view R U w')
      (redis_view R U (settle E w)) (redis_view R U (settle E w))" by blast
  then show ?thesis
    by (cases "fault E (tick w)") (auto simp: delivers_def)
qed

lemma remove_worker_run:
  assumes okw: "ok w" and run: "run_state (RedisQueue_RemoveWorker E wid) w = (r, w')"
  shows "w' = w \<or> ok w' \<and> one_call E w w' \<and> redis_view R U w' = redis_view R U (settle E w)"
proof (cases "wid = []")
  case True
  then show ?thesis using run by (simp add: RedisQueue_RemoveWorker_def)
next
  case False
  then have "run_state (rcmd E (\<lambda>now rd. ((), rd\<lparr>
        strkeys := (strkeys rd)(workerHeartbeatKey wid := None),
        sets := (sets rd)(workersActiveKey := sets rd workersActiveKey - {wid})\<rparr>))) w = (r, w')"
    using run by (simp add: RedisQueue_RemoveWorker_def)
  from liveness_keys_run [OF this okw] show ?thesis by blast
qed

lemma heartbeat_run:
  assumes okw: "ok w" and run: "run_state (RedisQueue_Heartbeat E wid ttl) w = (r, w')"
  shows "w' = w \<or> ok w' \<and> one_call E w w' \<and> redis_view R U w' = redis_view R U (settle E w)"
proof (cases "wid = []")
  case True
  then show ?thesis using run by (simp add: RedisQueue_Heartbeat_def)
next
  case False
  then have "run_state (rcmd E (\<lambda>now rd. ((), rd\<lparr>
        strkeys := (strkeys rd)(workerHeartbeatKey wid \<mapsto> (now, now + ttl)),
        sets := (sets rd)(workersActiveKey := insert wid (sets rd workersActiveKey))\<rparr>))) w = (r, w')"
    using run by (simp add: RedisQueue_Heartbeat_def)
  from liveness_keys_run [OF this okw] show ?thesis by blast
qed

end

sublocale redis_queue \<subseteq> dispatch_queue E "RedisQueue R U E" "redis_view R U" "canonical_world R U"
proof
  show "ok w \<Longrightarrow> ok (settle E w)" for w by (rule settle_ok)
  show "rds w = rds w' \<Longrightarrow> redis_view R U w = redis_view R U w'" for w w'
    by (rule redis_view_cong) simp
  show "rds w = rds w' \<Longrightarrow> ok w = ok w'" for w w'
    by (simp add: ok_def)
  show "run_state (q_Enqueue (RedisQueue R U E) None) w = (Inl ErrInvalidJob, w)" for w
    by (simp add: RedisQueue_def RedisQueue_Enqueue_def)
  show "j_ID j = uuid_Nil \<Longrightarrow> run_state (q_Enqueue (RedisQueue R U E) (Some j)) w = (Inl ErrInvalidJob, w)" for j w
    by (simp add: RedisQueue_def RedisQueue_Enqueue_def)
qed (simp only: RedisQueue_def queue_iface.simps; erule enqueue_run claim_run ack_run requeue_run
      remove_worker_run heartbeat_run; assumption)+

interpretation zq: redis_queue zlist_ops hex_uuid_ops quiet_env
  by unfold_locales (simp add: quiet_env_def)

end
