(* ===== verification/Queue_Trace.thy ===== *)
theory Queue_Trace
  imports Queue_Interface
begin

text \<open>
  Sequences of queue operations, as the API server, the scheduler, the supervisors and the
  workers issue them against one shared queue: \<open>run_ops\<close> runs them one after another (every
  operation is one atomic round trip, so a sequence is an interleaving of all processes),
  \<open>op_step\<close> says what one of them may do to the abstract queue under any fault, and the locale
  \<open>shared_queue\<close> shows that every implementation of the contract does only that.
\<close>

datatype queue_op =
    Op_Enqueue job
  | Op_Claim string string duration
  | Op_Ack string uuid
  | Op_RequeueStale string int
  | Op_Heartbeat string duration
  | Op_RemoveWorker string

text \<open>The reply of an operation; only a claim replies with a job.\<close>

definition no_job :: "err + 'a \<Rightarrow> err + uuid option" where
  "no_job r = (case r of Inl e \<Rightarrow> Inl e | Inr _ \<Rightarrow> Inr None)"

definition some_job :: "err + uuid \<Rightarrow> err + uuid option" where
  "some_job r = (case r of Inl e \<Rightarrow> Inl e | Inr u \<Rightarrow> Inr (Some u))"

fun run_op :: "'w queue_iface \<Rightarrow> queue_op \<Rightarrow> 'w \<Rightarrow> (err + uuid option) \<times> 'w" where
  "run_op Q (Op_Enqueue j) w = apfst no_job (run_state (q_Enqueue Q (Some j)) w)"
| "run_op Q (Op_Claim wid n vt) w = apfst some_job (run_state (q_Claim Q wid n vt) w)"
| "run_op Q (Op_Ack n u) w = apfst no_job (run_state (q_Ack Q n u) w)"
| "run_op Q (Op_RequeueStale n p) w = apfst no_job (run_state (q_RequeueStale Q n p) w)"
| "run_op Q (Op_Heartbeat wid ttl) w = apfst no_job (run_state (q_Heartbeat Q wid ttl) w)"
| "run_op Q (Op_RemoveWorker wid) w = apfst no_job (run_state (q_RemoveWorker Q wid) w)"

fun run_ops :: "'w queue_iface \<Rightarrow> queue_op list \<Rightarrow> 'w \<Rightarrow> (err + uuid option) list \<times> 'w" where
  "run_ops Q [] w = ([], w)"
| "run_ops Q (op # ops) w =
     (case run_op Q op w of (r, w1) \<Rightarrow> (case run_ops Q ops w1 of (rs, w2) \<Rightarrow> (r # rs, w2)))"

section \<open>One operation on the abstract queue\<close>

inductive op_step ::
  "time \<Rightarrow> queue_op \<Rightarrow> queue_view \<Rightarrow> err + uuid option \<Rightarrow> queue_view \<Rightarrow> bool" where
  Failed: "op_step now op v (Inl e) v"
| Enqueued: "r \<in> {Inl ErrIO, Inr None} \<Longrightarrow> op_step now (Op_Enqueue j) v r (v_enqueue j v)"
| Claimed: "u \<in> waiting v (queue_name n) p \<Longrightarrow> p \<in> {1, 2, 3} \<Longrightarrow> r \<in> {Inl ErrIO, Inr (Some u)} \<Longrightarrow>
    op_step now (Op_Claim wid n vt) v r (v_claim (queue_name n) p u (claim_deadline now vt) v)"
| Acked: "r \<in> {Inl ErrIO, Inr None} \<Longrightarrow> op_step now (Op_Ack n u) v r (v_ack (queue_name n) u v)"
| Requeued: "r \<in> {Inl ErrIO, Inr None} \<Longrightarrow>
    op_step now (Op_RequeueStale n p) v r (v_requeue (queue_name n) (queue_priority p) (UnixMilli now) v)"
| Beat: "op_step now (Op_Heartbeat wid ttl) v (Inr None) v"
| Removed: "op_step now (Op_RemoveWorker wid) v (Inr None) v"

inductive_cases op_stepE: "op_step now op v r v'"

definition acks :: "string \<Rightarrow> uuid \<Rightarrow> queue_op \<Rightarrow> bool" where
  "acks n u op = (case op of Op_Ack m x \<Rightarrow> queue_name m = n \<and> x = u | _ \<Rightarrow> False)"

definition puts_back :: "string \<Rightarrow> uuid \<Rightarrow> queue_op \<Rightarrow> bool" where
  "puts_back n u op =
     (case op of
        Op_Enqueue j \<Rightarrow> queue_name (j_Queue j) = n \<and> j_ID j = u
      | Op_RequeueStale m p \<Rightarrow> queue_name m = n
      | _ \<Rightarrow> False)"

definition claims_of :: "string \<Rightarrow> queue_op \<Rightarrow> err + uuid option \<Rightarrow> uuid option" where
  "claims_of n op r =
     (case op of
        Op_Claim wid m vt \<Rightarrow>
          if queue_name m = n then (case r of Inl e \<Rightarrow> None | Inr x \<Rightarrow> x) else None
      | _ \<Rightarrow> None)"

lemma tracked_step:
  assumes "op_step now op v r v'" and "u \<in> tracked v n" and "\<not> acks n u op"
  shows "u \<in> tracked v' n"
  using assms(1)
proof cases
  case (Claimed x m p wid vt)
  with assms(2) show ?thesis
    by (auto simp: tracked_def queued_def v_claim_def)
next
  case (Enqueued j)
  with assms(2) show ?thesis
    by (auto simp: tracked_def queued_def v_enqueue_def)
next
  case (Acked m x)
  with assms(2,3) show ?thesis
    by (auto simp: tracked_def queued_def v_ack_def acks_def)
next
  case (Requeued m p)
  with assms(2) queue_priority_range [of p] show ?thesis
    by (auto simp: tracked_def queued_def v_requeue_def)
qed (use assms(2) in simp_all)

lemma unqueued_step:
  assumes "op_step now op v r v'" and "u \<notin> queued v n" and "\<not> puts_back n u op"
  shows "u \<notin> queued v' n"
  using assms(1)
proof cases
  case (Claimed x m p wid vt)
  with assms(2) show ?thesis by (auto simp: queued_def v_claim_def split: if_splits)
next
  case (Enqueued j)
  with assms(2,3) show ?thesis
    by (auto simp: queued_def v_enqueue_def puts_back_def split: if_splits)
next
  case (Acked m x)
  with assms(2) show ?thesis by (auto simp: queued_def v_ack_def)
next
  case (Requeued m p)
  with assms(2,3) show ?thesis
    by (auto simp: queued_def v_requeue_def puts_back_def split: if_splits)
qed (use assms(2) in simp_all)

text \<open>Each job waits at one priority at most.\<close>

definition one_place :: "string \<Rightarrow> queue_view \<Rightarrow> bool" where
  "one_place n v \<longleftrightarrow>
     (\<forall>p \<in> {1, 2, 3}. \<forall>q \<in> {1, 2, 3}. p \<noteq> q \<longrightarrow> waiting v n p \<inter> waiting v n q = {})"

lemma one_place_step:
  assumes "op_step now op v r v'" and "one_place n v" and "\<And>u. \<not> puts_back n u op"
  shows "one_place n v'"
  using assms(1)
proof cases
  case (Claimed x m p wid vt)
  with assms(2) show ?thesis unfolding one_place_def v_claim_def by auto
next
  case (Enqueued j)
  with assms(2,3) show ?thesis unfolding one_place_def v_enqueue_def puts_back_def by auto
next
  case (Acked m x)
  with assms(2) show ?thesis unfolding one_place_def v_ack_def by auto
next
  case (Requeued m p)
  with assms(2,3) show ?thesis unfolding one_place_def v_requeue_def puts_back_def by auto
qed (use assms(2) in simp_all)

lemma claimed_step:
  assumes "op_step now op v r v'" and "claims_of n op r = Some u"
  shows "u \<in> queued v n" and "one_place n v \<Longrightarrow> u \<notin> queued v' n"
  using assms
  by (auto elim!: op_stepE simp: claims_of_def queued_def v_claim_def one_place_def
      split: if_splits queue_op.splits)

section \<open>Sequences of operations on an implementation\<close>

definition undisturbed :: "'z env \<Rightarrow> bool" where
  "undisturbed E \<longleftrightarrow> (\<forall>n p. snd (others E n p) = snd p)"

definition deliveries :: "string \<Rightarrow> queue_op list \<Rightarrow> (err + uuid option) list \<Rightarrow> uuid list" where
  "deliveries n ops rs = List.map_filter (\<lambda>(op, r). claims_of n op r) (zip ops rs)"

lemma deliveries_Nil [simp]: "deliveries n [] rs = []"
  by (simp add: deliveries_def)

lemma deliveries_Cons [simp]:
  "deliveries n (op # ops) (r # rs) =
     (case claims_of n op r of None \<Rightarrow> [] | Some u \<Rightarrow> [u]) @ deliveries n ops rs"
  by (simp add: deliveries_def split: option.split)

locale shared_queue = dispatch_queue E Q view ok
  for E :: "'z env" and Q :: "'z world queue_iface" and view ok +
  assumes alone: "undisturbed E"
begin

lemma view_settle: "view (settle E w) = view w"
proof (rule view_frame)
  show "rds (settle E w) = rds w"
    using alone by (auto simp: settle_def undisturbed_def split: prod.split) (metis snd_conv)
qed

lemma delivers_step:
  assumes "delivers out r (Inr x) new old eff"
    and "\<And>r. r \<in> {Inl ErrIO, Inr None} \<Longrightarrow> op_step now op old r eff"
  shows "op_step now op old (no_job r) new"
  using assms by (cases out) (auto simp: delivers_def no_job_def intro: Failed)

lemma run_op_step:
  assumes "ok w" and "run_op Q op w = (r, w')"
  shows "ok w' \<and> op_step (clock E (tick w)) op (view w) r (view w')"
proof (cases op)
  case (Op_Enqueue j)
  obtain x where run: "run_state (q_Enqueue Q (Some j)) w = (x, w')" and r: "r = no_job x"
    using assms(2) Op_Enqueue by (cases "run_state (q_Enqueue Q (Some j)) w") auto
  show ?thesis
  proof (cases "j_ID j = uuid_Nil")
    case True
    then show ?thesis using run r assms(1) enqueue_nil by (auto simp: no_job_def intro: Failed)
  next
    case False
    from enqueue [OF this assms(1) run] have "ok w'"
      and d: "delivers (fault E (tick w)) x (Inr ()) (view w') (view w) (v_enqueue j (view w))"
      by (auto simp: view_settle)
    then show ?thesis using delivers_step [OF d] by (auto simp: r Op_Enqueue intro: Enqueued)
  qed
next
  case (Op_Claim wid n vt)
  obtain x where run: "run_state (q_Claim Q wid n vt) w = (x, w')" and r: "r = some_job x"
    using assms(2) Op_Claim by (cases "run_state (q_Claim Q wid n vt) w") auto
  from claim [OF assms(1) run] show ?thesis
    unfolding view_settle r Op_Claim
    by (cases "fault E (tick w)")
      (auto simp: claim_result_def delivers_def some_job_def intro!: Failed intro: Claimed)
next
  case (Op_Ack n u)
  obtain x where run: "run_state (q_Ack Q n u) w = (x, w')" and r: "r = no_job x"
    using assms(2) Op_Ack by (cases "run_state (q_Ack Q n u) w") auto
  from ack [OF assms(1) run] have "ok w'"
    and d: "delivers (fault E (tick w)) x (Inr ()) (view w') (view w) (v_ack (queue_name n) u (view w))"
    by (auto simp: view_settle)
  then show ?thesis using delivers_step [OF d] by (auto simp: r Op_Ack intro: Acked)
next
  case (Op_RequeueStale n p)
  obtain x where run: "run_state (q_RequeueStale Q n p) w = (x, w')" and r: "r = no_job x"
    using assms(2) Op_RequeueStale by (cases "run_state (q_RequeueStale Q n p) w") auto
  from requeue_stale [OF assms(1) run] have "ok w'"
    and d: "delivers (fault E (tick w)) x
      (Inr (int (card (expired (queue_name n) (UnixMilli (clock E (tick w))) (view w))))) (view w') (view w)
      (v_requeue (queue_name n) (queue_priority p) (UnixMilli (clock E (tick w))) (view w))"
    by (auto simp: view_settle)
  then show ?thesis using delivers_step [OF d] by (auto simp: r Op_RequeueStale intro: Requeued)
next
  case (Op_Heartbeat wid ttl)
  obtain x where run: "run_state (q_Heartbeat Q wid ttl) w = (x, w')" and r: "r = no_job x"
    using assms(2) Op_Heartbeat by (cases "run_state (q_Heartbeat Q wid ttl) w") auto
  from heartbeat [OF assms(1) run] assms(1) show ?thesis
    unfolding r Op_Heartbeat view_settle
    by (cases x) (auto simp: no_job_def intro: Failed Beat)
next
  case (Op_RemoveWorker wid)
  obtain x where run: "run_state (q_RemoveWorker Q wid) w = (x, w')" and r: "r = no_job x"
    using assms(2) Op_RemoveWorker by (cases "run_state (q_RemoveWorker Q wid) w") auto
  from remove_worker [OF assms(1) run] assms(1) show ?thesis
    unfolding r Op_RemoveWorker view_settle
    by (cases x) (auto simp: no_job_def intro: Failed Removed)
qed

lemma tracked_ops:
  assumes "ok w" and "run_ops Q ops w = (rs, w')" and "u \<in> tracked (view w) n"
    and "\<forall>op \<in> set ops. \<not> acks n u op"
  shows "u \<in> tracked (view w') n"
  using assms
proof (induction ops arbitrary: w rs)
  case (Cons op ops)
  obtain r w1 where r: "run_op Q op w = (r, w1)" by fastforce
  obtain rs2 where rs: "run_ops Q ops w1 = (rs2, w')"
    using Cons.prems(2) r by (auto split: prod.splits)
  from run_op_step [OF Cons.prems(1) r] have "ok w1"
    and "op_step (clock E (tick w)) op (view w) r (view w1)" by auto
  with Cons.prems tracked_step have "u \<in> tracked (view w1) n" by force
  with Cons.IH [OF \<open>ok w1\<close> rs] Cons.prems(4) show ?case by simp
qed simp

lemma unqueued_ops:
  assumes "ok w" and "run_ops Q ops w = (rs, w')" and "u \<notin> queued (view w) n"
    and "\<forall>op \<in> set ops. \<not> puts_back n u op"
  shows "u \<notin> set (deliveries n ops rs) \<and> u \<notin> queued (view w') n"
  using assms
proof (induction ops arbitrary: w rs)
  case (Cons op ops)
  obtain r w1 where r: "run_op Q op w = (r, w1)" by fastforce
  obtain rs2 where rs: "run_ops Q ops w1 = (rs2, w')" and eq: "rs = r # rs2"
    using Cons.prems(2) r by (auto split: prod.splits)
  from run_op_step [OF Cons.prems(1) r] have "ok w1"
    and step: "op_step (clock E (tick w)) op (view w) r (view w1)" by auto
  have "u \<notin> queued (view w1) n"
    using unqueued_step [OF step] Cons.prems(3,4) by simp
  with Cons.IH [OF \<open>ok w1\<close> rs] Cons.prems(4)
  have "u \<notin> set (deliveries n ops rs2) \<and> u \<notin> queued (view w') n" by simp
  moreover have "claims_of n op r \<noteq> Some u"
    using claimed_step(1) [OF step] Cons.prems(3) by auto
  ultimately show ?case by (auto simp: eq split: option.splits)
qed simp

lemma distinct_ops:
  assumes "ok w" and "run_ops Q ops w = (rs, w')" and "one_place n (view w)"
    and "\<forall>op \<in> set ops. \<forall>u. \<not> puts_back n u op"
  shows "distinct (deliveries n ops rs) \<and> set (deliveries n ops rs) \<subseteq> queued (view w) n"
  using assms
proof (induction ops arbitrary: w rs)
  case (Cons op ops)
  obtain r w1 where r: "run_op Q op w = (r, w1)" by fastforce
  obtain rs2 where rs: "run_ops Q ops w1 = (rs2, w')" and eq: "rs = r # rs2"
    using Cons.prems(2) r by (auto split: prod.splits)
  from run_op_step [OF Cons.prems(1) r] have ok1: "ok w1"
    and step: "op_step (clock E (tick w)) op (view w) r (view w1)" by auto
  have place: "one_place n (view w1)"
    using one_place_step [OF step Cons.prems(3)] Cons.prems(4) by simp
  have "distinct (deliveries n ops rs2)" and sub: "set (deliveries n ops rs2) \<subseteq> queued (view w1) n"
    using Cons.IH [OF ok1 rs place] Cons.prems(4) by auto
  moreover have "queued (view w1) n \<subseteq> queued (view w) n"
    using unqueued_step [OF step] Cons.prems(4) by auto
  moreover have "x \<in> queued (view w) n \<and> x \<notin> set (deliveries n ops rs2)"
    if "claims_of n op r = Some x" for x
    using claimed_step [OF step that] Cons.prems(3) sub by auto
  ultimately show ?case by (auto simp: eq split: option.splits)
qed simp

end

end
