(* ===== verification/Queue_Props.thy ===== *)
theory Queue_Props
  imports Redis_Queue Queue_Trace
begin

text \<open>
  What the Redis queue promises its users: the shares of the three priorities, the order of
  claims and the bound on waiting, and, through the locale \<open>shared_queue\<close>, that no interleaving of
  operations loses or duplicates a job.
\<close>

section \<open>The queue among processes that only use its operations\<close>

context redis_queue
begin

lemma meets_contract: "dispatch_queue E (RedisQueue R U E) (redis_view R U) (canonical_world R U)"
  by unfold_locales

end

lemma redis_queue_undisturbed:
  assumes "redis_server R U" and "undisturbed E"
  shows "redis_queue R U E"
  using assms by (simp add: redis_queue_def redis_queue_axioms_def undisturbed_def)

lemma shared_redis_queue:
  assumes "redis_server R U" and "undisturbed E"
  shows "shared_queue E (RedisQueue R U E) (redis_view R U) (canonical_world R U)"
  using redis_queue.meets_contract [OF redis_queue_undisturbed [OF assms]] assms(2)
  by (intro shared_queue.intro shared_queue_axioms.intro)

lemma undisturbed_reliable: "reliable E \<Longrightarrow> undisturbed E"
  by (simp add: reliable_def undisturbed_def)

interpretation zs: shared_queue quiet_env "RedisQueue zlist_ops hex_uuid_ops quiet_env"
  "redis_view zlist_ops hex_uuid_ops" "canonical_world zlist_ops hex_uuid_ops"
  by (rule shared_redis_queue) (unfold_locales, simp add: undisturbed_reliable)

section \<open>The weighted slots\<close>

lemma search_order_hd:
  "hd (search_order a b c w1 w2 w3 cnt) =
     (if cnt mod (w1 + w2 + w3) < w1 then a
      else if cnt mod (w1 + w2 + w3) < w1 + w2 then b else c)"
  by (simp add: search_order_def Let_def)

text \<open>Any \<open>t\<close> consecutive integers hit every residue modulo \<open>t\<close> once.\<close>

lemma residues_window:
  assumes "0 < (t::int)"
  shows "inj_on (\<lambda>i. (x + int i) mod t) {..<nat t}"
    and "(\<lambda>i. (x + int i) mod t) ` {..<nat t} = {0..<t}"
proof -
  show inj: "inj_on (\<lambda>i. (x + int i) mod t) {..<nat t}"
  proof (rule inj_onI)
    fix i j
    assume ij: "i \<in> {..<nat t}" "j \<in> {..<nat t}" and "(x + int i) mod t = (x + int j) mod t"
    then have "t dvd (int i - int j)"
      by (metis add_diff_cancel_left mod_eq_dvd_iff)
    moreover have "\<bar>int i - int j\<bar> < t" using ij assms by auto
    ultimately show "i = j" using zdvd_not_zless [of "\<bar>int i - int j\<bar>" t] by auto
  qed
  have "(\<lambda>i. (x + int i) mod t) ` {..<nat t} \<subseteq> {0..<t}" using assms by auto
  moreover have "card ((\<lambda>i. (x + int i) mod t) ` {..<nat t}) = card {0..<t}"
    using card_image [OF inj] by simp
  ultimately show "(\<lambda>i. (x + int i) mod t) ` {..<nat t} = {0..<t}"
    by (intro card_subset_eq) auto
qed

lemma card_window:
  assumes "0 < (t::int)" and "0 \<le> l" and "u \<le> t"
  shows "card {i \<in> {..<nat t}. l \<le> (x + int i) mod t \<and> (x + int i) mod t < u} = nat (u - l)"
proof -
  let ?f = "\<lambda>i. (x + int i) mod t"
  let ?S = "{i \<in> {..<nat t}. l \<le> ?f i \<and> ?f i < u}"
  have "?f ` ?S = {l..<u}"
  proof
    show "{l..<u} \<subseteq> ?f ` ?S"
    proof
      fix y assume y: "y \<in> {l..<u}"
      then have "y \<in> ?f ` {..<nat t}" using residues_window(2) [OF assms(1)] assms by auto
      with y show "y \<in> ?f ` ?S" by auto
    qed
  qed auto
  moreover have "inj_on ?f ?S" by (rule inj_on_subset [OF residues_window(1) [OF assms(1)]]) auto
  ultimately show ?thesis using card_image by fastforce
qed

text \<open>
  Every window of \<open>w1 + w2 + w3\<close> consecutive values of the claim counter searches the high
  priority queue first exactly \<open>w1\<close> times, the medium one \<open>w2\<close> times and the low one \<open>w3\<close> times,
  wherever the window starts.
\<close>

theorem search_order_shares:
  assumes "distinct [a, b, c]" and "0 < w1" and "0 < w2" and "0 < w3"
  shows "card {i \<in> {..<nat (w1 + w2 + w3)}.
      hd (search_order a b c w1 w2 w3 (cnt + int i)) = a} = nat w1 \<and>
    card {i \<in> {..<nat (w1 + w2 + w3)}.
      hd (search_order a b c w1 w2 w3 (cnt + int i)) = b} = nat w2 \<and>
    card {i \<in> {..<nat (w1 + w2 + w3)}.
      hd (search_order a b c w1 w2 w3 (cnt + int i)) = c} = nat w3"
proof -
  let ?t = "w1 + w2 + w3"
  let ?m = "\<lambda>i. (cnt + int i) mod ?t"
  have t: "0 < ?t" using assms by simp
  have "{i \<in> {..<nat ?t}. hd (search_order a b c w1 w2 w3 (cnt + int i)) = a} =
      {i \<in> {..<nat ?t}. 0 \<le> ?m i \<and> ?m i < w1}"
    "{i \<in> {..<nat ?t}. hd (search_order a b c w1 w2 w3 (cnt + int i)) = b} =
      {i \<in> {..<nat ?t}. w1 \<le> ?m i \<and> ?m i < w1 + w2}"
    "{i \<in> {..<nat ?t}. hd (search_order a b c w1 w2 w3 (cnt + int i)) = c} =
      {i \<in> {..<nat ?t}. w1 + w2 \<le> ?m i \<and> ?m i < ?t}"
    using assms t by (auto simp: search_order_hd)
  then show ?thesis
    using card_window [OF t, of 0 w1 cnt] card_window [OF t, of w1 "w1 + w2" cnt]
      card_window [OF t, of "w1 + w2" ?t cnt] assms by simp
qed

theorem search_order_shares_witness:
  "card {i \<in> {..<nat (6 + 3 + 1)}. hd (search_order ''a'' ''b'' ''c'' 6 3 1 (41 + int i)) = ''a''} = 6"
  using search_order_shares [of "''a''" "''b''" "''c''" 6 3 1 41] by simp

section \<open>The order of claims\<close>

text \<open>\<open>heads R z k m s\<close>: the member \<open>m\<close>, with score \<open>s\<close>, is the first of the sorted set at \<open>k\<close>.\<close>

definition heads :: "'z zset_ops \<Rightarrow> (string \<Rightarrow> 'z) \<Rightarrow> string \<Rightarrow> string \<Rightarrow> int \<Rightarrow> bool" where
  "heads R z k m s \<longleftrightarrow> zscore R (z k) m = Some s \<and>
     (\<forall>m' t. zscore R (z k) m' = Some t \<longrightarrow> s < t \<or> s = t \<and> m \<le> m')"

lemma heads_unique: "heads R z k m s \<Longrightarrow> heads R z k m' s' \<Longrightarrow> m = m' \<and> s = s'"
  unfolding heads_def by (metis dual_order.antisym less_asym)

text \<open>The priority that a claim on the queue \<open>n\<close> serves when the counter becomes \<open>cnt\<close>.\<close>

definition served :: "'z zset_ops \<Rightarrow> 'z redis \<Rightarrow> string \<Rightarrow> int option" where
  "served R rd n =
     find (\<lambda>p. zscore R (zsets rd (priorityQueueKey n p)) \<noteq> Map.empty)
       (search_order 1 2 3 6 3 1 (counters rd (claimCounterKey n) + 1))"

lemma search_order_map:
  "search_order (f a) (f b) (f c) w1 w2 w3 cnt = map f (search_order a b c w1 w2 w3 cnt)"
  by (simp add: search_order_def Let_def)

lemma served_range: "served R rd n = Some p \<Longrightarrow> p \<in> {1, 2, 3}"
  using find_SomeD by (fastforce simp: served_def search_order_def Let_def split: if_splits)

lemma find_None: "find P xs = None \<longleftrightarrow> (\<forall>x \<in> set xs. \<not> P x)"
  by (induction xs) auto

lemma find_map: "find P (map f xs) = map_option f (find (P \<circ> f) xs)"
  by (induction xs) auto

context redis_queue
begin

lemma claimScript_run:
  fixes rd :: "'z redis"
  assumes "claimScript R [priorityQueueKey n 1, priorityQueueKey n 2, priorityQueueKey n 3,
        inProgressKey n, claimCounterKey n] dl 6 3 1 rd = (res, rd')"
  defines "rd1 \<equiv> rd\<lparr>counters := (counters rd)
      (claimCounterKey n := counters rd (claimCounterKey n) + 1)\<rparr>"
  shows "case served R rd n of
      None \<Rightarrow> res = None \<and> rd' = rd1
    | Some p \<Rightarrow> \<exists>m s. res = Some m \<and> heads R (zsets rd) (priorityQueueKey n p) m s \<and>
        rd' = rd1\<lparr>zsets := moved R (inProgressKey n) dl (priorityQueueKey n p) m (zsets rd)\<rparr>"
proof -
  let ?order = "search_order 1 2 3 6 3 1 (counters rd (claimCounterKey n) + 1)"
  have z: "zsets rd1 = zsets rd" by (simp add: rd1_def)
  have "claim_search R (inProgressKey n) dl (map (priorityQueueKey n) ?order) rd1 = (res, rd')"
    using assms(1) by (simp add: claimScript_def Let_def rd1_def search_order_map)
  from claim_search_cases [OF this] show ?thesis
    unfolding z find_map served_def heads_def comp_def
    by (auto simp: find_None split: option.split dest: find_SomeD)
qed

lemma Claim_run:
  fixes w :: "'z world"
  assumes rel: "reliable E" and okw: "canonical_world R U w"
    and run: "run_state (RedisQueue_Claim R U E wid n vt) w = (r, w')"
  defines "n' \<equiv> queue_name n"
  shows "counters (rds w') = (counters (rds w))
      (claimCounterKey n' := counters (rds w) (claimCounterKey n') + 1) \<and>
    (case served R (rds w) n' of
      None \<Rightarrow> r = Inl ErrQueueEmpty \<and> zsets (rds w') = zsets (rds w)
    | Some p \<Rightarrow> \<exists>u s. r = Inr u \<and> heads R (zsets (rds w)) (priorityQueueKey n' p) (uuid_String U u) s \<and>
        zsets (rds w') = moved R (inProgressKey n') (claim_deadline (clock E (tick w)) vt)
          (priorityQueueKey n' p) (uuid_String U u) (zsets (rds w)))"
proof -
  let ?dl = "claim_deadline (clock E (tick w)) vt"
  obtain res rd' where script: "claimScript R [priorityQueueKey n' 1, priorityQueueKey n' 2,
      priorityQueueKey n' 3, inProgressKey n', claimCounterKey n'] ?dl 6 3 1 (rds w) = (res, rd')"
    by fastforce
  have w': "rds w' = rd'" and r: "r = (case res of None \<Rightarrow> Inl ErrQueueEmpty
      | Some s \<Rightarrow> if s = [] then Inl ErrQueueEmpty
          else (case uuid_Parse U s of None \<Rightarrow> Inl (ErrParse s) | Some u \<Rightarrow> Inr u))"
    using run script rel
    by (auto simp: RedisQueue_Claim_def RedisQueue_ClaimWithWeights_def Let_def queue_names
        claim_deadline_def run_rcmd_reliable n'_def split: if_splits option.splits)
  show ?thesis
  proof (cases "served R (rds w) n'")
    case None
    then show ?thesis using claimScript_run [OF script] by (simp add: w' r)
  next
    case (Some p)
    with claimScript_run [OF script] obtain m s where res: "res = Some m"
      and head: "heads R (zsets (rds w)) (priorityQueueKey n' p) m s"
      and rd': "counters rd' = (counters (rds w))
          (claimCounterKey n' := counters (rds w) (claimCounterKey n') + 1)"
        "zsets rd' = moved R (inProgressKey n') ?dl (priorityQueueKey n' p) m (zsets (rds w))"
      by auto
    obtain u where u: "m = uuid_String U u"
      using okw head unfolding canonical_world_def canonical_def heads_def by blast
    have "r = Inr u" by (simp add: r res u parse_String String_nonempty)
    with Some head rd' show ?thesis by (auto simp: w' u)
  qed
qed

lemma head_claimed:
  fixes w :: "'z world"
  assumes "reliable E" and "canonical_world R U w" and p: "p \<in> {1, 2, 3}"
    and "heads R (zsets (rds w)) (priorityQueueKey (queue_name n) p) (uuid_String U u) s"
    and "i < length cs"
    and "hd (search_order 1 2 3 6 3 1 (counters (rds w) (claimCounterKey (queue_name n)) + 1 + int i)) = p"
    and "run_ops (RedisQueue R U E) (map (\<lambda>(wid, vt). Op_Claim wid n vt) cs) w = (rs, w')"
  shows "u \<in> set (deliveries (queue_name n) (map (\<lambda>(wid, vt). Op_Claim wid n vt) cs) rs)"
  using assms(2,4-)
proof (induction cs arbitrary: w rs i)
  case (Cons c cs)
  let ?n = "queue_name n"
  obtain wid vt where c: "c = (wid, vt)" by fastforce
  obtain x w1 where x: "run_state (RedisQueue_Claim R U E wid n vt) w = (x, w1)" by fastforce
  then have op: "run_op (RedisQueue R U E) (Op_Claim wid n vt) w = (some_job x, w1)"
    by (simp add: RedisQueue_def)
  obtain rs1 where rs1: "run_ops (RedisQueue R U E) (map (\<lambda>(wid, vt). Op_Claim wid n vt) cs) w1 = (rs1, w')"
    and rs: "rs = some_job x # rs1"
    using Cons.prems(5) op by (auto simp: c split: prod.splits)
  note eff = Claim_run [OF assms(1) Cons.prems(1) x]
  have ne: "zscore R (zsets (rds w) (priorityQueueKey ?n p)) \<noteq> Map.empty"
    using Cons.prems(2) by (auto simp: heads_def)
  then obtain q where q: "served R (rds w) ?n = Some q"
    using p search_order_perm [of "1::int" 2 3]
    by (cases "served R (rds w) ?n") (auto simp: served_def find_None)
  with eff obtain v t where v: "x = Inr v"
    and hv: "heads R (zsets (rds w)) (priorityQueueKey ?n q) (uuid_String U v) t"
    and z: "zsets (rds w1) = moved R (inProgressKey ?n) (claim_deadline (clock E (tick w)) vt)
      (priorityQueueKey ?n q) (uuid_String U v) (zsets (rds w))"
    and cnt: "counters (rds w1) (claimCounterKey ?n) = counters (rds w) (claimCounterKey ?n) + 1"
    by auto
  show ?case
  proof (cases "q = p")
    case True
    with hv Cons.prems(2) have "v = u" using heads_unique String_inj by blast
    then show ?thesis by (simp add: rs c claims_of_def some_job_def v)
  next
    case False
    have "hd (search_order 1 2 3 6 3 1 (counters (rds w) (claimCounterKey ?n) + 1)) \<noteq> p"
      using q False ne by (auto simp: served_def search_order_def Let_def split: if_splits)
    then obtain j where j: "i = Suc j" using Cons.prems(4) by (cases i) auto
    have "heads R (zsets (rds w1)) (priorityQueueKey ?n p) (uuid_String U u) s"
      using Cons.prems(2) False p served_range [OF q]
      by (auto simp: z heads_def moved_def key_eq_iff key_neq)
    moreover have "canonical_world R U w1"
      using claim_run [OF Cons.prems(1) x] by blast
    ultimately have "u \<in> set (deliveries ?n (map (\<lambda>(wid, vt). Op_Claim wid n vt) cs) rs1)"
      using Cons.IH [of w1 j rs1] Cons.prems(3,4) rs1 by (simp add: j cnt algebra_simps)
    then show ?thesis by (simp add: rs c)
  qed
qed simp

end

lemma every_priority_leads:
  assumes "p \<in> {1, 2, 3}"
  obtains i where "i < 10" and "hd (search_order 1 2 3 6 3 1 (cnt + int i)) = (p :: int)"
proof -
  have "(if p = 1 then 0 else if p = 2 then 6 else 9) \<in> {0..<10::int}" by simp
  then have "(if p = 1 then 0 else if p = 2 then 6 else 9) \<in> (\<lambda>i. (cnt + int i) mod 10) ` {..<nat 10}"
    by (simp only: residues_window(2) [of 10 cnt])
  then obtain i :: nat where i: "i < 10"
    and res: "(cnt + int i) mod 10 = (if p = 1 then 0 else if p = 2 then 6 else 9)" by auto
  have "hd (search_order 1 2 3 6 3 1 (cnt + int i)) = p"
    using assms by (auto simp: search_order_hd res)
  with i show thesis by (rule that)
qed

text \<open>
  C7. A claim on a working queue serves the first non-empty priority of the counter's search
  order: it hands out the member with the least score (the longest waiting, ties by identifier)
  of that sorted set, moves it to the in-progress set with its visibility deadline, and reports
  an empty queue when all three priorities are empty; the counter advances in either case.
\<close>

theorem RedisQueue_Claim_order:
  assumes "redis_server R U" and "reliable E" and "canonical_world R U w"
    and "run_state (RedisQueue_Claim R U E wid n vt) w = (r, w')"
  shows "counters (rds w') = (counters (rds w))(claimCounterKey (queue_name n) :=
      counters (rds w) (claimCounterKey (queue_name n)) + 1) \<and>
    (case served R (rds w) (queue_name n) of
      None \<Rightarrow> r = Inl ErrQueueEmpty \<and> zsets (rds w') = zsets (rds w)
    | Some p \<Rightarrow> \<exists>u s. r = Inr u \<and>
        heads R (zsets (rds w)) (priorityQueueKey (queue_name n) p) (uuid_String U u) s \<and>
        zsets (rds w') = moved R (inProgressKey (queue_name n)) (claim_deadline (clock E (tick w)) vt)
          (priorityQueueKey (queue_name n) p) (uuid_String U u) (zsets (rds w)))"
  by (rule redis_queue.Claim_run
      [OF redis_queue_undisturbed [OF assms(1) undisturbed_reliable [OF assms(2)]] assms(2-4)])

definition demo_job :: "uuid \<Rightarrow> int \<Rightarrow> job" where
  "demo_job u p = \<lparr>j_ID = u, j_Type = ''email'', j_Payload = ''{}'', j_Status = JobStatusQueued,
     j_Priority = p, j_MaxAttempts = 3, j_Attempt = 0, j_IdempotencyKey = None, j_Error = None,
     j_WorkerID = None, j_Queue = ''default'', j_RunAt = 0, j_StartedAt = None,
     j_CompletedAt = None, j_CreatedAt = 0, j_UpdatedAt = 0\<rparr>"

text \<open>One job of low priority waiting in the default queue, one in progress.\<close>

definition demo_world :: "zlist world" where
  "demo_world = \<lparr>tick = 0, db = empty_db, rds = (empty_redis zlist_ops)\<lparr>zsets := (\<lambda>_. [])
     (priorityQueueKey ''default'' 3 := [(uuid_String hex_uuid_ops 7, 5)],
      inProgressKey ''default'' := [(uuid_String hex_uuid_ops 9, 4)])\<rparr>,
     observed = []\<rparr>"

lemma demo_canonical: "canonical_world zlist_ops hex_uuid_ops demo_world"
  by (auto simp: canonical_world_def canonical_def demo_world_def empty_redis_def zlist_ops_def)

lemma demo_scores:
  "zscore zlist_ops (zsets (rds demo_world) (priorityQueueKey ''default'' 1)) = Map.empty"
  "zscore zlist_ops (zsets (rds demo_world) (priorityQueueKey ''default'' 2)) = Map.empty"
  "zscore zlist_ops (zsets (rds demo_world) (priorityQueueKey ''default'' 3)) =
     [uuid_String hex_uuid_ops 7 \<mapsto> 5]"
  "zscore zlist_ops (zsets (rds demo_world) (inProgressKey ''default'')) =
     [uuid_String hex_uuid_ops 9 \<mapsto> 4]"
  by (simp_all add: demo_world_def empty_redis_def zlist_ops_def key_eq_iff key_neq)

lemma demo_served: "served zlist_ops (rds demo_world) ''default'' = Some 3"
proof -
  have "counters (rds demo_world) k = 0" for k by (simp add: demo_world_def empty_redis_def)
  then show ?thesis by (simp add: served_def search_order_def demo_scores)
qed

theorem RedisQueue_Claim_order_witness:
  "fst (run_state (RedisQueue_Claim zlist_ops hex_uuid_ops quiet_env ''w'' [] 0) demo_world) = Inr 7"
  using RedisQueue_Claim_order [OF zl_hex.redis_server_axioms reliable_quiet_env demo_canonical
      prod.collapse [symmetric], of "''w''" "[]" 0]
  by (auto simp: queue_name_def demo_served heads_def demo_scores hex.String_inj split: if_splits)

text \<open>
  C8. No starvation: on a working queue the member at the head of any priority is handed out
  within the next ten claims of that queue, whatever waits at the other priorities and whichever
  workers claim.
\<close>

theorem RedisQueue_no_starvation:
  assumes "redis_server R U" and "reliable E" and "canonical_world R U w" and "p \<in> {1, 2, 3}"
    and "heads R (zsets (rds w)) (priorityQueueKey (queue_name n) p) (uuid_String U u) s"
    and "length cs = 10"
    and "run_ops (RedisQueue R U E) (map (\<lambda>(wid, vt). Op_Claim wid n vt) cs) w = (rs, w')"
  shows "u \<in> set (deliveries (queue_name n) (map (\<lambda>(wid, vt). Op_Claim wid n vt) cs) rs)"
proof -
  obtain i where "i < 10" and "hd (search_order 1 2 3 6 3 1
      (counters (rds w) (claimCounterKey (queue_name n)) + 1 + int i)) = p"
    by (rule every_priority_leads [OF assms(4)])
  with redis_queue.head_claimed [OF redis_queue_undisturbed [OF assms(1) undisturbed_reliable
        [OF assms(2)]] assms(2-5), of i cs] assms(6,7)
  show ?thesis by auto
qed

theorem RedisQueue_no_starvation_witness:
  "7 \<in> set (deliveries ''default'' (map (\<lambda>(wid, vt). Op_Claim wid [] vt) (replicate 10 (''w'', 0)))
     (fst (run_ops (RedisQueue zlist_ops hex_uuid_ops quiet_env)
        (map (\<lambda>(wid, vt). Op_Claim wid [] vt) (replicate 10 (''w'', 0))) demo_world)))"
  using RedisQueue_no_starvation [OF zl_hex.redis_server_axioms reliable_quiet_env demo_canonical,
      of 3 "[]" 7 5 "replicate 10 (''w'', 0)", OF _ _ _ prod.collapse [symmetric]]
  by (simp add: queue_name_def heads_def demo_scores)

section \<open>Nothing is lost, nothing is handed out twice\<close>

text \<open>
  C9. The Redis queue refines the abstract queue: under any fault, any operation of any process
  has no effect and reports an error, or has exactly the effect of \<open>op_step\<close>, with its reply or
  with the reply lost.
\<close>

theorem RedisQueue_refines:
  assumes "redis_server R U" and "undisturbed E" and "canonical_world R U w"
    and "run_op (RedisQueue R U E) op w = (r, w')"
  shows "canonical_world R U w' \<and>
    op_step (clock E (tick w)) op (redis_view R U w) r (redis_view R U w')"
  by (rule shared_queue.run_op_step [OF shared_redis_queue [OF assms(1,2)] assms(3,4)])

theorem RedisQueue_refines_witness:
  "\<exists>r w'. op_step 0 (Op_Ack [] 9) (redis_view zlist_ops hex_uuid_ops demo_world) r
     (redis_view zlist_ops hex_uuid_ops w')"
  using RedisQueue_refines [OF zl_hex.redis_server_axioms undisturbed_reliable
      [OF reliable_quiet_env] demo_canonical prod.collapse [symmetric], of "Op_Ack [] 9"]
  by (auto simp: quiet_env_def demo_world_def)

text \<open>
  C10. A job that waits in a queue or is in progress there stays so through any sequence of
  operations of any processes, with any faults, until somebody acknowledges it: the queue loses
  no job.
\<close>

theorem RedisQueue_keeps_tracked:
  assumes "redis_server R U" and "undisturbed E" and "canonical_world R U w"
    and "run_ops (RedisQueue R U E) ops w = (rs, w')"
    and "u \<in> tracked (redis_view R U w) n" and "\<forall>op \<in> set ops. \<not> acks n u op"
  shows "u \<in> tracked (redis_view R U w') n"
  by (rule shared_queue.tracked_ops [OF shared_redis_queue [OF assms(1,2)] assms(3-6)])

definition demo_ops :: "queue_op list" where
  "demo_ops = [Op_Claim ''w'' [] 0, Op_Ack [] 7, Op_RequeueStale [] 1, Op_Claim ''v'' [] 0]"

theorem RedisQueue_keeps_tracked_witness:
  "9 \<in> tracked (redis_view zlist_ops hex_uuid_ops
     (snd (run_ops (RedisQueue zlist_ops hex_uuid_ops quiet_env) demo_ops demo_world))) ''default''"
  using RedisQueue_keeps_tracked [OF zl_hex.redis_server_axioms undisturbed_reliable
      [OF reliable_quiet_env] demo_canonical prod.collapse [symmetric], of 9 "''default''" demo_ops]
  by (simp add: tracked_def redis_view_def demo_scores dom_def acks_def demo_ops_def)

text \<open>
  C11. As long as nobody puts a job back (no enqueue into the queue, no stale requeue), the jobs
  that claims by any workers receive from it are distinct and were waiting in it at the start:
  no job is handed to two workers.
\<close>

theorem RedisQueue_claims_exclusive:
  assumes "redis_server R U" and "undisturbed E" and "canonical_world R U w"
    and "run_ops (RedisQueue R U E) ops w = (rs, w')"
    and "one_place n (redis_view R U w)" and "\<forall>op \<in> set ops. \<forall>u. \<not> puts_back n u op"
  shows "distinct (deliveries n ops rs) \<and> set (deliveries n ops rs) \<subseteq> queued (redis_view R U w) n"
  by (rule shared_queue.distinct_ops [OF shared_redis_queue [OF assms(1,2)] assms(3-6)])

theorem RedisQueue_claims_exclusive_witness:
  "set (deliveries ''default'' [Op_Claim ''w'' [] 0, Op_Claim ''v'' [] 0]
     (fst (run_ops (RedisQueue zlist_ops hex_uuid_ops quiet_env)
        [Op_Claim ''w'' [] 0, Op_Claim ''v'' [] 0] demo_world))) \<subseteq> {7}"
  using RedisQueue_claims_exclusive [OF zl_hex.redis_server_axioms undisturbed_reliable
      [OF reliable_quiet_env] demo_canonical prod.collapse [symmetric], of "''default''"
      "[Op_Claim ''w'' [] 0, Op_Claim ''v'' [] 0]"]
  by (auto simp: one_place_def redis_view_def demo_scores puts_back_def queued_def hex.String_inj
      split: if_splits)

text \<open>
  C12. On a working queue a stale requeue moves exactly the jobs whose visibility deadline has
  passed back to the given priority (the default one when it is out of range), counts them, and
  leaves every other waiting or in-progress job where it is.
\<close>

theorem RedisQueue_RequeueStale_expired:
  assumes "redis_server R U" and "reliable E" and "canonical_world R U w"
    and "run_state (RedisQueue_RequeueStale R U E n p) w = (r, w')"
  defines "now \<equiv> UnixMilli (clock E (tick w))"
  shows "r = Inr (int (card (expired (queue_name n) now (redis_view R U w)))) \<and>
    redis_view R U w' = v_requeue (queue_name n) (queue_priority p) now (redis_view R U w)"
proof -
  have q: "redis_queue R U E"
    by (rule redis_queue_undisturbed [OF assms(1) undisturbed_reliable [OF assms(2)]])
  have "redis_view R U (settle E w) = redis_view R U w"
    by (rule redis_view_cong) (simp add: settle_reliable assms(2))
  with redis_queue.requeue_run [OF q assms(3,4)] assms(2) show ?thesis
    by (simp add: delivers_def reliable_def now_def)
qed

theorem RedisQueue_RequeueStale_expired_witness:
  "fst (run_state (RedisQueue_RequeueStale zlist_ops hex_uuid_ops quiet_env [] 1)
     (demo_world\<lparr>tick := 4\<rparr>)) = Inr 1"
proof -
  have c: "canonical_world zlist_ops hex_uuid_ops (demo_world\<lparr>tick := 4\<rparr>)"
    using demo_canonical by (simp add: canonical_world_def)
  have "expired ''default'' 4 (redis_view zlist_ops hex_uuid_ops (demo_world\<lparr>tick := 4\<rparr>)) = {9}"
    by (auto simp: expired_def redis_view_def demo_scores hex.String_inj split: if_splits)
  with RedisQueue_RequeueStale_expired [OF zl_hex.redis_server_axioms reliable_quiet_env c
      prod.collapse [symmetric], of "[]" 1]
  show ?thesis by (simp add: queue_name_def quiet_env_def UnixMilli_def)
qed

end
