(* ===== verification/Scheduler.thy ===== *)
theory Scheduler
  imports Job_Store Queue_Interface
begin

text \<open>
  \<open>internal/engine/scheduler.go\<close>: the retry scheduler, over any queue. One tick of its ticker is
  one \<open>PollAndRequeue\<close>; \<open>RetryScheduler_Run E S k\<close> is the loop when \<open>k\<close> ticks arrive before the
  context is cancelled.
\<close>

record 'w retry_scheduler =
  rs_Q :: "'w queue_iface"
  rs_Interval :: duration
  rs_BatchSize :: int

definition NewRetryScheduler ::
  "'w queue_iface \<Rightarrow> duration \<Rightarrow> int \<Rightarrow> 'w retry_scheduler" where
  "NewRetryScheduler q interval batchSize =
     \<lparr>rs_Q = q,
      rs_Interval = (if interval \<le> 0 then 1 * second else interval),
      rs_BatchSize = (if batchSize \<le> 0 then 100 else batchSize)\<rparr>"

definition PollAndRequeue ::
  "'z env \<Rightarrow> 'z world retry_scheduler \<Rightarrow> ('z world, err + int) state" where
  "PollAndRequeue E S = do {
     r \<leftarrow> JobStore_RequeueDueRetries E (rs_BatchSize S);
     case r of
       Inl e \<Rightarrow> State_Monad.return (Inl e)
     | Inr jobs \<Rightarrow>
         if jobs = [] then State_Monad.return (Inr 0)
         else do {
           enqueued \<leftarrow> for_each jobs 0 (\<lambda>job enqueued. do {
             e \<leftarrow> q_Enqueue (rs_Q S) (Some job);
             State_Monad.return (case e of Inl _ \<Rightarrow> enqueued | Inr _ \<Rightarrow> enqueued + 1)
           });
           State_Monad.return (Inr enqueued)
         }
   }"

definition RetryScheduler_Run ::
  "'z env \<Rightarrow> 'z world retry_scheduler \<Rightarrow> nat \<Rightarrow> ('z world, unit) state" where
  "RetryScheduler_Run E S ticks =
     for_each [0..<ticks] () (\<lambda>_ _. do {
       _ \<leftarrow> PollAndRequeue E S;
       State_Monad.return ()
     })"

end
