(* ===== verification/Supervisor.thy ===== *)
theory Supervisor
  imports Worker_Store Queue_Interface
begin

text \<open>
  \<open>internal/engine/supervisor.go\<close>: the supervisor that reaps dead workers. A nil store or queue is
  \<open>False\<close> and \<open>None\<close>.
\<close>

record 'w worker_supervisor =
  ws_Workers :: bool
  ws_Q :: "'w queue_iface option"
  ws_CheckPeriod :: duration
  ws_DeadTimeout :: duration

definition NewWorkerSupervisor ::
  "bool \<Rightarrow> 'w queue_iface option \<Rightarrow> duration \<Rightarrow> duration \<Rightarrow> 'w worker_supervisor" where
  "NewWorkerSupervisor workers q checkPeriod deadTimeout =
     \<lparr>ws_Workers = workers, ws_Q = q,
      ws_CheckPeriod = (if checkPeriod \<le> 0 then 10 * second else checkPeriod),
      ws_DeadTimeout = (if deadTimeout \<le> 0 then 30 * second else deadTimeout)\<rparr>"

text \<open>The body of the loop over the dead workers.\<close>

definition reap_worker ::
  "'z env \<Rightarrow> 'z world worker_supervisor \<Rightarrow> worker \<Rightarrow> ('z world, unit) state" where
  "reap_worker E S k = do {
     _ \<leftarrow> WorkerStore_SetStatus E (w_ID k) WorkerStatusOffline;
     _ \<leftarrow> (case ws_Q S of
            None \<Rightarrow> State_Monad.return (Inr ())
          | Some q \<Rightarrow> q_RemoveWorker q (w_ID k));
     recovered \<leftarrow> WorkerStore_RecoverDeadWorkerJobs E (w_ID k);
     case recovered of
       Inl e \<Rightarrow> State_Monad.return ()
     | Inr jobs \<Rightarrow>
         (case ws_Q S of
            None \<Rightarrow> State_Monad.return ()
          | Some q \<Rightarrow> for_each jobs () (\<lambda>job _. do {
              _ \<leftarrow> q_Enqueue q (Some job);
              State_Monad.return ()
            }))
   }"

definition ReapDeadWorkers ::
  "'z env \<Rightarrow> 'z world worker_supervisor \<Rightarrow> ('z world, err + unit) state" where
  "ReapDeadWorkers E S =
     (if \<not> ws_Workers S then State_Monad.return (Inr ())
      else do {
        dead \<leftarrow> WorkerStore_FindDeadWorkers E (ws_DeadTimeout S);
        case dead of
          Inl e \<Rightarrow> State_Monad.return (Inl e)
        | Inr ks \<Rightarrow> do {
            _ \<leftarrow> for_each ks () (\<lambda>k _. reap_worker E S k);
            State_Monad.return (Inr ())
          }
      })"

definition WorkerSupervisor_Run ::
  "'z env \<Rightarrow> 'z world worker_supervisor \<Rightarrow> nat \<Rightarrow> ('z world, unit) state" where
  "WorkerSupervisor_Run E S ticks =
     for_each [0..<ticks] () (\<lambda>_ _. do {
       _ \<leftarrow> ReapDeadWorkers E S;
       State_Monad.return ()
     })"

end
