(* ===== verification/Backoff.thy ===== *)
theory Backoff
  imports Domain_Types "HOL-Library.Log_Nat"
begin

text \<open>
  \<open>internal/engine/backoff.go\<close>: exponential backoff with full jitter. Its \<open>float64\<close> arithmetic is
  modelled exactly, on the rationals: every operation is followed by \<open>float64\<close>, the rounding to
  53 significant bits, ties to even (no delay reaches the exponents where a \<open>float64\<close> overflows
  or loses precision). The lemmas give the rounding's monotonicity and fixed points.
\<close>

section \<open>Rounding to \<open>float64\<close>\<close>

definition floor_log2 :: "rat \<Rightarrow> int" where
  "floor_log2 x =
     (case quotient_of x of (p, q) \<Rightarrow>
        let k = int (floorlog 2 (nat p)) - int (floorlog 2 (nat q))
        in if 2 powi k \<le> x then k else k - 1)"

definition round_even :: "rat \<Rightarrow> int" where
  "round_even x =
     (let f = floor x; d = x - of_int f
      in if d < 1 / 2 then f else if d > 1 / 2 then f + 1 else if even f then f else f + 1)"

definition float64 :: "rat \<Rightarrow> rat" where
  "float64 x =
     (if x \<le> 0 then 0
      else let u = 2 powi (floor_log2 x - 52) in of_int (round_even (x / u)) * u)"

lemma quot_less:
  assumes "p < (2::rat) powi a" and "2 powi (b - 1) \<le> q" and "0 < q"
  shows "p / q < 2 powi (a - b + 1)"
proof -
  have "(2::rat) powi a = 2 powi (a - b + 1) * 2 powi (b - 1)"
    by (subst power_int_add [symmetric]) simp_all
  also have "\<dots> \<le> 2 powi (a - b + 1) * q" by (rule mult_left_mono) (use assms in simp_all)
  finally show ?thesis using assms by (simp add: pos_divide_less_eq)
qed

lemma quot_ge:
  assumes "(2::rat) powi (a - 1) \<le> p" and "q < 2 powi b" and "0 < q"
  shows "2 powi (a - b - 1) \<le> p / q"
proof -
  have "(2::rat) powi (a - b - 1) * q \<le> 2 powi (a - b - 1) * 2 powi b"
    by (rule mult_left_mono) (use assms in simp_all)
  also have "\<dots> = 2 powi (a - 1)"
    by (subst power_int_add [symmetric]) simp_all
  finally show ?thesis using assms by (simp add: pos_le_divide_eq)
qed

lemma floor_log2:
  assumes "0 < x"
  shows "2 powi (floor_log2 x) \<le> x" and "x < 2 powi (floor_log2 x + 1)"
proof -
  obtain p q where pq: "quotient_of x = (p, q)" by fastforce
  have q: "0 < q" using quotient_of_denom_pos [OF pq] .
  have x: "x = of_int p / of_int q" using quotient_of_div [OF pq] .
  have p: "0 < p" using assms q by (simp add: x zero_less_divide_iff)
  let ?a = "floorlog 2 (nat p)" and ?b = "floorlog 2 (nat q)"
  have "2 ^ (?a - 1) \<le> nat p" "nat p < 2 ^ ?a" "2 ^ (?b - 1) \<le> nat q" "nat q < 2 ^ ?b"
    using floorlog_bounds [of "nat p" 2] floorlog_bounds [of "nat q" 2] p q by auto
  then have "2 ^ (?a - 1) \<le> p" "p < 2 ^ ?a" "2 ^ (?b - 1) \<le> q" "q < 2 ^ ?b"
    using p q by (simp_all add: nat_less_iff le_nat_iff)
  then have b: "(2::rat) ^ (?a - 1) \<le> of_int p" "of_int p < (2::rat) ^ ?a"
      "(2::rat) ^ (?b - 1) \<le> of_int q" "of_int q < (2::rat) ^ ?b"
    by (metis of_int_le_iff of_int_less_iff of_int_numeral of_int_power)+
  have pos: "1 \<le> ?a" "1 \<le> ?b" using p q floorlog_eq_zero_iff [of 2 "nat p"] floorlog_eq_zero_iff [of 2 "nat q"] by auto
  have pa: "(2::rat) ^ ?a = 2 powi (int ?a)" "(2::rat) ^ ?b = 2 powi (int ?b)"
    "(2::rat) ^ (?a - 1) = 2 powi (int ?a - 1)" "(2::rat) ^ (?b - 1) = 2 powi (int ?b - 1)"
    using pos by (simp_all add: power_int_def nat_diff_distrib)
  let ?k = "int ?a - int ?b"
  note b' = b [unfolded pa]
  have q': "0 < (of_int q :: rat)" using q by simp
  have up: "x < 2 powi (?k + 1)" unfolding x by (rule quot_less [OF b'(2,3) q'])
  have lo: "2 powi (?k - 1) \<le> x" unfolding x by (rule quot_ge [OF b'(1,4) q'])
  have fl: "floor_log2 x = (if 2 powi ?k \<le> x then ?k else ?k - 1)"
    by (simp add: floor_log2_def pq Let_def)
  show "2 powi (floor_log2 x) \<le> x" and "x < 2 powi (floor_log2 x + 1)"
    using up lo by (auto simp: fl)
qed

lemma floor_log2_mono: "0 < x \<Longrightarrow> x \<le> y \<Longrightarrow> floor_log2 x \<le> floor_log2 y"
proof (rule ccontr)
  assume "0 < x" "x \<le> y" "\<not> floor_log2 x \<le> floor_log2 y"
  then have "(2::rat) powi (floor_log2 y + 1) \<le> 2 powi (floor_log2 x)"
    by (intro power_int_increasing) auto
  with floor_log2(1) [of x] floor_log2(2) [of y] \<open>0 < x\<close> \<open>x \<le> y\<close> show False by simp
qed

lemma powi_less_exp: "(2::rat) powi a < 2 powi b \<Longrightarrow> a < b"
  using power_int_increasing [of b a "2::rat"] by (cases "b \<le> a") auto

lemma floor_log2_eqI: "2 powi e \<le> x \<Longrightarrow> x < 2 powi (e + 1) \<Longrightarrow> floor_log2 x = e"
proof -
  assume b: "2 powi e \<le> x" "x < 2 powi (e + 1)"
  have "0 < x" using b(1) zero_less_power_int [of "2::rat" e] by linarith
  note f = floor_log2 [OF this]
  have "(2::rat) powi e < 2 powi (floor_log2 x + 1)" using b f by linarith
  then have "e < floor_log2 x + 1" by (rule powi_less_exp)
  moreover have "(2::rat) powi (floor_log2 x) < 2 powi (e + 1)" using b f by linarith
  then have "floor_log2 x < e + 1" by (rule powi_less_exp)
  ultimately show ?thesis by simp
qed

lemma round_even_of_int [simp]: "round_even (of_int n) = n"
  by (simp add: round_even_def)

lemma round_even_bounds: "\<lfloor>x\<rfloor> \<le> round_even x" "round_even x \<le> \<lfloor>x\<rfloor> + 1"
  by (simp_all add: round_even_def Let_def)

lemma round_even_mono: "x \<le> y \<Longrightarrow> round_even x \<le> round_even y"
proof -
  assume le: "x \<le> y"
  show ?thesis
  proof (cases "\<lfloor>x\<rfloor> = \<lfloor>y\<rfloor>")
    case True
    then show ?thesis using le by (auto simp: round_even_def Let_def)
  next
    case False
    then have "\<lfloor>x\<rfloor> + 1 \<le> \<lfloor>y\<rfloor>" using floor_mono [OF le] by simp
    then show ?thesis using round_even_bounds [of x] round_even_bounds [of y] by linarith
  qed
qed

lemma float64_exact:
  assumes "0 < x" and "x = of_int m * 2 powi (floor_log2 x - 52)"
  shows "float64 x = x"
proof -
  have "x / 2 powi (floor_log2 x - 52) = of_int m"
    using assms(2) by (simp add: nonzero_divide_eq_eq)
  then show ?thesis using assms by (simp add: float64_def Let_def)
qed

lemma float64_bounds:
  assumes "0 < x"
  shows "2 powi (floor_log2 x) \<le> float64 x" and "float64 x \<le> 2 powi (floor_log2 x + 1)"
proof -
  let ?u = "(2::rat) powi (floor_log2 x - 52)"
  have lo: "2 powi (floor_log2 x) = of_int (2 ^ 52) * ?u"
    and hi: "2 powi (floor_log2 x + 1) = of_int (2 ^ 53) * ?u"
    using power_int_add [of "2::rat" 52 "floor_log2 x - 52"]
      power_int_add [of "2::rat" 53 "floor_log2 x - 52"] by (simp_all add: add.commute)
  have "of_int (2 ^ 52) \<le> x / ?u" "x / ?u \<le> of_int (2 ^ 53)"
    using floor_log2 [OF assms] unfolding lo hi by (simp_all add: le_divide_eq divide_le_eq)
  then have "round_even (of_int (2 ^ 52)) \<le> round_even (x / ?u)"
    "round_even (x / ?u) \<le> round_even (of_int (2 ^ 53))"
    by (blast intro: round_even_mono)+
  then have "of_int (2 ^ 52) \<le> (of_int (round_even (x / ?u)) :: rat)"
    "(of_int (round_even (x / ?u)) :: rat) \<le> of_int (2 ^ 53)"
    by (simp_all only: round_even_of_int of_int_le_iff)
  then show "2 powi (floor_log2 x) \<le> float64 x" "float64 x \<le> 2 powi (floor_log2 x + 1)"
    using assms unfolding lo hi by (simp_all add: float64_def Let_def mult_right_mono)
qed

lemma float64_nonneg: "0 \<le> float64 x"
  using float64_bounds(1) [of x] zero_less_power_int [of "2::rat" "floor_log2 x"]
  by (cases "x \<le> 0") (simp add: float64_def, linarith)

lemma float64_mono: "x \<le> y \<Longrightarrow> float64 x \<le> float64 y"
proof -
  assume le: "x \<le> y"
  consider "x \<le> 0" | "0 < x" "floor_log2 x = floor_log2 y" | "0 < x" "floor_log2 x + 1 \<le> floor_log2 y"
    using floor_log2_mono [of x y] le by fastforce
  then show ?thesis
  proof cases
    case 1
    then show ?thesis using float64_nonneg by (simp add: float64_def)
  next
    case 2
    let ?u = "(2::rat) powi (floor_log2 x - 52)"
    have "round_even (x / ?u) \<le> round_even (y / ?u)"
      by (rule round_even_mono) (use le in \<open>simp add: divide_right_mono\<close>)
    then show ?thesis using 2 le by (simp add: float64_def Let_def mult_right_mono)
  next
    case 3
    have "float64 x \<le> 2 powi (floor_log2 x + 1)" using float64_bounds(2) 3(1) .
    also have "\<dots> \<le> 2 powi (floor_log2 y)" using 3(2) by (intro power_int_increasing) auto
    also have "\<dots> \<le> float64 y" using float64_bounds(1) [of y] 3(1) le by simp
    finally show ?thesis .
  qed
qed

lemma float64_of_int: "0 \<le> n \<Longrightarrow> n \<le> 2 ^ 53 \<Longrightarrow> float64 (of_int n) = of_int n"
proof (cases "n = 0")
  case False
  assume n: "0 \<le> n" "n \<le> 2 ^ 53"
  let ?x = "of_int n :: rat" and ?e = "floor_log2 (of_int n)"
  have pos: "0 < ?x" using n False by simp
  note f = floor_log2 [OF pos]
  show ?thesis
  proof (cases "?e \<le> 52")
    case True
    have "(2::rat) powi (52 - ?e) = of_int (2 ^ nat (52 - ?e))" using True by (simp add: power_int_def)
    then have "?x = of_int (n * 2 ^ nat (52 - ?e)) * 2 powi (?e - 52)"
      using power_int_add [of "2::rat" "52 - ?e" "?e - 52"] by (simp add: mult.assoc)
    then show ?thesis by (rule float64_exact [OF pos])
  next
    case False
    have "(2::rat) powi ?e \<le> of_int (2 ^ 53)"
      using f(1) n(2) by (meson of_int_le_iff order_trans)
    then have "(2::rat) powi ?e < 2 powi 54" by simp
    with False have e: "?e = 53" using powi_less_exp by fastforce
    then have "of_int (2 ^ 53) \<le> ?x" using f(1) by simp
    then have "n = 2 ^ 53" using n(2) by (simp only: of_int_le_iff)
    then have "?x = of_int (2 ^ 52) * 2" by simp
    also have "\<dots> = of_int (2 ^ 52) * 2 powi (?e - 52)" unfolding e by simp
    finally show ?thesis by (rule float64_exact [OF pos])
  qed
qed (simp add: float64_def)

section \<open>The backoff\<close>

definition DefaultBaseDelay :: duration where "DefaultBaseDelay = 1 * second"
definition DefaultMaxDelay :: duration where "DefaultMaxDelay = 1 * hour"

text \<open>\<open>2^(attempt-1)\<close> with the exponent capped, in \<open>int64\<close>.\<close>

definition backoff_multiplier :: "int \<Rightarrow> int" where
  "backoff_multiplier attempt =
     (if attempt > 1
      then (let shift = (if attempt - 1 > 30 then 30 else attempt - 1) in 2 ^ nat shift)
      else 1)"

text \<open>\<open>draw\<close> is the value of \<open>rand.Float64()\<close>; the last conversion truncates.\<close>

definition CalculateBackoff :: "rat \<Rightarrow> int \<Rightarrow> duration \<Rightarrow> duration \<Rightarrow> duration" where
  "CalculateBackoff draw attempt0 baseDelay0 maxDelay0 =
     (let baseDelay = (if baseDelay0 \<le> 0 then DefaultBaseDelay else baseDelay0);
          maxDelay = (if maxDelay0 \<le> 0 then DefaultMaxDelay else maxDelay0);
          attempt = (if attempt0 \<le> 0 then 1 else attempt0);
          multiplier = backoff_multiplier attempt;
          temp0 = float64 (float64 (of_int baseDelay) * float64 (of_int multiplier));
          temp = (if temp0 > float64 (of_int maxDelay) then float64 (of_int maxDelay) else temp0)
      in if temp \<le> 0 then 0 else \<lfloor>float64 (draw * temp)\<rfloor>)"

text \<open>The exact ceiling: \<open>min(maxDelay, baseDelay * 2^(attempt-1))\<close>, the exponent capped at 30.\<close>

definition backoff_ceiling :: "int \<Rightarrow> duration \<Rightarrow> duration \<Rightarrow> duration" where
  "backoff_ceiling attempt baseDelay maxDelay =
     min maxDelay (baseDelay * 2 ^ nat (min 30 (max attempt 1 - 1)))"

lemma float64_min:
  assumes "0 \<le> a" and "0 \<le> b" and "b \<le> 2 ^ 53"
  shows "(if float64 (of_int a) > of_int b then of_int b else float64 (of_int a)) = (of_int (min b a) :: rat)"
proof (cases "a \<le> 2 ^ 53")
  case True
  then show ?thesis using assms by (simp add: float64_of_int)
next
  case False
  then have "(of_int (2 ^ 53) :: rat) \<le> of_int a" by (simp only: of_int_le_iff)
  then have "float64 (of_int (2 ^ 53)) \<le> float64 (of_int a)" by (rule float64_mono)
  then have big: "(of_int (2 ^ 53) :: rat) \<le> float64 (of_int a)" by (subst (asm) float64_of_int) simp_all
  moreover have "(of_int b :: rat) \<le> of_int (2 ^ 53)" using assms(3) by (simp only: of_int_le_iff)
  moreover have "min b a = b" using False assms(3) by simp
  ultimately show ?thesis by auto
qed

lemma CalculateBackoff_eq:
  assumes "0 < baseDelay" and "baseDelay \<le> 2 ^ 53" and "0 < maxDelay" and "maxDelay \<le> 2 ^ 53"
  shows "CalculateBackoff draw attempt baseDelay maxDelay =
    \<lfloor>float64 (draw * of_int (backoff_ceiling attempt baseDelay maxDelay))\<rfloor>"
proof -
  define k where "k = nat (min 30 (max attempt 1 - 1))"
  have mult: "backoff_multiplier (if attempt \<le> 0 then 1 else attempt) = 2 ^ k"
    by (auto simp: k_def min_def max_def backoff_multiplier_def)
  have "k \<le> 30" by (simp add: k_def)
  then have "(2::int) ^ k \<le> 2 ^ 30" by (intro power_increasing) auto
  then have fk: "float64 (of_int (2 ^ k)) = of_int (2 ^ k)" by (intro float64_of_int) auto
  have fb: "float64 (of_int baseDelay) = of_int baseDelay" and fm: "float64 (of_int maxDelay) = of_int maxDelay"
    using assms by (simp_all add: float64_of_int)
  have "(if float64 (of_int (baseDelay * 2 ^ k)) > of_int maxDelay then of_int maxDelay
      else float64 (of_int (baseDelay * 2 ^ k))) = (of_int (min maxDelay (baseDelay * 2 ^ k)) :: rat)"
    using assms by (intro float64_min) auto
  then have temp: "(if float64 (of_int baseDelay * of_int (2 ^ k)) > of_int maxDelay then of_int maxDelay
      else float64 (of_int baseDelay * of_int (2 ^ k))) = (of_int (min maxDelay (baseDelay * 2 ^ k)) :: rat)"
    by (simp only: of_int_mult)
  have pos: "\<not> (of_int (min maxDelay (baseDelay * 2 ^ k)) :: rat) \<le> 0"
    using assms by (auto simp: min_def not_le)
  have "\<not> baseDelay \<le> 0" "\<not> maxDelay \<le> 0" using assms by simp_all
  then show ?thesis
    unfolding CalculateBackoff_def Let_def mult
    by (simp only: if_False fk fb fm temp pos backoff_ceiling_def k_def [symmetric])
qed

text \<open>
  C13. The delay before a retry is never negative and never above the ceiling
  \<open>min(maxDelay, baseDelay * 2^(attempt-1))\<close>, exponent capped at 30, whatever \<open>rand.Float64()\<close>
  draws from [0, 1) and whatever the roundings of the floating-point product, for delays up to
  2^53 nanoseconds (104 days).
\<close>

theorem CalculateBackoff_bounds:
  assumes "0 \<le> draw" and "draw < 1" and "0 < baseDelay" and "baseDelay \<le> 2 ^ 53"
    and "0 < maxDelay" and "maxDelay \<le> 2 ^ 53"
  shows "0 \<le> CalculateBackoff draw attempt baseDelay maxDelay \<and>
    CalculateBackoff draw attempt baseDelay maxDelay \<le> backoff_ceiling attempt baseDelay maxDelay"
proof -
  let ?c = "backoff_ceiling attempt baseDelay maxDelay"
  have c: "0 < ?c" "?c \<le> 2 ^ 53" using assms by (auto simp: backoff_ceiling_def)
  have "draw * of_int ?c \<le> of_int ?c" using assms(2) c(1) by (simp add: mult_left_le_one_le assms(1))
  then have "float64 (draw * of_int ?c) \<le> of_int ?c"
    using float64_mono [of _ "of_int ?c"] float64_of_int [of ?c] c by fastforce
  then show ?thesis
    unfolding CalculateBackoff_eq [OF assms(3-6)] using float64_nonneg by (simp add: floor_le_iff)
qed

theorem CalculateBackoff_bounds_witness:
  "CalculateBackoff (1 / 2) 3 DefaultBaseDelay DefaultMaxDelay \<le> 4 * second"
  using CalculateBackoff_bounds [of "1 / 2" DefaultBaseDelay DefaultMaxDelay 3]
  by (simp add: backoff_ceiling_def DefaultBaseDelay_def DefaultMaxDelay_def duration_defs)

text \<open>
  C14. The backoff grows: a later attempt or a larger draw never shortens the delay.
\<close>

theorem CalculateBackoff_mono:
  assumes "0 \<le> draw" and "draw \<le> draw'" and "attempt \<le> attempt'"
    and "0 < baseDelay" and "baseDelay \<le> 2 ^ 53" and "0 < maxDelay" and "maxDelay \<le> 2 ^ 53"
  shows "CalculateBackoff draw attempt baseDelay maxDelay \<le>
    CalculateBackoff draw' attempt' baseDelay maxDelay"
proof -
  let ?e = "\<lambda>a. nat (min 30 (max a 1 - 1))"
  have "(2::int) ^ ?e attempt \<le> 2 ^ ?e attempt'" using assms(3) by (intro power_increasing) auto
  then have le: "backoff_ceiling attempt baseDelay maxDelay \<le> backoff_ceiling attempt' baseDelay maxDelay"
    using assms(4) unfolding backoff_ceiling_def by (intro min.mono mult_left_mono) auto
  have "0 \<le> backoff_ceiling attempt baseDelay maxDelay" using assms by (simp add: backoff_ceiling_def)
  with le have "draw * of_int (backoff_ceiling attempt baseDelay maxDelay) \<le>
      draw' * of_int (backoff_ceiling attempt' baseDelay maxDelay)"
    using assms(1,2) by (intro mult_mono) auto
  then show ?thesis
    unfolding CalculateBackoff_eq [OF assms(4-7)] by (intro floor_mono float64_mono)
qed

theorem CalculateBackoff_mono_witness:
  "CalculateBackoff (1 / 4) 1 DefaultBaseDelay DefaultMaxDelay \<le>
   CalculateBackoff (1 / 2) 20 DefaultBaseDelay DefaultMaxDelay"
  by (rule CalculateBackoff_mono) (simp_all add: DefaultBaseDelay_def DefaultMaxDelay_def duration_defs)

end
