(* ===== verification/Worker.thy ===== *)
theory Worker
  imports Worker_Store Queue_Interface Backoff
begin

text \<open>
  \<open>internal/engine/worker.go\<close>: the worker process. \<open>processJob\<close> is one attempt of one job, as one
  goroutine runs it: what its sibling goroutines and the other processes do meanwhile is the
  environment's. A handler is a function of the payload and of the moment it runs, whose result is
  the text of its error, if any. The loop that claims jobs and starts goroutines is the step
  relation \<open>loop_step\<close> over the semaphore and the attempts in flight.
\<close>

type_synonym handler_func = "string \<Rightarrow> nat \<Rightarrow> string option"

record 'w worker_proc =
  wk_ID :: string
  wk_QueueName :: string
  wk_Workers :: bool
  wk_Q :: "'w queue_iface"
  wk_Handlers :: "string \<Rightarrow> handler_func option"
  wk_PollInterval :: duration
  wk_JobTimeout :: duration
  wk_VisibilityTimeout :: duration
  wk_HeartbeatInterval :: duration
  wk_Concurrency :: int

definition NewWorker ::
  "string \<Rightarrow> bool \<Rightarrow> 'w queue_iface \<Rightarrow> duration \<Rightarrow> duration \<Rightarrow> duration \<Rightarrow> duration \<Rightarrow> int \<Rightarrow>
   'w worker_proc" where
  "NewWorker workerID workers q pollInterval jobTimeout visibilityTimeout heartbeatInterval concurrency =
     \<lparr>wk_ID = workerID, wk_QueueName = DefaultQueue, wk_Workers = workers, wk_Q = q,
      wk_Handlers = Map.empty, wk_PollInterval = pollInterval, wk_JobTimeout = jobTimeout,
      wk_VisibilityTimeout = (if visibilityTimeout \<le> 0 then 30 * second else visibilityTimeout),
      wk_HeartbeatInterval = (if heartbeatInterval \<le> 0 then 10 * second else heartbeatInterval),
      wk_Concurrency = (if concurrency \<le> 0 then 5 else concurrency)\<rparr>"

definition SetQueueName :: "'w worker_proc \<Rightarrow> string \<Rightarrow> 'w worker_proc" where
  "SetQueueName W name = W\<lparr>wk_QueueName := name\<rparr>"

definition RegisterHandler :: "'w worker_proc \<Rightarrow> string \<Rightarrow> handler_func \<Rightarrow> 'w worker_proc" where
  "RegisterHandler W jobType fn = W\<lparr>wk_Handlers := (wk_Handlers W)(jobType \<mapsto> fn)\<rparr>"

section \<open>One attempt\<close>

definition exec_handler :: "handler_func \<Rightarrow> string \<Rightarrow> ('z world, string option) state" where
  "exec_handler handler payload =
     State (\<lambda>w. (handler payload (tick w), w\<lparr>tick := Suc (tick w)\<rparr>))"

text \<open>\<open>if w.workers != nil { .. }\<close>, the error dropped.\<close>

definition when_workers ::
  "'w worker_proc \<Rightarrow> ('s, err + unit) state \<Rightarrow> ('s, unit) state" where
  "when_workers W m =
     (if wk_Workers W then do { _ \<leftarrow> m; State_Monad.return () } else State_Monad.return ())"

text \<open>What follows the handler: the failure is recorded, or the success.\<close>

definition resolve_failure ::
  "'z env \<Rightarrow> 'z world worker_proc \<Rightarrow> job \<Rightarrow> string \<Rightarrow> duration \<Rightarrow> ('z world, unit) state" where
  "resolve_failure E W job execErr elapsed = do {
     _ \<leftarrow> when_workers W (WorkerStore_IncrementFailed E (wk_ID W));
     draw \<leftarrow> rand_Float64 E;
     let delay = CalculateBackoff draw (j_Attempt job) DefaultBaseDelay DefaultMaxDelay;
     now \<leftarrow> time_Now E;
     newStatus \<leftarrow> JobStore_RecordFailure E (j_ID job) execErr (now + delay);
     emit (RecordJobFinished (j_Type job)
       (job_status_text (case newStatus of Inl e \<Rightarrow> JobStatusFailed | Inr st \<Rightarrow> st)) elapsed)
   }"

definition resolve_success ::
  "'z env \<Rightarrow> 'z world worker_proc \<Rightarrow> job \<Rightarrow> duration \<Rightarrow> ('z world, unit) state" where
  "resolve_success E W job elapsed = do {
     _ \<leftarrow> JobStore_MarkSucceeded E (j_ID job);
     _ \<leftarrow> emit (RecordJobFinished (j_Type job) (job_status_text JobStatusSucceeded) elapsed);
     when_workers W (WorkerStore_IncrementCompleted E (wk_ID W))
   }"

definition run_attempt ::
  "'z env \<Rightarrow> 'z world worker_proc \<Rightarrow> job \<Rightarrow> handler_func \<Rightarrow> ('z world, unit) state" where
  "run_attempt E W job handler = do {
     startTime \<leftarrow> time_Now E;
     execErr \<leftarrow> exec_handler handler (j_Payload job);
     endTime \<leftarrow> time_Now E;
     _ \<leftarrow> (case execErr of
            Some msg \<Rightarrow> resolve_failure E W job msg (endTime - startTime)
          | None \<Rightarrow> resolve_success E W job (endTime - startTime));
     _ \<leftarrow> q_Ack (wk_Q W) (wk_QueueName W) (j_ID job);
     State_Monad.return ()
   }"

definition processJob ::
  "'z env \<Rightarrow> 'z world worker_proc \<Rightarrow> uuid \<Rightarrow> ('z world, unit) state" where
  "processJob E W jobID = do {
     r \<leftarrow> JobStore_ClaimJob E jobID (wk_ID W);
     case r of
       Inl e \<Rightarrow> State_Monad.return ()
     | Inr None \<Rightarrow> do {
         _ \<leftarrow> q_Ack (wk_Q W) (wk_QueueName W) jobID;
         State_Monad.return ()
       }
     | Inr (Some job) \<Rightarrow>
         (case wk_Handlers W (j_Type job) of
            None \<Rightarrow> do {
              _ \<leftarrow> JobStore_MarkFailed E (j_ID job)
                     (''no handler registered for job type '' @ strconv_Quote (j_Type job));
              _ \<leftarrow> when_workers W (WorkerStore_IncrementFailed E (wk_ID W));
              _ \<leftarrow> q_Ack (wk_Q W) (wk_QueueName W) (j_ID job);
              State_Monad.return ()
            }
          | Some handler \<Rightarrow> run_attempt E W job handler)
   }"

section \<open>The loops around it\<close>

text \<open>One pass of the claiming loop with its goroutine run to its end: the case of one slot.\<close>

definition claim_and_process ::
  "'z env \<Rightarrow> 'z world worker_proc \<Rightarrow> ('z world, bool) state" where
  "claim_and_process E W = do {
     r \<leftarrow> q_Claim (wk_Q W) (wk_ID W) (wk_QueueName W) (wk_VisibilityTimeout W);
     case r of
       Inl e \<Rightarrow> State_Monad.return False
     | Inr jobID \<Rightarrow> do {
         _ \<leftarrow> processJob E W jobID;
         State_Monad.return True
       }
   }"

definition worker_start :: "'z env \<Rightarrow> 'z world worker_proc \<Rightarrow> ('z world, unit) state" where
  "worker_start E W = when_workers W (WorkerStore_Register E (wk_ID W))"

text \<open>The deferred function of \<open>Run\<close>: before and after the wait for the attempts in flight.\<close>

definition worker_drain :: "'z env \<Rightarrow> 'z world worker_proc \<Rightarrow> ('z world, unit) state" where
  "worker_drain E W = when_workers W (WorkerStore_SetStatus E (wk_ID W) WorkerStatusDraining)"

definition worker_stop :: "'z env \<Rightarrow> 'z world worker_proc \<Rightarrow> ('z world, unit) state" where
  "worker_stop E W = do {
     _ \<leftarrow> when_workers W (WorkerStore_SetStatus E (wk_ID W) WorkerStatusOffline);
     _ \<leftarrow> q_RemoveWorker (wk_Q W) (wk_ID W);
     State_Monad.return ()
   }"

text \<open>The initial heartbeat and each tick's are the same two calls.\<close>

definition heartbeat_tick :: "'z env \<Rightarrow> 'z world worker_proc \<Rightarrow> ('z world, unit) state" where
  "heartbeat_tick E W = do {
     _ \<leftarrow> q_Heartbeat (wk_Q W) (wk_ID W) (wk_HeartbeatInterval W * 3);
     when_workers W (WorkerStore_Heartbeat E (wk_ID W))
   }"

definition heartbeatLoop :: "'z env \<Rightarrow> 'z world worker_proc \<Rightarrow> nat \<Rightarrow> ('z world, unit) state" where
  "heartbeatLoop E W ticks = for_each [0..<Suc ticks] () (\<lambda>_ _. heartbeat_tick E W)"

definition staleRecoveryLoop ::
  "'z env \<Rightarrow> 'z world worker_proc \<Rightarrow> nat \<Rightarrow> ('z world, unit) state" where
  "staleRecoveryLoop E W ticks =
     for_each [0..<ticks] () (\<lambda>_ _. do {
       _ \<leftarrow> q_RequeueStale (wk_Q W) (wk_QueueName W) DefaultPriority;
       State_Monad.return ()
     })"

section \<open>Slots and goroutines\<close>

text \<open>
  The main loop of \<open>Run\<close> and its goroutines, with the semaphore \<open>sem\<close>: the loop takes a slot,
  claims, and either gives the slot back or starts a goroutine that gives it back when its attempt
  ends; when the context is cancelled it drains and waits for the goroutines.
\<close>

datatype loop_phase = Selecting | Claiming | Draining | Stopped

record worker_loop =
  wl_Phase :: loop_phase
  wl_Sem :: nat
  wl_Running :: "uuid list"

definition loop_init :: worker_loop where
  "loop_init = \<lparr>wl_Phase = Selecting, wl_Sem = 0, wl_Running = []\<rparr>"

inductive loop_step :: "nat \<Rightarrow> worker_loop \<Rightarrow> worker_loop \<Rightarrow> bool" for concurrency where
  Acquire: "wl_Phase s = Selecting \<Longrightarrow> wl_Sem s < concurrency \<Longrightarrow>
    loop_step concurrency s (s\<lparr>wl_Phase := Claiming, wl_Sem := Suc (wl_Sem s)\<rparr>)"
| ClaimFailed: "wl_Phase s = Claiming \<Longrightarrow>
    loop_step concurrency s (s\<lparr>wl_Phase := Selecting, wl_Sem := wl_Sem s - 1\<rparr>)"
| Spawn: "wl_Phase s = Claiming \<Longrightarrow>
    loop_step concurrency s (s\<lparr>wl_Phase := Selecting, wl_Running := jobID # wl_Running s\<rparr>)"
| Finish: "jobID \<in> set (wl_Running s) \<Longrightarrow>
    loop_step concurrency s
      (s\<lparr>wl_Sem := wl_Sem s - 1, wl_Running := remove1 jobID (wl_Running s)\<rparr>)"
| Cancelled: "wl_Phase s = Selecting \<Longrightarrow>
    loop_step concurrency s (s\<lparr>wl_Phase := Draining\<rparr>)"
| Waited: "wl_Phase s = Draining \<Longrightarrow> wl_Running s = [] \<Longrightarrow>
    loop_step concurrency s (s\<lparr>wl_Phase := Stopped\<rparr>)"

end
