(* ===== verification/Workflow_Engine.thy ===== *)
theory Workflow_Engine
  imports Workflow_Store Queue_Interface
begin

text \<open>
  \<open>internal/engine/workflow.go\<close>: the engine that advances workflows. Stores and queue that may be
  nil are \<open>False\<close> and \<open>None\<close>; \<open>U\<close> prints identifiers. \<open>inspect_task\<close> is the body of the first
  loop of \<open>AdvanceWorkflow\<close>, \<open>schedule_task\<close> of the last.
\<close>

record 'w workflow_engine =
  we_Workflows :: bool
  we_Jobs :: bool
  we_Q :: "'w queue_iface option"
  we_PollInterval :: duration

definition NewWorkflowEngine ::
  "bool \<Rightarrow> bool \<Rightarrow> 'w queue_iface option \<Rightarrow> 'w workflow_engine" where
  "NewWorkflowEngine workflows jobs q =
     \<lparr>we_Workflows = workflows, we_Jobs = jobs, we_Q = q, we_PollInterval = 1 * second\<rparr>"

section \<open>The tasks that run\<close>

text \<open>The task after its backing job was looked at, as the loop's local copy has it.\<close>

definition inspect_task ::
  "'z env \<Rightarrow> 'z world workflow_engine \<Rightarrow> workflow_task \<Rightarrow> ('z world, workflow_task) state" where
  "inspect_task E W task =
     (case t_JobID task of
        None \<Rightarrow> State_Monad.return task
      | Some jobID \<Rightarrow>
          if t_Status task = WorkflowTaskStatusRunning \<and> we_Jobs W then do {
            r \<leftarrow> JobStore_Get E jobID;
            case r of
              Inl e \<Rightarrow> State_Monad.return task
            | Inr None \<Rightarrow> State_Monad.return task
            | Inr (Some job) \<Rightarrow>
                if j_Status job = JobStatusSucceeded then do {
                  _ \<leftarrow> WorkflowStore_UpdateTask E (t_ID task) WorkflowTaskStatusSucceeded None None;
                  State_Monad.return (task\<lparr>t_Status := WorkflowTaskStatusSucceeded\<rparr>)
                }
                else if j_Status job \<in> {JobStatusDeadLetter, JobStatusFailed} then do {
                  _ \<leftarrow> WorkflowStore_UpdateTask E (t_ID task) WorkflowTaskStatusFailed None (j_Error job);
                  State_Monad.return (task\<lparr>t_Status := WorkflowTaskStatusFailed, t_Error := j_Error job\<rparr>)
                }
                else if j_Status job = JobStatusCancelled then do {
                  _ \<leftarrow> WorkflowStore_UpdateTask E (t_ID task) WorkflowTaskStatusCancelled None None;
                  State_Monad.return (task\<lparr>t_Status := WorkflowTaskStatusCancelled\<rparr>)
                }
                else State_Monad.return task
          }
          else State_Monad.return task)"

text \<open>The loop: the tasks as it leaves them, the last failed one, whether all succeeded.\<close>

definition inspect_tasks ::
  "'z env \<Rightarrow> 'z world workflow_engine \<Rightarrow> workflow_task list \<Rightarrow>
   ('z world, workflow_task list \<times> workflow_task option \<times> bool) state" where
  "inspect_tasks E W tasks =
     for_each tasks ([], None, True) (\<lambda>task0 (seen, failedTask, allSucceeded). do {
       task \<leftarrow> inspect_task E W task0;
       State_Monad.return
         (if t_Status task = WorkflowTaskStatusFailed then (seen @ [task], Some task, False)
          else if t_Status task \<noteq> WorkflowTaskStatusSucceeded then (seen @ [task], failedTask, False)
          else (seen @ [task], failedTask, allSucceeded))
     })"

section \<open>Failing, and scheduling what is ready\<close>

definition failure_message :: "workflow_task \<Rightarrow> string" where
  "failure_message t =
     (case t_Error t of
        None \<Rightarrow> ''task '' @ strconv_Quote (t_Name t) @ '' failed''
      | Some e \<Rightarrow>
          if e = '''' then ''task '' @ strconv_Quote (t_Name t) @ '' failed''
          else ''task '' @ strconv_Quote (t_Name t) @ '' failed: '' @ e)"

definition fail_workflow ::
  "'z env \<Rightarrow> uuid \<Rightarrow> workflow_task \<Rightarrow> workflow_task list \<Rightarrow> ('z world, unit) state" where
  "fail_workflow E wid failedTask tasks = do {
     _ \<leftarrow> WorkflowStore_UpdateStatus E wid WorkflowStatusFailed (Some (failure_message failedTask));
     for_each tasks () (\<lambda>t _.
       if t_Status t = WorkflowTaskStatusPending then do {
         _ \<leftarrow> WorkflowStore_UpdateTask E (t_ID t) WorkflowTaskStatusCancelled None None;
         State_Monad.return ()
       }
       else State_Monad.return ())
   }"

definition task_key :: "uuid_ops \<Rightarrow> uuid \<Rightarrow> string \<Rightarrow> string" where
  "task_key U wid name = ''wf:'' @ uuid_String U wid @ '':task:'' @ name"

definition task_job_request :: "uuid_ops \<Rightarrow> uuid \<Rightarrow> workflow_task \<Rightarrow> create_job_request" where
  "task_job_request U wid t =
     \<lparr>cj_Type = t_Type t, cj_Payload = Some (t_Payload t), cj_Priority = Some DefaultPriority,
      cj_MaxAttempts = None, cj_IdempotencyKey = Some (task_key U wid (t_Name t)), cj_Queue = None\<rparr>"

definition schedule_task ::
  "uuid_ops \<Rightarrow> 'z env \<Rightarrow> 'z world workflow_engine \<Rightarrow> uuid \<Rightarrow> workflow_task \<Rightarrow>
   ('z world, unit) state" where
  "schedule_task U E W wid task =
     (if \<not> we_Jobs W then State_Monad.return ()
      else do {
        r \<leftarrow> JobStore_Create E (task_job_request U wid task);
        case r of
          Inl e \<Rightarrow> State_Monad.return ()
        | Inr (job, created) \<Rightarrow> do {
            u \<leftarrow> WorkflowStore_UpdateTask E (t_ID task) WorkflowTaskStatusRunning (Some (j_ID job)) None;
            case u of
              Inl e \<Rightarrow> State_Monad.return ()
            | Inr _ \<Rightarrow>
                (case we_Q W of
                   None \<Rightarrow> State_Monad.return ()
                 | Some q \<Rightarrow>
                     if created then do {
                       _ \<leftarrow> q_Enqueue q (Some job);
                       State_Monad.return ()
                     }
                     else State_Monad.return ())
          }
      })"

definition AdvanceWorkflow ::
  "uuid_ops \<Rightarrow> 'z env \<Rightarrow> 'z world workflow_engine \<Rightarrow> uuid \<Rightarrow> ('z world, err + unit) state" where
  "AdvanceWorkflow U E W wid =
     (if \<not> we_Workflows W then State_Monad.return (Inl ErrStoreNotConfigured)
      else do {
        r \<leftarrow> WorkflowStore_Get E wid;
        case r of
          Inl e \<Rightarrow> State_Monad.return (Inl e)
        | Inr None \<Rightarrow> State_Monad.return (Inl ErrWorkflowNotFound)
        | Inr (Some (wflow, tasks)) \<Rightarrow>
            if WorkflowStatus_IsTerminal (wf_Status wflow) then State_Monad.return (Inr ())
            else do {
              inspected \<leftarrow> inspect_tasks E W tasks;
              case inspected of (seen, failed, allSucceeded) \<Rightarrow>
                (case failed of
                   Some failedTask \<Rightarrow> do {
                     _ \<leftarrow> fail_workflow E wid failedTask seen;
                     State_Monad.return (Inr ())
                   }
                 | None \<Rightarrow>
                     if allSucceeded \<and> seen \<noteq> [] then
                       WorkflowStore_UpdateStatus E wid WorkflowStatusSucceeded None
                     else do {
                       ready \<leftarrow> WorkflowStore_GetReadyTasks E wid;
                       case ready of
                         Inl e \<Rightarrow> State_Monad.return (Inl e)
                       | Inr readyTasks \<Rightarrow> do {
                           _ \<leftarrow> for_each readyTasks () (\<lambda>task _. schedule_task U E W wid task);
                           State_Monad.return (Inr ())
                         }
                     })
            }
      })"

definition WorkflowEngine_Start ::
  "uuid_ops \<Rightarrow> 'z env \<Rightarrow> 'z world workflow_engine \<Rightarrow> uuid \<Rightarrow> ('z world, err + unit) state" where
  "WorkflowEngine_Start U E W wid = do {
     r \<leftarrow> WorkflowStore_UpdateStatus E wid WorkflowStatusRunning None;
     case r of
       Inl e \<Rightarrow> State_Monad.return (Inl e)
     | Inr _ \<Rightarrow> AdvanceWorkflow U E W wid
   }"

definition pollRunningWorkflows ::
  "uuid_ops \<Rightarrow> 'z env \<Rightarrow> 'z world workflow_engine \<Rightarrow> ('z world, unit) state" where
  "pollRunningWorkflows U E W =
     (if \<not> we_Workflows W then State_Monad.return ()
      else do {
        r \<leftarrow> WorkflowStore_List E
          \<lparr>ff_Status = Some (workflow_status_text WorkflowStatusRunning), ff_Limit = 50, ff_Offset = 0\<rparr>;
        case r of
          Inl e \<Rightarrow> State_Monad.return ()
        | Inr (workflows, total_rows) \<Rightarrow>
            for_each workflows () (\<lambda>wflow _. do {
              _ \<leftarrow> AdvanceWorkflow U E W (wf_ID wflow);
              State_Monad.return ()
            })
      })"

definition WorkflowEngine_Run ::
  "uuid_ops \<Rightarrow> 'z env \<Rightarrow> 'z world workflow_engine \<Rightarrow> nat \<Rightarrow> ('z world, unit) state" where
  "WorkflowEngine_Run U E W ticks = for_each [0..<ticks] () (\<lambda>_ _. pollRunningWorkflows U E W)"

end
