(* ===== verification/Api.thy ===== *)
theory Api
  imports Workflow_Engine Dag
begin

text \<open>
  \<open>internal/api\<close>: the handlers of \<open>handler.go\<close> with the envelope of \<open>response.go\<close> and the dispatch
  of \<open>routes.go\<close>. A handler is given what \<open>encoding/json\<close> decoded of the body (\<open>None\<close> when it
  fails), the path parameter, the query and the \<open>Idempotency-Key\<close> header; its result is the status,
  the replay header and the envelope. Stores, queue and engine that may be nil are \<open>False\<close>/\<open>None\<close>.
\<close>

record request =
  rq_PathID :: string
  rq_IdempotencyKey :: string
  rq_Query :: "string \<Rightarrow> string"

datatype data =
    DJob "job option"
  | DJobs "job list"
  | DStats "(string \<times> int) list"
  | DWorkers "worker list"
  | DPair string string
  | DQueueStats queue_stats
  | DWorkflow "workflow \<times> workflow_task list"
  | DWorkflows "workflow list" int int int

record response =
  rp_Status :: int
  rp_Replay :: bool
  rp_Data :: "data option"
  rp_Error :: string
  rp_Meta :: "(int \<times> int \<times> int) option"

definition respondJSON :: "int \<Rightarrow> data \<Rightarrow> response" where
  "respondJSON status d =
     \<lparr>rp_Status = status, rp_Replay = False, rp_Data = Some d, rp_Error = [], rp_Meta = None\<rparr>"

definition respondList :: "data \<Rightarrow> int \<Rightarrow> int \<Rightarrow> int \<Rightarrow> response" where
  "respondList d total_rows limit offset =
     \<lparr>rp_Status = 200, rp_Replay = False, rp_Data = Some d, rp_Error = [],
      rp_Meta = Some (total_rows, limit, offset)\<rparr>"

definition respondError :: "int \<Rightarrow> string \<Rightarrow> response" where
  "respondError status msg =
     \<lparr>rp_Status = status, rp_Replay = False, rp_Data = None, rp_Error = msg, rp_Meta = None\<rparr>"

record 'w handler =
  h_Workers :: bool
  h_Q :: "'w queue_iface option"
  h_Engine :: "'w workflow_engine option"

section \<open>Parsing what the request carries\<close>

text \<open>\<open>strconv.Atoi\<close> on 64-bit integers.\<close>

definition digit_value :: "char \<Rightarrow> int" where
  "digit_value c = int (of_char c) - 48"

definition is_digit :: "char \<Rightarrow> bool" where
  "is_digit c \<longleftrightarrow> 0 \<le> digit_value c \<and> digit_value c \<le> 9"

definition strconv_Atoi :: "string \<Rightarrow> int option" where
  "strconv_Atoi s =
     (let neg = (s \<noteq> [] \<and> hd s = CHR ''-'');
          signed = (s \<noteq> [] \<and> (hd s = CHR ''-'' \<or> hd s = CHR ''+''));
          ds = (if signed then tl s else s);
          v = foldl (\<lambda>a c. 10 * a + digit_value c) 0 ds;
          i = (if neg then - v else v)
      in if ds = [] \<or> \<not> list_all is_digit ds then None
         else if i < - (2 ^ 63) \<or> i \<ge> 2 ^ 63 then None else Some i)"

definition parseQueryInt :: "request \<Rightarrow> string \<Rightarrow> int \<Rightarrow> int" where
  "parseQueryInt r key fallback =
     (let v = rq_Query r key
      in if v = [] then fallback
         else (case strconv_Atoi v of None \<Rightarrow> fallback | Some i \<Rightarrow> i))"

definition nonempty :: "string \<Rightarrow> string option" where
  "nonempty s = (if s = [] then None else Some s)"

fun dag_error_text :: "dag_error \<Rightarrow> string" where
  "dag_error_text NoTasks = ''workflow must contain at least one task''"
| "dag_error_text NameRequired = ''task name is required''"
| "dag_error_text (TypeRequired n) = ''task '' @ strconv_Quote n @ '' must specify a type''"
| "dag_error_text (DuplicateName n) = ''duplicate task name: '' @ strconv_Quote n"
| "dag_error_text (SelfDependency n) = ''task '' @ strconv_Quote n @ '' cannot depend on itself''"
| "dag_error_text (UnknownDependency n m) =
     ''task '' @ strconv_Quote n @ '' depends on unknown task '' @ strconv_Quote m"
| "dag_error_text CycleDetected = ''cycle detected in workflow dependencies''"

section \<open>Jobs\<close>

text \<open>The checks of \<open>CreateJob\<close>, and the request with the header's key.\<close>

definition validate_job :: "request \<Rightarrow> create_job_request option \<Rightarrow> string + create_job_request" where
  "validate_job r body =
     (case body of
        None \<Rightarrow> Inl ''invalid request body''
      | Some req \<Rightarrow>
          if cj_Type req = [] then Inl ''type is required''
          else if (case cj_Priority req of None \<Rightarrow> False | Some p \<Rightarrow> p < 1 \<or> p > 3)
          then Inl ''priority must be 1 (high), 2 (medium), or 3 (low)''
          else if (case cj_MaxAttempts req of None \<Rightarrow> False | Some m \<Rightarrow> m < 1)
          then Inl ''max_attempts must be at least 1''
          else
            let req' = (if cj_IdempotencyKey req = None
                        then req\<lparr>cj_IdempotencyKey := nonempty (rq_IdempotencyKey r)\<rparr> else req)
            in if (case cj_IdempotencyKey req' of None \<Rightarrow> False
                   | Some key \<Rightarrow> length key = 0 \<or> length key > 128)
               then Inl ''idempotency_key must be between 1 and 128 characters''
               else Inr req')"

definition enqueue_if :: "'w queue_iface option \<Rightarrow> job \<Rightarrow> ('w, unit) state" where
  "enqueue_if q job =
     (case q of
        None \<Rightarrow> State_Monad.return ()
      | Some q \<Rightarrow> do { _ \<leftarrow> q_Enqueue q (Some job); State_Monad.return () })"

definition CreateJob ::
  "'z env \<Rightarrow> 'z world handler \<Rightarrow> request \<Rightarrow> create_job_request option \<Rightarrow>
   ('z world, response) state" where
  "CreateJob E h r body =
     (case validate_job r body of
        Inl msg \<Rightarrow> State_Monad.return (respondError 400 msg)
      | Inr req \<Rightarrow> do {
          c \<leftarrow> JobStore_Create E req;
          case c of
            Inl e \<Rightarrow> State_Monad.return (respondError 500 ''failed to create job'')
          | Inr (job, created) \<Rightarrow>
              if created then do {
                _ \<leftarrow> emit (RecordJobCreated (j_Type job));
                _ \<leftarrow> enqueue_if (h_Q h) job;
                State_Monad.return (respondJSON 201 (DJob (Some job)))
              }
              else State_Monad.return ((respondJSON 200 (DJob (Some job)))\<lparr>rp_Replay := True\<rparr>)
        })"

definition GetJob :: "uuid_ops \<Rightarrow> 'z env \<Rightarrow> request \<Rightarrow> ('z world, response) state" where
  "GetJob U E r =
     (case uuid_Parse U (rq_PathID r) of
        None \<Rightarrow> State_Monad.return (respondError 400 ''invalid job ID'')
      | Some jid \<Rightarrow> do {
          j \<leftarrow> JobStore_Get E jid;
          State_Monad.return (case j of
            Inl e \<Rightarrow> respondError 500 ''failed to get job''
          | Inr None \<Rightarrow> respondError 404 ''job not found''
          | Inr (Some job) \<Rightarrow> respondJSON 200 (DJob (Some job)))
        })"

definition list_jobs_filter :: "request \<Rightarrow> job_filter" where
  "list_jobs_filter r =
     \<lparr>jf_Status = nonempty (rq_Query r ''status''),
      jf_Type = nonempty (rq_Query r ''type''),
      jf_Queue = nonempty (rq_Query r ''queue''),
      jf_Priority = (case nonempty (rq_Query r ''priority'') of None \<Rightarrow> None | Some p \<Rightarrow> strconv_Atoi p),
      jf_Limit = parseQueryInt r ''limit'' 50,
      jf_Offset = parseQueryInt r ''offset'' 0\<rparr>"

definition ListJobs :: "'z env \<Rightarrow> request \<Rightarrow> ('z world, response) state" where
  "ListJobs E r =
     (let f = list_jobs_filter r in do {
        l \<leftarrow> JobStore_List E f;
        State_Monad.return (case l of
          Inl e \<Rightarrow> respondError 500 ''failed to list jobs''
        | Inr (jobs, total_rows) \<Rightarrow> respondList (DJobs jobs) total_rows (jf_Limit f) (jf_Offset f))
      })"

definition not_cancellable_text :: string where
  "not_cancellable_text = ''job cannot be cancelled (not in QUEUED or RUNNING state)''"

definition CancelJob :: "uuid_ops \<Rightarrow> 'z env \<Rightarrow> 'z world handler \<Rightarrow> request \<Rightarrow> ('z world, response) state" where
  "CancelJob U E h r =
     (case uuid_Parse U (rq_PathID r) of
        None \<Rightarrow> State_Monad.return (respondError 400 ''invalid job ID'')
      | Some jid \<Rightarrow> do {
          c \<leftarrow> JobStore_Cancel E jid;
          case c of
            Inl e \<Rightarrow> State_Monad.return
              (if e = ErrJobNotCancellable then respondError 409 not_cancellable_text
               else respondError 500 ''failed to cancel job'')
          | Inr _ \<Rightarrow> do {
              _ \<leftarrow> (case h_Q h of
                     None \<Rightarrow> State_Monad.return (Inr ())
                   | Some q \<Rightarrow> q_Ack q DefaultQueue jid);
              j \<leftarrow> JobStore_Get E jid;
              State_Monad.return (case j of
                Inl e \<Rightarrow> respondError 500 ''failed to retrieve cancelled job''
              | Inr job \<Rightarrow> respondJSON 200 (DJob job))
            }
        })"

definition not_retryable_text :: string where
  "not_retryable_text = ''job cannot be retried (must be in DEAD_LETTER or FAILED state)''"

definition RetryJob :: "uuid_ops \<Rightarrow> 'z env \<Rightarrow> 'z world handler \<Rightarrow> request \<Rightarrow> ('z world, response) state" where
  "RetryJob U E h r =
     (case uuid_Parse U (rq_PathID r) of
        None \<Rightarrow> State_Monad.return (respondError 400 ''invalid job ID'')
      | Some jid \<Rightarrow> do {
          c \<leftarrow> JobStore_ManualRetry E jid;
          case c of
            Inl e \<Rightarrow> State_Monad.return
              (if e = ErrJobNotRetryable then respondError 409 not_retryable_text
               else respondError 500 ''failed to retry job'')
          | Inr job \<Rightarrow> do {
              _ \<leftarrow> enqueue_if (h_Q h) job;
              State_Monad.return (respondJSON 200 (DJob (Some job)))
            }
        })"

section \<open>Statistics, workers, queues\<close>

definition status_count :: "(job_status \<times> int) list \<Rightarrow> job_status \<Rightarrow> int" where
  "status_count counts s = (case map_of counts s of None \<Rightarrow> 0 | Some c \<Rightarrow> c)"

definition stats_data :: "(job_status \<times> int) list \<Rightarrow> int \<Rightarrow> (string \<times> int) list" where
  "stats_data counts activeWorkers =
     [(''total_jobs'', sum_list (map snd counts)),
      (''queued_jobs'', status_count counts JobStatusQueued),
      (''running_jobs'', status_count counts JobStatusRunning),
      (''succeeded_jobs'', status_count counts JobStatusSucceeded),
      (''failed_jobs'', status_count counts JobStatusFailed),
      (''retrying_jobs'', status_count counts JobStatusRetrying),
      (''dead_letter_jobs'', status_count counts JobStatusDeadLetter),
      (''cancelled_jobs'', status_count counts JobStatusCancelled),
      (''active_workers'', activeWorkers)]"

definition GetStats :: "'z env \<Rightarrow> 'z world handler \<Rightarrow> ('z world, response) state" where
  "GetStats E h = do {
     c \<leftarrow> JobStore_StatusCounts E;
     case c of
       Inl e \<Rightarrow> State_Monad.return (respondError 500 ''failed to get stats'')
     | Inr counts \<Rightarrow> do {
         ks \<leftarrow> (if h_Workers h then WorkerStore_List E else State_Monad.return (Inr []));
         State_Monad.return (respondJSON 200 (DStats (stats_data counts
           (case ks of
              Inl e \<Rightarrow> 0
            | Inr ws \<Rightarrow> int (length (filter (\<lambda>k. w_Status k = WorkerStatusActive) ws))))))
       }
   }"

definition ListWorkers :: "'z env \<Rightarrow> 'z world handler \<Rightarrow> ('z world, response) state" where
  "ListWorkers E h =
     (if \<not> h_Workers h then State_Monad.return (respondJSON 200 (DWorkers []))
      else do {
        ks \<leftarrow> WorkerStore_List E;
        State_Monad.return (case ks of
          Inl e \<Rightarrow> respondError 500 ''failed to list workers''
        | Inr ws \<Rightarrow> respondJSON 200 (DWorkers ws))
      })"

definition GetQueueStats :: "'w handler \<Rightarrow> request \<Rightarrow> ('w, response) state" where
  "GetQueueStats h r =
     (case h_Q h of
        None \<Rightarrow> State_Monad.return (respondJSON 200 (DPair ''message'' ''queue not initialized''))
      | Some q \<Rightarrow>
          (let queueName = (if rq_Query r ''queue'' = [] then DefaultQueue else rq_Query r ''queue'')
           in do {
             s \<leftarrow> q_GetQueueStats q queueName;
             State_Monad.return (case s of
               Inl e \<Rightarrow> respondError 500 ''failed to get queue stats''
             | Inr stats \<Rightarrow> respondJSON 200 (DQueueStats stats))
           }))"

definition HealthCheck :: "('w, response) state" where
  "HealthCheck = State_Monad.return (respondJSON 200 (DPair ''status'' ''ok''))"

section \<open>Workflows\<close>

definition CreateWorkflow ::
  "(degrees \<Rightarrow> degrees) \<Rightarrow> uuid_ops \<Rightarrow> 'z env \<Rightarrow> 'z world handler \<Rightarrow>
   create_workflow_request option \<Rightarrow> ('z world, response) state" where
  "CreateWorkflow ord U E h body =
     (case body of
        None \<Rightarrow> State_Monad.return (respondError 400 ''invalid request body'')
      | Some req \<Rightarrow>
          if cw_Name req = [] then State_Monad.return (respondError 400 ''workflow name is required'')
          else (case ValidateDAG ord (cw_Tasks req) of
            Inl e \<Rightarrow> State_Monad.return (respondError 400 (dag_error_text e))
          | Inr _ \<Rightarrow> do {
              c \<leftarrow> WorkflowStore_Create E req;
              case c of
                Inl e \<Rightarrow> State_Monad.return (respondError 500 ''failed to create workflow'')
              | Inr (wflow, tasks) \<Rightarrow> do {
                  _ \<leftarrow> (case h_Engine h of
                         None \<Rightarrow> State_Monad.return (Inr ())
                       | Some W \<Rightarrow> do {
                           _ \<leftarrow> emit (RecordWorkflow (workflow_status_text WorkflowStatusRunning));
                           WorkflowEngine_Start U E W (wf_ID wflow)
                         });
                  State_Monad.return (respondJSON 201 (DWorkflow (wflow, tasks)))
                }
            }))"

definition GetWorkflow :: "uuid_ops \<Rightarrow> 'z env \<Rightarrow> request \<Rightarrow> ('z world, response) state" where
  "GetWorkflow U E r =
     (case uuid_Parse U (rq_PathID r) of
        None \<Rightarrow> State_Monad.return (respondError 400 ''invalid workflow ID'')
      | Some wid \<Rightarrow> do {
          g \<leftarrow> WorkflowStore_Get E wid;
          State_Monad.return (case g of
            Inl e \<Rightarrow> respondError 500 ''failed to get workflow''
          | Inr None \<Rightarrow> respondError 404 ''workflow not found''
          | Inr (Some wflow) \<Rightarrow> respondJSON 200 (DWorkflow wflow))
        })"

definition ListWorkflows :: "'z env \<Rightarrow> request \<Rightarrow> ('z world, response) state" where
  "ListWorkflows E r =
     (let f = \<lparr>ff_Status = nonempty (rq_Query r ''status''),
               ff_Limit = parseQueryInt r ''limit'' 20,
               ff_Offset = parseQueryInt r ''offset'' 0\<rparr>
      in do {
        l \<leftarrow> WorkflowStore_List E f;
        State_Monad.return (case l of
          Inl e \<Rightarrow> respondError 500 ''failed to list workflows''
        | Inr (ws, total_rows) \<Rightarrow>
            respondJSON 200 (DWorkflows ws total_rows (ff_Limit f) (ff_Offset f)))
      })"

definition CancelWorkflow :: "uuid_ops \<Rightarrow> 'z env \<Rightarrow> request \<Rightarrow> ('z world, response) state" where
  "CancelWorkflow U E r =
     (case uuid_Parse U (rq_PathID r) of
        None \<Rightarrow> State_Monad.return (respondError 400 ''invalid workflow ID'')
      | Some wid \<Rightarrow> do {
          c \<leftarrow> WorkflowStore_Cancel E wid;
          State_Monad.return (case c of
            Inl e \<Rightarrow> respondError 500 ''failed to cancel workflow''
          | Inr _ \<Rightarrow> respondJSON 200 (DPair ''status'' ''cancelled''))
        })"

end
