(* ===== verification/System.thy ===== *)
theory System
  imports Db_Step Queue_Props Scheduler Supervisor Worker Api
begin

text \<open>
  The processes together. Every handler, loop body and attempt of the program is an
  \<open>activity\<close>; performed against any queue that leaves the database alone, under any faults, it
  changes the database only by statements of \<open>db_step\<close>, provided the other processes do so too. So
  rely and guarantee are the same relation and its invariants hold in every interleaving.
\<close>

section \<open>Activities\<close>

datatype 'w activity =
    Act_CreateJob "'w handler" request "create_job_request option"
  | Act_GetJob request
  | Act_ListJobs request
  | Act_CancelJob "'w handler" request
  | Act_RetryJob "'w handler" request
  | Act_GetStats "'w handler"
  | Act_ListWorkers "'w handler"
  | Act_GetQueueStats "'w handler" request
  | Act_HealthCheck
  | Act_CreateWorkflow "'w handler" "create_workflow_request option"
  | Act_GetWorkflow request
  | Act_ListWorkflows request
  | Act_CancelWorkflow request
  | Act_PollAndRequeue "'w retry_scheduler"
  | Act_ReapDeadWorkers "'w worker_supervisor"
  | Act_PollWorkflows "'w workflow_engine"
  | Act_Start "'w worker_proc"
  | Act_Claim "'w worker_proc"
  | Act_ProcessJob "'w worker_proc" uuid
  | Act_Heartbeat "'w worker_proc"
  | Act_StaleRecovery "'w worker_proc"
  | Act_Drain "'w worker_proc"
  | Act_Stop "'w worker_proc"

definition ignore :: "('s, 'a) state \<Rightarrow> ('s, unit) state" where
  "ignore m = do { _ \<leftarrow> m; State_Monad.return () }"

fun perform ::
  "(degrees \<Rightarrow> degrees) \<Rightarrow> uuid_ops \<Rightarrow> 'z env \<Rightarrow> 'z world activity \<Rightarrow> ('z world, unit) state" where
  "perform ord U E (Act_CreateJob h r body) = ignore (CreateJob E h r body)"
| "perform ord U E (Act_GetJob r) = ignore (GetJob U E r)"
| "perform ord U E (Act_ListJobs r) = ignore (ListJobs E r)"
| "perform ord U E (Act_CancelJob h r) = ignore (CancelJob U E h r)"
| "perform ord U E (Act_RetryJob h r) = ignore (RetryJob U E h r)"
| "perform ord U E (Act_GetStats h) = ignore (GetStats E h)"
| "perform ord U E (Act_ListWorkers h) = ignore (ListWorkers E h)"
| "perform ord U E (Act_GetQueueStats h r) = ignore (GetQueueStats h r)"
| "perform ord U E Act_HealthCheck = ignore HealthCheck"
| "perform ord U E (Act_CreateWorkflow h body) = ignore (CreateWorkflow ord U E h body)"
| "perform ord U E (Act_GetWorkflow r) = ignore (GetWorkflow U E r)"
| "perform ord U E (Act_ListWorkflows r) = ignore (ListWorkflows E r)"
| "perform ord U E (Act_CancelWorkflow r) = ignore (CancelWorkflow U E r)"
| "perform ord U E (Act_PollAndRequeue S) = ignore (PollAndRequeue E S)"
| "perform ord U E (Act_ReapDeadWorkers S) = ignore (ReapDeadWorkers E S)"
| "perform ord U E (Act_PollWorkflows W) = pollRunningWorkflows U E W"
| "perform ord U E (Act_Start W) = worker_start E W"
| "perform ord U E (Act_Claim W) = ignore (claim_and_process E W)"
| "perform ord U E (Act_ProcessJob W u) = processJob E W u"
| "perform ord U E (Act_Heartbeat W) = heartbeat_tick E W"
| "perform ord U E (Act_StaleRecovery W) = staleRecoveryLoop E W 1"
| "perform ord U E (Act_Drain W) = worker_drain E W"
| "perform ord U E (Act_Stop W) = worker_stop E W"

text \<open>The queues an activity uses.\<close>

fun engine_queues :: "'w workflow_engine option \<Rightarrow> 'w queue_iface list" where
  "engine_queues None = []"
| "engine_queues (Some W) = (case we_Q W of None \<Rightarrow> [] | Some q \<Rightarrow> [q])"

definition handler_queues :: "'w handler \<Rightarrow> 'w queue_iface list" where
  "handler_queues h = (case h_Q h of None \<Rightarrow> [] | Some q \<Rightarrow> [q]) @ engine_queues (h_Engine h)"

fun queues_of :: "'w activity \<Rightarrow> 'w queue_iface list" where
  "queues_of (Act_CreateJob h r body) = handler_queues h"
| "queues_of (Act_CancelJob h r) = handler_queues h"
| "queues_of (Act_RetryJob h r) = handler_queues h"
| "queues_of (Act_GetQueueStats h r) = handler_queues h"
| "queues_of (Act_CreateWorkflow h body) = handler_queues h"
| "queues_of (Act_PollAndRequeue S) = [rs_Q S]"
| "queues_of (Act_ReapDeadWorkers S) = (case ws_Q S of None \<Rightarrow> [] | Some q \<Rightarrow> [q])"
| "queues_of (Act_PollWorkflows W) = engine_queues (Some W)"
| "queues_of (Act_Claim W) = [wk_Q W]"
| "queues_of (Act_ProcessJob W u) = [wk_Q W]"
| "queues_of (Act_Heartbeat W) = [wk_Q W]"
| "queues_of (Act_StaleRecovery W) = [wk_Q W]"
| "queues_of (Act_Stop W) = [wk_Q W]"
| "queues_of _ = []"

section \<open>Every activity keeps every closed invariant\<close>

lemma keeps_ignore [pres]: "keeps J m \<Longrightarrow> keeps J (ignore m)"
  unfolding ignore_def by (intro pres)

context db_invariant
begin

lemma keeps_PollAndRequeue:
  "queue_keeps inv (rs_Q S) \<Longrightarrow> keeps inv (PollAndRequeue E S)"
  unfolding PollAndRequeue_def by (intro pres queue_keepsD)

lemma keeps_ReapDeadWorkers:
  "list_all (queue_keeps inv) (case ws_Q S of None \<Rightarrow> [] | Some q \<Rightarrow> [q]) \<Longrightarrow>
   keeps inv (ReapDeadWorkers E S)"
  unfolding ReapDeadWorkers_def reap_worker_def by (intro pres; simp add: queue_keepsD pres)

lemma keeps_when_workers [pres]: "keeps J m \<Longrightarrow> keeps J (when_workers W m)"
  unfolding when_workers_def by (intro pres)

lemma keeps_exec_handler [pres]: "keeps inv (exec_handler h p)"
  by (rule keepsI) (simp add: exec_handler_def)

lemma keeps_run_attempt: "queue_keeps inv (wk_Q W) \<Longrightarrow> keeps inv (run_attempt E W job h)"
  unfolding run_attempt_def resolve_failure_def resolve_success_def by (intro pres queue_keepsD)

lemma keeps_processJob: "queue_keeps inv (wk_Q W) \<Longrightarrow> keeps inv (processJob E W u)"
  unfolding processJob_def by (intro pres queue_keepsD keeps_run_attempt)

lemma keeps_worker_loops:
  assumes "queue_keeps inv (wk_Q W)"
  shows "keeps inv (claim_and_process E W)" "keeps inv (heartbeat_tick E W)"
    "keeps inv (staleRecoveryLoop E W k)" "keeps inv (worker_stop E W)"
  unfolding claim_and_process_def heartbeat_tick_def staleRecoveryLoop_def worker_stop_def
  by (intro pres queue_keepsD assms keeps_processJob)+

lemma keeps_worker_status [pres]: "keeps inv (worker_start E W)" "keeps inv (worker_drain E W)"
  unfolding worker_start_def worker_drain_def by (intro pres)+

lemma keeps_inspect_task [pres]: "keeps inv (inspect_task E W t)"
  unfolding inspect_task_def by (intro pres)

lemma keeps_inspect_tasks [pres]: "keeps inv (inspect_tasks E W ts)"
  unfolding inspect_tasks_def by (intro pres)

lemma keeps_fail_workflow [pres]: "keeps inv (fail_workflow E fid t ts)"
  unfolding fail_workflow_def by (intro pres)

lemma keeps_schedule_task:
  assumes "list_all (queue_keeps inv) (engine_queues (Some W))"
  shows "keeps inv (schedule_task U E W fid t)"
proof -
  have "keeps inv (JobStore_Create E (task_job_request U fid t))"
    by (rule keeps_JobStore_Create) (simp_all add: task_job_request_def DefaultPriority_def)
  then show ?thesis
    unfolding schedule_task_def by (intro pres) (use assms in \<open>simp_all add: queue_keepsD\<close>)
qed

lemma keeps_AdvanceWorkflow:
  "list_all (queue_keeps inv) (engine_queues (Some W)) \<Longrightarrow> keeps inv (AdvanceWorkflow U E W fid)"
  unfolding AdvanceWorkflow_def by (intro pres keeps_schedule_task)

lemma keeps_WorkflowEngine_Start:
  "list_all (queue_keeps inv) (engine_queues (Some W)) \<Longrightarrow> keeps inv (WorkflowEngine_Start U E W fid)"
  unfolding WorkflowEngine_Start_def by (intro pres keeps_AdvanceWorkflow)

lemma keeps_pollRunningWorkflows:
  "list_all (queue_keeps inv) (engine_queues (Some W)) \<Longrightarrow> keeps inv (pollRunningWorkflows U E W)"
  unfolding pollRunningWorkflows_def by (intro pres keeps_AdvanceWorkflow)

lemma keeps_enqueue_if:
  "list_all (queue_keeps inv) (handler_queues h) \<Longrightarrow> keeps inv (enqueue_if (h_Q h) job)"
  unfolding enqueue_if_def handler_queues_def by (intro pres) (simp add: queue_keepsD)

lemma validate_job_ranges:
  assumes "validate_job r body = Inr req"
  shows "case cj_Priority req of None \<Rightarrow> True | Some p \<Rightarrow> 1 \<le> p \<and> p \<le> 3"
    and "case cj_MaxAttempts req of None \<Rightarrow> True | Some m \<Rightarrow> 1 \<le> m"
  using assms unfolding validate_job_def
  by (auto simp: Let_def split: option.splits if_splits)

lemma keeps_CreateJob:
  assumes "list_all (queue_keeps inv) (handler_queues h)"
  shows "keeps inv (CreateJob E h r body)"
  unfolding CreateJob_def
  by (intro pres keeps_enqueue_if [OF assms] keeps_JobStore_Create validate_job_ranges)

lemma keeps_CancelJob:
  "list_all (queue_keeps inv) (handler_queues h) \<Longrightarrow> keeps inv (CancelJob U E h r)"
  unfolding CancelJob_def handler_queues_def by (intro pres) (simp add: queue_keepsD)

lemma keeps_RetryJob:
  "list_all (queue_keeps inv) (handler_queues h) \<Longrightarrow> keeps inv (RetryJob U E h r)"
  unfolding RetryJob_def by (intro pres keeps_enqueue_if)

lemma keeps_GetQueueStats:
  "list_all (queue_keeps inv) (handler_queues h) \<Longrightarrow> keeps inv (GetQueueStats h r)"
  unfolding GetQueueStats_def Let_def handler_queues_def by (intro pres) (simp add: queue_keepsD)

lemma keeps_CreateWorkflow:
  assumes ord: "\<And>d. mset (ord d) = mset d" and q: "list_all (queue_keeps inv) (handler_queues h)"
  shows "keeps inv (CreateWorkflow ord U E h body)"
  unfolding CreateWorkflow_def
  by (intro pres keeps_WorkflowStore_Create keeps_WorkflowEngine_Start)
    (use q in \<open>simp_all add: valid_dag_accepted [OF ord] handler_queues_def\<close>)

lemma keeps_readers [pres]:
  "keeps inv (GetJob U E r)" "keeps inv (ListJobs E r)" "keeps inv (GetStats E h)"
  "keeps inv (ListWorkers E h)" "keeps inv HealthCheck" "keeps inv (GetWorkflow U E r)"
  "keeps inv (ListWorkflows E r)" "keeps inv (CancelWorkflow U E r)"
  unfolding GetJob_def ListJobs_def GetStats_def ListWorkers_def HealthCheck_def GetWorkflow_def
    ListWorkflows_def CancelWorkflow_def Let_def
  by (intro pres)+

lemma keeps_perform:
  assumes ord: "\<And>d. mset (ord d) = mset d" and q: "list_all (queue_keeps inv) (queues_of a)"
  shows "keeps inv (perform ord U E a)"
  using q
  by (cases a)
    (auto intro!: pres keeps_CreateJob keeps_CancelJob keeps_RetryJob keeps_GetQueueStats
      keeps_CreateWorkflow [OF ord] keeps_PollAndRequeue keeps_ReapDeadWorkers
      keeps_pollRunningWorkflows keeps_worker_loops keeps_processJob)

end

section \<open>Rely and guarantee\<close>

text \<open>The other processes reach the database only through statements of the program.\<close>

definition others_statements :: "'z env \<Rightarrow> bool" where
  "others_statements E \<longleftrightarrow> (\<forall>n d r. db_step\<^sup>*\<^sup>* d (fst (others E n (d, r))))"

lemma reliable_others: "reliable E \<Longrightarrow> others_statements E"
  by (simp add: reliable_def others_statements_def)

lemma db_invariantI:
  assumes "\<And>d d'. db_step d d' \<Longrightarrow> I d \<Longrightarrow> I d'" and "others_statements E"
  shows "db_invariant I E"
proof
  have "I d'" if "db_step\<^sup>*\<^sup>* d d'" "I d" for d d'
    using that by (induction) (auto intro: assms(1))
  then show "rely I E" using assms(2) unfolding rely_def others_statements_def by blast
qed (rule assms(1))

text \<open>The Redis queue never touches the database.\<close>

lemma keeps_for_each_redis:
  "rely I E \<Longrightarrow> keeps (\<lambda>w. I (db w)) (zcard_cmd R E key)"
  unfolding zcard_cmd_def by (rule keeps_rcmd)

lemma queue_keeps_RedisQueue:
  assumes "rely I E"
  shows "queue_keeps (\<lambda>w. I (db w)) (RedisQueue R U E)"
  unfolding queue_keeps_def RedisQueue_def queue_iface.simps RedisQueue_Enqueue_def
    RedisQueue_Claim_def RedisQueue_ClaimWithWeights_def RedisQueue_Ack_def RedisQueue_RequeueStale_def
    RedisQueue_Heartbeat_def RedisQueue_RemoveWorker_def RedisQueue_QueueLength_def
    RedisQueue_InProgressCount_def RedisQueue_GetQueueStats_def Let_def
  by (intro conjI allI pres keeps_rcmd [OF assms] keeps_for_each_redis [OF assms])

lemma activity_statements:
  assumes "\<And>d. mset (ord d) = mset d" and "others_statements E"
    and "\<forall>q \<in> set (queues_of a). q = RedisQueue R U E"
  shows "db_step\<^sup>*\<^sup>* (db w) (db (snd (run_state (perform ord U E a) w)))"
proof -
  let ?I = "\<lambda>d. db_step\<^sup>*\<^sup>* (db w) d"
  have inv: "db_invariant ?I E" by (rule db_invariantI [OF _ assms(2)]) simp
  have "queue_keeps (\<lambda>w. ?I (db w)) (RedisQueue R U E)"
    by (rule queue_keeps_RedisQueue [OF db_invariant.others [OF inv]])
  then have "list_all (queue_keeps (\<lambda>w. ?I (db w))) (queues_of a)"
    using assms(3) unfolding list_all_iff by metis
  from db_invariant.keeps_perform [OF inv assms(1) this] show ?thesis
    using keepsD by fastforce
qed

definition perform_all ::
  "(degrees \<Rightarrow> degrees) \<Rightarrow> uuid_ops \<Rightarrow> 'z env \<Rightarrow> 'z world activity list \<Rightarrow> ('z world, unit) state" where
  "perform_all ord U E acts = for_each acts () (\<lambda>a _. perform ord U E a)"

lemma activities_statements:
  assumes "\<And>d. mset (ord d) = mset d" and "others_statements E"
    and "\<forall>a \<in> set acts. \<forall>q \<in> set (queues_of a). q = RedisQueue R U E"
  shows "db_step\<^sup>*\<^sup>* (db w) (db (snd (run_state (perform_all ord U E acts) w)))"
  using assms(3)
proof (induction acts arbitrary: w)
  case (Cons a acts)
  obtain w1 where w1: "run_state (perform ord U E a) w = ((), w1)" by (metis old.unit.exhaust surj_pair)
  have "db_step\<^sup>*\<^sup>* (db w) (db w1)"
    using activity_statements [OF assms(1,2), of a R U w] Cons.prems w1 by simp
  also have "db_step\<^sup>*\<^sup>* (db w1) (db (snd (run_state (perform_all ord U E acts) w1)))"
    using Cons by simp
  finally show ?case using w1 by (simp add: perform_all_def)
qed (simp add: perform_all_def)

lemma db_ok_steps: "db_step\<^sup>*\<^sup>* d d' \<Longrightarrow> db_ok d \<Longrightarrow> db_ok d'"
  by (induction rule: rtranclp_induct) (auto intro: db_ok_step)

section \<open>Properties of the whole system\<close>

definition demo_handler :: "zlist world handler" where
  "demo_handler = \<lparr>h_Workers = True, h_Q = Some (RedisQueue zlist_ops hex_uuid_ops quiet_env),
     h_Engine = Some (NewWorkflowEngine True True (Some (RedisQueue zlist_ops hex_uuid_ops quiet_env)))\<rparr>"

definition demo_request :: create_job_request where
  "demo_request = \<lparr>cj_Type = ''email'', cj_Payload = None, cj_Priority = Some 1, cj_MaxAttempts = None,
     cj_IdempotencyKey = Some ''k'', cj_Queue = None\<rparr>"

definition demo_http :: request where
  "demo_http = \<lparr>rq_PathID = [], rq_IdempotencyKey = [], rq_Query = (\<lambda>_. [])\<rparr>"

definition demo_worker :: "zlist world worker_proc" where
  "demo_worker = RegisterHandler (NewWorker ''w1'' True (RedisQueue zlist_ops hex_uuid_ops quiet_env)
     second minute 0 0 1) ''email'' (\<lambda>payload n. if n mod 2 = 0 then None else Some ''boom'')"

definition demo_acts :: "zlist world activity list" where
  "demo_acts = [Act_Start demo_worker, Act_CreateJob demo_handler demo_http (Some demo_request),
     Act_Claim demo_worker, Act_Heartbeat demo_worker, Act_Stop demo_worker,
     Act_CreateWorkflow demo_handler (Some \<lparr>cw_Name = ''flow'', cw_Tasks = diamond\<rparr>)]"

lemma demo_acts_queues:
  "\<forall>a \<in> set demo_acts. \<forall>q \<in> set (queues_of a). q = RedisQueue zlist_ops hex_uuid_ops quiet_env"
  by (simp add: demo_acts_def demo_handler_def handler_queues_def demo_worker_def RegisterHandler_def
      NewWorker_def NewWorkflowEngine_def)



text \<open>
  The database invariant: in every interleaving of any activities, under any faults and any
  interference by statements of other processes, every job row keeps to its life cycle (a running
  job has a worker, a start and an attempt, a waiting one no worker, a completion time exactly
  when terminal, a retry only while attempts remain, a dead letter only when they are used up, an
  error with every failure and none with success), identifiers and idempotency keys stay unique,
  references resolve, and the stored dependencies of every workflow are closed and acyclic.
\<close>

theorem system_db_ok:
  assumes "\<And>d. mset (ord d) = mset d" and "others_statements E" and "db_ok (db w)"
    and "\<forall>a \<in> set acts. \<forall>q \<in> set (queues_of a). q = RedisQueue R U E"
  shows "db_ok (db (snd (run_state (perform_all ord U E acts) w)))"
  by (rule db_ok_steps [OF activities_statements [OF assms(1,2,4)] assms(3)])

theorem system_db_ok_witness:
  "db_ok (db (snd (run_state (perform_all rev hex_uuid_ops quiet_env demo_acts) demo_world)))"
  by (rule system_db_ok [OF _ reliable_others [OF reliable_quiet_env] _ demo_acts_queues])
    (simp_all add: demo_world_def db_ok_empty)

end
