(* ===== verification/Job_Props.thy ===== *)
theory Job_Props
  imports System
begin

text \<open>
  The job life cycle: how a row may change, that requests persist, idempotent creation, the claim,
  the failure and retry decisions, and what one attempt of \<open>processJob\<close> does to its row.
\<close>

section \<open>Statements on the row with a given identifier\<close>

lemma filter_row_of:
  assumes "distinct (map key rs)" and "row_of key k rs = Some r"
  shows "filter (\<lambda>x. key x = k \<and> q x) rs = (if q r then [r] else [])"
proof -
  have "filter (\<lambda>x. key x = k \<and> q x) rs = filter q (filter (\<lambda>x. key x = k) rs)" by simp
  then show ?thesis using assms by (simp add: filter_key_distinct)
qed

lemma update_where_row:
  assumes "distinct (map key rs)" and "row_of key k rs = Some r"
  shows "update_where (\<lambda>x. key x = k \<and> q x) f rs =
    (if q r then update_where (\<lambda>x. key x = k) f rs else rs)"
proof -
  have "q x = q r" if "x \<in> set rs" "key x = k" for x
    using row_of_distinct [OF assms(1) that(1)] assms(2) that(2) by simp
  then show ?thesis by (auto simp: update_where_def intro!: map_idI)
qed

abbreviation job_row :: "uuid \<Rightarrow> db \<Rightarrow> job option" where
  "job_row jid d \<equiv> row_of j_ID jid (jobs_table d)"

abbreviation set_job :: "uuid \<Rightarrow> (job \<Rightarrow> job) \<Rightarrow> db \<Rightarrow> db" where
  "set_job jid f d \<equiv> update_jobs (\<lambda>j. j_ID j = jid) f d"

lemma set_job_twice:
  "(\<And>j. j_ID (f j) = j_ID j) \<Longrightarrow> set_job jid g (set_job jid f d) = set_job jid (\<lambda>j. g (f j)) d"
  by (cases d) (auto simp: update_jobs_def update_where_def)

lemma job_row_set_job:
  "(\<And>j. j_ID (f j) = j_ID j) \<Longrightarrow> job_row k (set_job jid f d) =
     map_option (\<lambda>j. if j_ID j = jid then f j else j) (job_row k d)"
  by (simp add: row_of_update_where)

lemma distinct_set_job:
  "(\<And>j. j_ID (f j) = j_ID j) \<Longrightarrow> distinct (map j_ID (jobs_table d)) \<Longrightarrow>
   distinct (map j_ID (jobs_table (set_job jid f d)))"
  by (simp add: map_update_where)

lemma row_ids [simp]:
  "j_ID (run_job wid now j) = j_ID j" "j_ID (fail_job e nxt now j) = j_ID j"
  "j_ID (reset_job now j) = j_ID j" "j_ID (succeed_job now j) = j_ID j"
  by (simp_all add: run_job_def fail_job_def reset_job_def succeed_job_def)

definition claimable :: "job \<Rightarrow> bool" where
  "claimable j \<longleftrightarrow> j_Status j \<in> {JobStatusQueued, JobStatusRetrying}"

lemma claim_job_stmt_row:
  assumes "distinct (map j_ID (jobs_table d))" and "job_row jid d = Some j"
  shows "claim_job_stmt jid wid now d =
    (if \<not> claimable j then (Inl ErrNoRows, d)
     else if \<not> int4 (j_Attempt j + 1) then (Inl ErrOutOfRange, d)
     else (Inr (run_job wid now j), set_job jid (run_job wid now) d))"
proof -
  let ?q = "\<lambda>j. j_Status j \<in> {JobStatusQueued, JobStatusRetrying}"
  have "list_ex (\<lambda>x. (j_ID x = jid \<and> ?q x) \<and> \<not> int4 (j_Attempt x + 1)) (jobs_table d) \<longleftrightarrow>
      claimable j \<and> \<not> int4 (j_Attempt j + 1)"
  proof -
    have "j \<in> set (jobs_table d) \<and> j_ID j = jid" by (rule row_of_SomeD [OF assms(2)])
    moreover have "x = j" if "x \<in> set (jobs_table d)" "j_ID x = jid" for x
      using row_of_distinct [OF assms(1) that(1)] assms(2) that(2) by simp
    ultimately show ?thesis unfolding list_ex_iff claimable_def by blast
  qed
  then show ?thesis
    unfolding claim_job_stmt_def start_stmt_def
    using filter_row_of [OF assms, of ?q] update_where_row [OF assms, of ?q]
    by (auto simp: returning_def query_row_def update_jobs_def claimable_def)
qed

lemma claim_job_stmt_missing:
  "job_row jid d = None \<Longrightarrow> claim_job_stmt jid wid now d = (Inl ErrNoRows, d)"
proof -
  assume none: "job_row jid d = None"
  then have no: "j_ID x \<noteq> jid" if "x \<in> set (jobs_table d)" for x
    using that by (auto simp: row_of_None)
  then have "update_where (\<lambda>x. j_ID x = jid \<and> q x) f (jobs_table d) = jobs_table d" for q f
    by (intro update_where_none) blast
  moreover have "\<not> list_ex (\<lambda>x. (j_ID x = jid \<and> q x) \<and> r x) (jobs_table d)" for q r
    using no by (auto simp: list_ex_iff)
  moreover have "filter (\<lambda>x. j_ID x = jid \<and> q x) (jobs_table d) = []" for q
    using no by (auto simp: filter_empty_conv)
  ultimately show ?thesis
    by (simp add: claim_job_stmt_def start_stmt_def returning_def query_row_def update_jobs_def)
qed

lemma record_failure_row:
  assumes "distinct (map j_ID (jobs_table d))" and "job_row jid d = Some j"
  shows "record_failure_stmt jid e nxt now d =
    (Inr (j_Status (fail_job e nxt now j)), set_job jid (fail_job e nxt now) d)"
  using filter_row_of [OF assms, of "\<lambda>_. True"]
  by (simp add: record_failure_stmt_def returning_def query_row_def)

section \<open>How a row may change\<close>

lemma unique_row:
  "distinct (map j_ID js) \<Longrightarrow> j \<in> set js \<Longrightarrow> k \<in> set js \<Longrightarrow> j_ID j = j_ID k \<Longrightarrow> j = k"
  by (auto simp: distinct_map inj_on_def)

lemma db_step_row:
  assumes "db_step d d'" and "db_ok d" and "j \<in> set (jobs_table d)"
    and "j' \<in> set (jobs_table d')" and "j_ID j' = j_ID j"
  shows "same_request j j' \<and> (j' = j \<or> job_move j j')"
proof -
  have dist: "distinct (map j_ID (jobs_table d))" "distinct (map j_ID (jobs_table d'))"
    using assms(2) db_ok_step [OF assms(1,2)] by (simp_all add: db_ok_def jobs_ok_def)
  from jobs_step_request [OF db_step_jobs [OF assms(1) dist(1)] assms(3)]
  obtain k where k: "k \<in> set (jobs_table d')" "same_request j k" "k = j \<or> job_move j k" by blast
  have "j_ID k = j_ID j" using k(2) by (simp only: same_request_def)
  then have "k = j'" using unique_row [OF dist(2) k(1) assms(4)] assms(5) by simp
  with k show ?thesis by blast
qed

lemma job_move_graph:
  assumes "job_move j j'"
  shows "(case j_Status j' of
       JobStatusRunning \<Rightarrow>
         j_Status j \<in> {JobStatusQueued, JobStatusRetrying} \<and> j_Attempt j' = j_Attempt j + 1
     | JobStatusQueued \<Rightarrow>
         j_Status j \<in> {JobStatusRunning, JobStatusRetrying} \<and> j_Attempt j' = j_Attempt j \<or>
         j_Status j \<in> {JobStatusDeadLetter, JobStatusFailed} \<and> j_Attempt j' = 0
     | JobStatusCancelled \<Rightarrow>
         j_Status j \<in> {JobStatusQueued, JobStatusRunning} \<and> j_Attempt j' = j_Attempt j
     | JobStatusRetrying \<Rightarrow> j_Attempt j' = j_Attempt j \<and> j_Attempt j' < j_MaxAttempts j'
     | JobStatusDeadLetter \<Rightarrow> j_Attempt j' = j_Attempt j \<and> j_MaxAttempts j' \<le> j_Attempt j'
     | JobStatusTimeout \<Rightarrow> False
     | _ \<Rightarrow> j_Attempt j' = j_Attempt j)"
  using assms
proof cases
  case (Fail e nextRunAt now)
  then show ?thesis by (cases "j_Attempt j < j_MaxAttempts j") (simp_all add: fail_job_def)
qed (simp_all add: run_job_def reset_job_def succeed_job_def)


lemma demo_job_fields [simp]:
  "j_ID (demo_job u p) = u" "j_Status (demo_job u p) = JobStatusQueued" "j_Attempt (demo_job u p) = 0"
  "j_MaxAttempts (demo_job u p) = 3" "j_Type (demo_job u p) = ''email''" "j_Payload (demo_job u p) = ''{}''"
  "j_IdempotencyKey (demo_job u p) = None" "j_Priority (demo_job u p) = p" "j_Queue (demo_job u p) = ''default''"
  "j_WorkerID (demo_job u p) = None" "j_CompletedAt (demo_job u p) = None" "j_RunAt (demo_job u p) = 0"
  by (simp_all add: demo_job_def)

lemma db_ok_demo: "db_ok (empty_db\<lparr>jobs_table := [demo_job 7 1]\<rparr>)"
  by (simp add: db_ok_def empty_db_def jobs_ok_def tasks_ok_def task_jobs_ok_def task_deps_def
      acyclic_def job_ok_def JobStatus_IsTerminal_def int4_def)


lemma db_steps_row:
  assumes "db_step\<^sup>*\<^sup>* d d'" and "db_ok d" and "j \<in> set (jobs_table d)"
  shows "\<exists>j' \<in> set (jobs_table d'). same_request j j'"
  using assms
proof (induction rule: rtranclp_induct)
  case base
  then show ?case by (auto simp: same_request_def)
next
  case (step d1 d2)
  then obtain j1 where j1: "j1 \<in> set (jobs_table d1)" "same_request j j1" by blast
  have "distinct (map j_ID (jobs_table d1))"
    using db_ok_steps [OF step.hyps(1) step.prems(1)] by (simp add: db_ok_def jobs_ok_def)
  from jobs_step_request [OF db_step_jobs [OF step.hyps(2) this] j1(1)] j1(2)
  show ?case by (auto simp: same_request_def)
qed

text \<open>
  A job, once created, is never lost from the database: through any activities of any
  processes and any faults exactly one row keeps its identifier, with the type, payload, priority,
  attempt limit, idempotency key and queue it was created with.
\<close>

theorem job_persists:
  assumes "\<And>d. mset (ord d) = mset d" and "others_statements E" and "db_ok (db w)"
    and "\<forall>a \<in> set acts. \<forall>q \<in> set (queues_of a). q = RedisQueue R U E"
    and "j \<in> set (jobs_table (db w))"
  shows "\<exists>!j'. j' \<in> set (jobs_table (db (snd (run_state (perform_all ord U E acts) w)))) \<and>
    j_ID j' = j_ID j \<and> same_request j j'"
proof -
  let ?d = "db (snd (run_state (perform_all ord U E acts) w))"
  note steps = activities_statements [where w = w and U = U, OF assms(1,2,4)]
  obtain j' where "j' \<in> set (jobs_table ?d)" "same_request j j'"
    using db_steps_row [OF steps assms(3,5)] by blast
  moreover have "distinct (map j_ID (jobs_table ?d))"
    using db_ok_steps [OF steps assms(3)] by (simp add: db_ok_def jobs_ok_def)
  ultimately show ?thesis
    using unique_row [of "jobs_table ?d"] by (intro ex1I [of _ j']) (auto simp: same_request_def)
qed

definition demo_jobs_world :: "zlist world" where
  "demo_jobs_world = demo_world\<lparr>db := empty_db\<lparr>jobs_table := [demo_job 7 1]\<rparr>\<rparr>"

theorem job_persists_witness:
  "\<exists>!j'. j' \<in> set (jobs_table (db (snd (run_state
      (perform_all rev hex_uuid_ops quiet_env demo_acts) demo_jobs_world)))) \<and>
    j_ID j' = 7 \<and> same_request (demo_job 7 1) j'"
  using job_persists [where ord = rev and w = demo_jobs_world and j = "demo_job 7 1"
      and U = hex_uuid_ops, OF _ reliable_others [OF reliable_quiet_env] _ demo_acts_queues]
  by (simp add: demo_jobs_world_def db_ok_demo)

section \<open>Idempotent creation\<close>

lemma distinct_keys_Cons:
  assumes "distinct (filter (\<lambda>k. k \<noteq> None) (map f (x # xs)))" and "f x = Some key" and "y \<in> set xs"
  shows "f y \<noteq> Some key"
proof
  assume "f y = Some key"
  then have "Some key \<in> f ` set xs" using assms(3) by (metis image_eqI)
  then show False using assms(1,2) by simp
qed

lemma unique_key:
  assumes "distinct (filter (\<lambda>k. k \<noteq> None) (map f js))"
    and "j \<in> set js" and "k \<in> set js" and "f j = Some key" and "f k = Some key"
  shows "j = k"
  using assms
proof (induction js)
  case (Cons x xs)
  have rest: "distinct (filter (\<lambda>k. k \<noteq> None) (map f xs))" using Cons.prems(1) by (simp split: if_splits)
  consider "j = x" "k = x" | "j = x" "k \<in> set xs" | "k = x" "j \<in> set xs" | "j \<in> set xs" "k \<in> set xs"
    using Cons.prems(2,3) by auto
  then show ?case
  proof cases
    case 2
    then show ?thesis using distinct_keys_Cons [OF Cons.prems(1)] Cons.prems(4,5) by blast
  next
    case 3
    then show ?thesis using distinct_keys_Cons [OF Cons.prems(1)] Cons.prems(4,5) by blast
  next
    case 4
    then show ?thesis using Cons.IH [OF rest] Cons.prems(4,5) by blast
  qed simp
qed simp

lemma find_key_reply:
  assumes "others_statements E" and "db_ok (db w)" and "j \<in> set (jobs_table (db w))"
    and "j_IdempotencyKey j = Some key" and run: "run_state (findByIdempotencyKey E key) w = (r, w')"
  shows "r = Inl ErrIO \<and> db w' = db (settle E w) \<or>
    (\<exists>j'. r = Inr (Some j') \<and> same_request j j' \<and> db w' = db (settle E w))"
proof -
  let ?d = "db (settle E w)" and ?f = "filter (\<lambda>j. j_IdempotencyKey j = Some key)"
  have steps: "db_step\<^sup>*\<^sup>* (db w) ?d"
    using assms(1) unfolding others_statements_def settle_def by (auto split: prod.split) (metis fst_conv)
  obtain j1 where j1: "j1 \<in> set (jobs_table ?d)" "same_request j j1"
    using db_steps_row [OF steps assms(2,3)] by blast
  then have key1: "j_IdempotencyKey j1 = Some key" using assms(4) by (simp only: same_request_def)
  have dist: "distinct (filter (\<lambda>k. k \<noteq> None) (map j_IdempotencyKey (jobs_table ?d)))"
    using db_ok_steps [OF steps assms(2)] by (simp add: db_ok_def jobs_ok_def)
  obtain x xs where x: "?f (jobs_table ?d) = x # xs"
    using j1(1) key1 by (cases "?f (jobs_table ?d)") (auto simp: filter_empty_conv)
  then have "x \<in> set (?f (jobs_table ?d))" by simp
  then have "x = j1" using unique_key [OF dist _ j1(1) _ key1] by simp
  with x have q: "query_row (?f (jobs_table ?d)) = Inr j1" by (simp add: query_row_def)
  obtain r0 where r0: "run_state (pg E (\<lambda>n d. (query_row (?f (jobs_table d)), d))) w = (r0, w')"
    and r: "r = no_rows_nil r0"
    using run unfolding findByIdempotencyKey_def by (auto split: prod.splits)
  have "r0 = Inr j1 \<and> db w' = db (settle E w) \<or> r0 = Inl ErrIO \<and> db w' = db (settle E w)"
    by (rule run_pg_cases [OF r0]) (auto simp: q)
  then show ?thesis
  proof
    assume "r0 = Inr j1 \<and> db w' = db (settle E w)"
    then have "r = Inr (Some j1)" "db w' = db (settle E w)" unfolding r by (simp_all add: no_rows_nil_def)
    with j1(2) show ?thesis by blast
  next
    assume "r0 = Inl ErrIO \<and> db w' = db (settle E w)"
    then show ?thesis unfolding r by (simp add: no_rows_nil_def)
  qed
qed

text \<open>
  C18. Submitting a job again under an idempotency key that a job already has never creates
  anything: whatever the new request says, whatever faults and other processes do, the reply is
  that same job, marked as a replay, or a failed call; and the call itself changes nothing.
\<close>

theorem JobStore_Create_replay:
  assumes "others_statements E" and "db_ok (db w)" and "j \<in> set (jobs_table (db w))"
    and "j_IdempotencyKey j = Some key" and "cj_IdempotencyKey req = Some key"
    and "run_state (JobStore_Create E req) w = (r, w')"
  shows "db w' = db (settle E w) \<and>
    (r = Inl ErrIO \<or> (\<exists>j'. r = Inr (j', False) \<and> same_request j j'))"
proof -
  obtain r1 w1 where r1: "run_state (findByIdempotencyKey E key) w = (r1, w1)" by fastforce
  note run = assms(6) [unfolded JobStore_Create_def Let_def assms(5), simplified]
  show ?thesis using find_key_reply [OF assms(1-4) r1]
  proof
    assume "r1 = Inl ErrIO \<and> db w1 = db (settle E w)"
    with run r1 show ?thesis by simp
  next
    assume "\<exists>j'. r1 = Inr (Some j') \<and> same_request j j' \<and> db w1 = db (settle E w)"
    then obtain j' where "r1 = Inr (Some j')" "same_request j j'" "db w1 = db (settle E w)" by blast
    with run r1 show ?thesis by (simp del: split_paired_Ex) blast
  qed
qed

definition keyed_job :: job where
  "keyed_job = (demo_job 7 1)\<lparr>j_IdempotencyKey := Some ''k''\<rparr>"

definition keyed_request :: create_job_request where
  "keyed_request = \<lparr>cj_Type = ''report'', cj_Payload = None, cj_Priority = None,
     cj_MaxAttempts = None, cj_IdempotencyKey = Some ''k'', cj_Queue = None\<rparr>"

lemma db_ok_keyed: "db_ok (empty_db\<lparr>jobs_table := [keyed_job]\<rparr>)"
  by (simp add: keyed_job_def db_ok_def empty_db_def jobs_ok_def tasks_ok_def task_jobs_ok_def
      task_deps_def acyclic_def job_ok_def JobStatus_IsTerminal_def int4_def)

theorem JobStore_Create_replay_witness:
  "\<exists>r w'. run_state (JobStore_Create quiet_env keyed_request)
      (demo_world\<lparr>db := empty_db\<lparr>jobs_table := [keyed_job]\<rparr>\<rparr>) = (r, w') \<and>
    (r = Inl ErrIO \<or> (\<exists>j'. r = Inr (j', False) \<and> same_request keyed_job j'))"
proof -
  let ?w = "demo_world\<lparr>db := empty_db\<lparr>jobs_table := [keyed_job]\<rparr>\<rparr>"
  obtain r w' where run: "run_state (JobStore_Create quiet_env keyed_request) ?w = (r, w')" by fastforce
  have "db_ok (db ?w)" "keyed_job \<in> set (jobs_table (db ?w))" by (simp_all add: db_ok_keyed)
  moreover have "j_IdempotencyKey keyed_job = Some ''k''" "cj_IdempotencyKey keyed_request = Some ''k''"
    by (simp_all add: keyed_job_def keyed_request_def)
  ultimately have "r = Inl ErrIO \<or> (\<exists>j'. r = Inr (j', False) \<and> same_request keyed_job j')"
    by (rule conjunct2 [OF JobStore_Create_replay
          [OF reliable_others [OF reliable_quiet_env] _ _ _ _ run]])
  then show ?thesis using run by (intro exI conjI)
qed

end
