(* ===== verification/Attempt_Props.thy ===== *)
theory Attempt_Props
  imports Job_Props
begin

text \<open>
  One attempt of one job, and the deliveries of a job one after another: what \<open>processJob\<close> does to
  the row of the job, to the other rows and to the queue when no call fails, and why a job
  reaches a terminal status after at most \<open>max_attempts\<close> deliveries.
\<close>

section \<open>A queue without faults and without other processes\<close>

locale quiet_queue = dispatch_queue E Q view ok
  for E :: "'z env" and Q :: "'z world queue_iface" and view ok +
  assumes quiet: "reliable E"
begin

lemma one_call_quiet: "one_call E w w' \<Longrightarrow> db w' = db w"
  by (simp add: one_call_def settle_reliable [OF quiet])

lemma view_quiet: "view (settle E w) = view w"
  by (rule view_frame) (simp add: settle_reliable [OF quiet])

lemma fault_quiet: "fault E n = Delivered"
  using quiet by (simp add: reliable_def)

lemma ack_quiet:
  assumes "ok w" and "run_state (q_Ack Q n u) w = (r, w')"
  shows "ok w' \<and> db w' = db w \<and> view w' = v_ack (queue_name n) u (view w)"
  using ack [OF assms] by (simp add: one_call_quiet view_quiet delivers_def fault_quiet)

lemma enqueue_quiet:
  assumes "j_ID j \<noteq> uuid_Nil" and "ok w" and "run_state (q_Enqueue Q (Some j)) w = (r, w')"
  shows "ok w' \<and> db w' = db w \<and> r = Inr () \<and> view w' = v_enqueue j (view w)"
  using enqueue [OF assms] by (simp add: one_call_quiet view_quiet delivers_def fault_quiet)

lemma remove_worker_quiet:
  assumes "ok w" and "run_state (q_RemoveWorker Q wid) w = (r, w')"
  shows "ok w' \<and> db w' = db w \<and> view w' = view w"
  using remove_worker [OF assms] assms(1) by (auto simp: one_call_quiet view_quiet)

lemma ok_same_redis: "ok w \<Longrightarrow> rds w' = rds w \<Longrightarrow> ok w'"
  using ok_frame [of w' w] by simp

end

section \<open>What the job statements do when nothing fails\<close>

definition failure_delay :: "'z env \<Rightarrow> nat \<Rightarrow> int \<Rightarrow> duration" where
  "failure_delay E k attempt = CalculateBackoff (random E k) attempt DefaultBaseDelay DefaultMaxDelay"

lemma run_when_workers:
  assumes "reliable E" and "\<And>w. \<exists>r d. run_state m w = (r, w\<lparr>tick := Suc (tick w), db := d\<rparr>) \<and>
      jobs_table d = jobs_table (db w)"
  shows "\<exists>k d. tick w \<le> k \<and> run_state (when_workers W m) w = ((), w\<lparr>tick := k, db := d\<rparr>) \<and>
      jobs_table d = jobs_table (db w)"
proof (cases "wk_Workers W")
  case True
  obtain r d where rd: "run_state m w = (r, w\<lparr>tick := Suc (tick w), db := d\<rparr>)"
    "jobs_table d = jobs_table (db w)" using assms(2) by blast
  show ?thesis
    by (rule exI [of _ "Suc (tick w)"], rule exI [of _ d]) (simp add: when_workers_def True rd)
next
  case False
  show ?thesis
    by (rule exI [of _ "tick w"], rule exI [of _ "db w"]) (simp add: when_workers_def False)
qed

text \<open>The worker's counters: one statement each, on the worker table alone.\<close>

lemma run_IncrementFailed:
  assumes "reliable E"
  shows "\<exists>r d. run_state (WorkerStore_IncrementFailed E wid) w = (r, w\<lparr>tick := Suc (tick w), db := d\<rparr>) \<and>
    jobs_table d = jobs_table (db w)"
  by (rule exI [of _ "fst (increment_failed_stmt wid (clock E (tick w)) (db w))"],
      rule exI [of _ "snd (increment_failed_stmt wid (clock E (tick w)) (db w))"])
    (simp add: WorkerStore_IncrementFailed_def run_pg_reliable [OF assms] split_beta increment_failed_stmt_def)

lemma run_IncrementCompleted:
  assumes "reliable E"
  shows "\<exists>r d. run_state (WorkerStore_IncrementCompleted E wid) w = (r, w\<lparr>tick := Suc (tick w), db := d\<rparr>) \<and>
    jobs_table d = jobs_table (db w)"
  by (rule exI [of _ "fst (increment_completed_stmt wid (clock E (tick w)) (db w))"],
      rule exI [of _ "snd (increment_completed_stmt wid (clock E (tick w)) (db w))"])
    (simp add: WorkerStore_IncrementCompleted_def run_pg_reliable [OF assms] split_beta increment_completed_stmt_def)

lemma run_resolve_failure:
  assumes "reliable E"
  shows "\<exists>k w'. tick w \<le> k \<and> run_state (resolve_failure E W job msg elapsed) w = ((), w') \<and>
    rds w' = rds w \<and> jobs_table (db w') = update_where (\<lambda>j. j_ID j = j_ID job)
      (fail_job msg (clock E (Suc k) + failure_delay E k (j_Attempt job)) (clock E (k + 2)))
      (jobs_table (db w))"
proof -
  obtain k d where k: "tick w \<le> k" "jobs_table d = jobs_table (db w)"
    and run: "run_state (when_workers W (WorkerStore_IncrementFailed E (wk_ID W))) w =
      ((), w\<lparr>tick := k, db := d\<rparr>)"
    using run_when_workers [OF assms run_IncrementFailed [OF assms]] by blast
  show ?thesis
    by (rule exI [of _ k]) (simp add: resolve_failure_def run run_rand_Float64 run_time_Now k
      JobStore_RecordFailure_def run_pg_reliable [OF assms] record_failure_stmt_def failure_delay_def Let_def)
qed

lemma run_resolve_success:
  assumes "reliable E"
  shows "\<exists>now w'. run_state (resolve_success E W job elapsed) w = ((), w') \<and>
    rds w' = rds w \<and> jobs_table (db w') = update_where (\<lambda>j. j_ID j = j_ID job) (succeed_job now)
      (jobs_table (db w))"
proof -
  let ?now = "clock E (tick w)"
  let ?w = "w\<lparr>tick := Suc (tick w), db := snd (mark_succeeded_stmt (j_ID job) ?now (db w)),
    observed := observed w @ RecordJobFinished (j_Type job) (job_status_text JobStatusSucceeded) elapsed\<rparr>"
  obtain k d where run: "run_state (when_workers W (WorkerStore_IncrementCompleted E (wk_ID W))) ?w =
      ((), ?w\<lparr>tick := k, db := d\<rparr>)" and d: "jobs_table d = jobs_table (db ?w)"
    using run_when_workers [OF assms run_IncrementCompleted [OF assms]] by blast
  show ?thesis
    by (rule exI [of _ ?now], rule exI [of _ "?w\<lparr>tick := k, db := d\<rparr>"])
      (use run d in \<open>simp add: resolve_success_def JobStore_MarkSucceeded_def run_pg_reliable [OF assms]
        mark_succeeded_stmt_def\<close>)
qed

section \<open>The row after one attempt\<close>

text \<open>
  \<open>attempt_outcome E h n j j'\<close>: the row \<open>j\<close>, claimed by call number \<open>n\<close> for a worker whose handler for
  its type is \<open>h\<close>, is \<open>j'\<close> when the attempt is over.
\<close>

definition no_handler_text :: "string \<Rightarrow> string" where
  "no_handler_text ty = ''no handler registered for job type '' @ strconv_Quote ty"

definition attempt_outcome :: "'z env \<Rightarrow> handler_func option \<Rightarrow> nat \<Rightarrow> job \<Rightarrow> job \<Rightarrow> bool" where
  "attempt_outcome E h n j j' \<longleftrightarrow>
     same_request j j' \<and> j_Attempt j' = j_Attempt j + 1 \<and>
     (case h of
        None \<Rightarrow> j_Status j' = JobStatusFailed \<and> j_Error j' = Some (no_handler_text (j_Type j))
      | Some f \<Rightarrow>
          (case f (j_Payload j) (n + 2) of
             None \<Rightarrow> j_Status j' = JobStatusSucceeded \<and> j_Error j' = None
           | Some msg \<Rightarrow> j_Error j' = Some msg \<and> j_WorkerID j' = None \<and>
               (if j_Attempt j + 1 < j_MaxAttempts j
                then j_Status j' = JobStatusRetrying \<and>
                  (\<exists>k \<ge> n. j_RunAt j' = clock E (Suc k) + failure_delay E k (j_Attempt j + 1))
                else j_Status j' = JobStatusDeadLetter)))"

lemma outcome_no_handler:
  "attempt_outcome E None n j ((run_job wid t j)\<lparr>j_Status := JobStatusFailed,
     j_CompletedAt := Some now, j_UpdatedAt := now, j_Error := Some (no_handler_text (j_Type j))\<rparr>)"
  by (simp add: attempt_outcome_def run_job_def same_request_def)

lemma outcome_success:
  "f (j_Payload j) (n + 2) = None \<Longrightarrow>
   attempt_outcome E (Some f) n j (succeed_job now (run_job wid t j))"
  by (simp add: attempt_outcome_def run_job_def succeed_job_def same_request_def)

lemma outcome_failure:
  "f (j_Payload j) (n + 2) = Some msg \<Longrightarrow> n \<le> k \<Longrightarrow>
   attempt_outcome E (Some f) n j
     (fail_job msg (clock E (Suc k) + failure_delay E k (j_Attempt j + 1)) now (run_job wid t j))"
  by (auto simp: attempt_outcome_def run_job_def fail_job_def same_request_def)

lemma run_ClaimJob:
  assumes "reliable E"
  shows "run_state (JobStore_ClaimJob E jid wid) w =
    (no_rows_nil (fst (claim_job_stmt jid wid (clock E (tick w)) (db w))),
     w\<lparr>tick := Suc (tick w), db := snd (claim_job_stmt jid wid (clock E (tick w)) (db w))\<rparr>)"
  by (simp add: JobStore_ClaimJob_def run_pg_reliable [OF assms] split_beta)

lemma set_row_const:
  assumes "distinct (map j_ID (jobs_table d))" and "job_row jid d = Some j" and "j_ID (g j) = jid"
  shows "update_where (\<lambda>x. j_ID x = jid) g (jobs_table d) = update_where (\<lambda>x. j_ID x = jid) (\<lambda>_. g j) (jobs_table d)"
proof -
  have "x = j" if "x \<in> set (jobs_table d)" "j_ID x = jid" for x
    using row_of_distinct [OF assms(1) that(1)] assms(2) that(2) by simp
  then show ?thesis by (auto simp: update_where_def)
qed

lemma update_where_twice:
  "(\<And>x. p x \<Longrightarrow> p (f x)) \<Longrightarrow> update_where p g (update_where p f rs) = update_where p (\<lambda>x. g (f x)) rs"
  by (induction rs) auto

context quiet_queue
begin

lemma run_attempt_quiet:
  assumes okw: "ok w" and dist: "distinct (map j_ID (jobs_table d))" and row: "job_row jid d = Some j"
    and jobs: "jobs_table (db w) = update_where (\<lambda>x. j_ID x = jid) (run_job wid t) (jobs_table d)"
    and n: "tick w = Suc n" and run: "run_state (run_attempt E W (run_job wid t j) f) w = (u, w')"
    and Q: "wk_Q W = Q"
  shows "ok w' \<and> (\<exists>j'. attempt_outcome E (Some f) n j j' \<and>
      jobs_table (db w') = update_where (\<lambda>x. j_ID x = jid) (\<lambda>_. j') (jobs_table d)) \<and>
    view w' = v_ack (queue_name (wk_QueueName W)) jid (view w)"
proof -
  have jid: "j_ID j = jid" using row_of_SomeD [OF row] by simp
  have pay: "j_Payload (run_job wid t j) = j_Payload j" "j_Attempt (run_job wid t j) = j_Attempt j + 1"
    by (simp_all add: run_job_def)
  let ?w = "w\<lparr>tick := tick w + 3\<rparr>"
  let ?el = "clock E (tick w + 2) - clock E (tick w)"
  have finish: "ok w' \<and> jobs_table (db w') = jobs_table (db w2) \<and>
      view w' = v_ack (queue_name (wk_QueueName W)) jid (view w)"
    if r: "rds w2 = rds w" and q: "run_state (q_Ack Q (wk_QueueName W) jid) w2 = (x, w')" for w2 x
    using ack_quiet [OF ok_same_redis [OF okw r] q] view_frame [OF r] by simp
  have twice: "update_where (\<lambda>x. j_ID x = jid) g (jobs_table (db w)) =
      update_where (\<lambda>x. j_ID x = jid) (\<lambda>_. g (run_job wid t j)) (jobs_table d)"
    if "\<And>x. j_ID (g x) = j_ID x" for g
    unfolding jobs
    by (subst update_where_twice, simp, rule set_row_const [OF dist row]) (simp add: that jid)
  show ?thesis
  proof (cases "f (j_Payload j) (n + 2)")
    case None
    obtain now w2 where w2: "run_state (resolve_success E W (run_job wid t j) ?el) ?w = ((), w2)"
      "rds w2 = rds ?w" "jobs_table (db w2) = update_where (\<lambda>j. j_ID j = jid) (succeed_job now) (jobs_table (db w))"
      using run_resolve_success [OF quiet, of W "run_job wid t j" ?el ?w] jid by auto
    obtain x where "run_state (q_Ack Q (wk_QueueName W) jid) w2 = (x, w')"
      using run w2(1) None n Q by (auto simp: run_attempt_def run_time_Now exec_handler_def pay jid
        numeral_3_eq_3 split: prod.splits)
    from finish [OF _ this] w2(2,3) twice [of "succeed_job now"] outcome_success [where f = f and j = j and n = n, OF None]
    show ?thesis by (auto intro!: exI [of _ "succeed_job now (run_job wid t j)"])
  next
    case (Some msg)
    obtain k w2 where w2: "tick ?w \<le> k"
      "run_state (resolve_failure E W (run_job wid t j) msg ?el) ?w = ((), w2)"
      "rds w2 = rds ?w" "jobs_table (db w2) = update_where (\<lambda>j. j_ID j = jid)
        (fail_job msg (clock E (Suc k) + failure_delay E k (j_Attempt j + 1)) (clock E (k + 2)))
        (jobs_table (db w))"
      using run_resolve_failure [OF quiet, of ?w W "run_job wid t j" msg ?el] jid pay by auto
    obtain x where "run_state (q_Ack Q (wk_QueueName W) jid) w2 = (x, w')"
      using run w2(2) Some n Q by (auto simp: run_attempt_def run_time_Now exec_handler_def pay jid
        numeral_3_eq_3 split: prod.splits)
    from finish [OF _ this] w2(3,4)
      twice [of "fail_job msg (clock E (Suc k) + failure_delay E k (j_Attempt j + 1)) (clock E (k + 2))"]
      outcome_failure [where f = f and j = j and n = n and k = k, OF Some] w2(1) n
    show ?thesis
      by (auto intro!: exI [of _ "fail_job msg (clock E (Suc k) + failure_delay E k (j_Attempt j + 1))
        (clock E (k + 2)) (run_job wid t j)"])
  qed
qed

lemma processJob_no_handler:
  assumes okw: "ok w" and dist: "distinct (map j_ID (jobs_table (db w)))" and row: "job_row jid (db w) = Some j"
    and can: "claimable j" "int4 (j_Attempt j + 1)" and none: "wk_Handlers W (j_Type j) = None"
    and Q: "wk_Q W = Q" and run: "run_state (processJob E W jid) w = (u, w')"
  shows "ok w' \<and> (\<exists>j'. attempt_outcome E None (tick w) j j' \<and>
      jobs_table (db w') = update_where (\<lambda>x. j_ID x = jid) (\<lambda>_. j') (jobs_table (db w))) \<and>
    view w' = v_ack (queue_name (wk_QueueName W)) jid (view w)"
proof -
  have jid: "j_ID j = jid" using row_of_SomeD [OF row] by simp
  let ?t = "clock E (tick w)" and ?now = "clock E (Suc (tick w))"
  let ?fail = "\<lambda>j. j\<lparr>j_Status := JobStatusFailed, j_CompletedAt := Some ?now, j_UpdatedAt := ?now,
      j_Error := Some (no_handler_text (j_Type j))\<rparr>"
  let ?d = "set_job jid (\<lambda>x. (run_job (wk_ID W) ?t x)\<lparr>j_Status := JobStatusFailed,
      j_CompletedAt := Some ?now, j_UpdatedAt := ?now, j_Error := Some (no_handler_text (j_Type j))\<rparr>) (db w)"
  let ?w1 = "w\<lparr>tick := Suc (Suc (tick w)), db := ?d\<rparr>"
  obtain k d where kd: "run_state (when_workers W (WorkerStore_IncrementFailed E (wk_ID W))) ?w1 =
      ((), ?w1\<lparr>tick := k, db := d\<rparr>)" "jobs_table d = jobs_table ?d"
    using run_when_workers [where w = ?w1 and W = W, OF quiet run_IncrementFailed [where wid = "wk_ID W", OF quiet]] by auto
  have ty: "j_Type (run_job (wk_ID W) ?t j) = j_Type j" by (simp add: run_job_def)
  obtain x where x: "run_state (q_Ack Q (wk_QueueName W) jid) (?w1\<lparr>tick := k, db := d\<rparr>) = (x, w')"
    using run kd(1) Q none
    by (auto simp: processJob_def run_ClaimJob [OF quiet] claim_job_stmt_row [OF dist row] can ty jid
        no_rows_nil_def JobStore_MarkFailed_def run_pg_reliable [OF quiet] mark_failed_stmt_def
        set_job_twice no_handler_text_def split: prod.splits)
  have "rds (?w1\<lparr>tick := k, db := d\<rparr>) = rds w" by simp
  note same = ok_same_redis [OF okw this] view_frame [OF this]
  have "jobs_table ?d = update_where (\<lambda>x. j_ID x = jid) (\<lambda>_. ?fail (run_job (wk_ID W) ?t j)) (jobs_table (db w))"
    using set_row_const [OF dist row, of "\<lambda>x. (run_job (wk_ID W) ?t x)\<lparr>j_Status := JobStatusFailed,
      j_CompletedAt := Some ?now, j_UpdatedAt := ?now, j_Error := Some (no_handler_text (j_Type j))\<rparr>"] jid
    by (simp add: ty)
  then show ?thesis
    using ack_quiet [OF same(1) x] same(2) kd(2)
      outcome_no_handler [where E = E and n = "tick w" and j = j and wid = "wk_ID W" and t = ?t and now = ?now]
    by (auto simp: ty intro!: exI [of _ "?fail (run_job (wk_ID W) ?t j)"])
qed

lemma processJob_quiet:
  assumes okw: "ok w" and dist: "distinct (map j_ID (jobs_table (db w)))" and row: "job_row jid (db w) = Some j"
    and int4: "claimable j \<Longrightarrow> int4 (j_Attempt j + 1)" and Q: "wk_Q W = Q"
    and run: "run_state (processJob E W jid) w = (u, w')"
  shows "ok w' \<and> view w' = v_ack (queue_name (wk_QueueName W)) jid (view w) \<and>
    (if claimable j
     then \<exists>j'. attempt_outcome E (wk_Handlers W (j_Type j)) (tick w) j j' \<and>
       jobs_table (db w') = update_where (\<lambda>x. j_ID x = jid) (\<lambda>_. j') (jobs_table (db w))
     else db w' = db w)"
proof (cases "claimable j")
  case False
  then obtain x where "run_state (q_Ack Q (wk_QueueName W) jid) (w\<lparr>tick := Suc (tick w)\<rparr>) = (x, w')"
    using run Q by (auto simp: processJob_def run_ClaimJob [OF quiet] claim_job_stmt_row [OF dist row]
        no_rows_nil_def split: prod.splits)
  from ack_quiet [OF ok_same_redis [OF okw] this] view_frame [of "w\<lparr>tick := Suc (tick w)\<rparr>" w] False
  show ?thesis by simp
next
  case True
  show ?thesis
  proof (cases "wk_Handlers W (j_Type j)")
    case None
    from processJob_no_handler [OF okw dist row True int4 [OF True] None Q run] True None show ?thesis by simp
  next
    case (Some f)
    let ?t = "clock E (tick w)"
    let ?w1 = "w\<lparr>tick := Suc (tick w), db := set_job jid (run_job (wk_ID W) ?t) (db w)\<rparr>"
    have ty: "j_Type (run_job (wk_ID W) ?t j) = j_Type j" by (simp add: run_job_def)
    have run1: "run_state (run_attempt E W (run_job (wk_ID W) ?t j) f) ?w1 = (u, w')"
      using run Some by (simp add: processJob_def run_ClaimJob [OF quiet] claim_job_stmt_row [OF dist row]
          True int4 [OF True] no_rows_nil_def ty)
    have "ok ?w1" "view ?w1 = view w"
      using ok_same_redis [OF okw, of ?w1] view_frame [of ?w1 w] by simp_all
    with run_attempt_quiet [OF _ dist row _ _ run1 Q] True Some show ?thesis by simp
  qed
qed

end

section \<open>Deliveries of a job, one after another\<close>

text \<open>The workers \<open>Ws\<close> are handed the job in turn, one attempt each.\<close>

definition deliver_to :: "'z env \<Rightarrow> 'z world worker_proc list \<Rightarrow> uuid \<Rightarrow> ('z world, unit) state" where
  "deliver_to E Ws jid = for_each Ws () (\<lambda>W _. processJob E W jid)"

definition always_fails :: "job \<Rightarrow> 'w worker_proc \<Rightarrow> bool" where
  "always_fails j W \<longleftrightarrow>
     (\<exists>f. wk_Handlers W (j_Type j) = Some f \<and> (\<forall>n. f (j_Payload j) n \<noteq> None))"

definition attempts_left :: "job \<Rightarrow> bool" where
  "attempts_left j \<longleftrightarrow> 0 \<le> j_Attempt j \<and> j_Attempt j < j_MaxAttempts j \<and> int4 (j_MaxAttempts j)"

lemma set_row:
  assumes "distinct (map j_ID js)" and "row_of j_ID jid js = Some j" and "j_ID j' = jid"
  shows "distinct (map j_ID (update_where (\<lambda>x. j_ID x = jid) (\<lambda>_. j') js)) \<and>
    row_of j_ID jid (update_where (\<lambda>x. j_ID x = jid) (\<lambda>_. j') js) = Some j'"
  using assms row_of_SomeD [OF assms(2)] by (simp add: map_update_where row_of_update_where)

text \<open>After an attempt, the job is finished or may be delivered again; a failing one goes on.\<close>

lemma outcome_next:
  assumes "attempt_outcome E h n j j'" and "attempts_left j"
  shows "JobStatus_IsTerminal (j_Status j') \<and> j_Attempt j' \<le> j_MaxAttempts j \<or>
    j_Status j' = JobStatusRetrying \<and> attempts_left j'"
  using assms
  by (auto simp: attempt_outcome_def attempts_left_def JobStatus_IsTerminal_def same_request_def
      split: option.splits if_splits)

lemma outcome_failing:
  assumes "attempt_outcome E (wk_Handlers W (j_Type j)) n j j'" and "always_fails j W"
  shows "j_Status j' = (if j_Attempt j' < j_MaxAttempts j then JobStatusRetrying else JobStatusDeadLetter)"
proof -
  obtain f where f: "wk_Handlers W (j_Type j) = Some f" "\<forall>n. f (j_Payload j) n \<noteq> None"
    using assms(2) by (auto simp: always_fails_def)
  then obtain msg where "f (j_Payload j) (n + 2) = Some msg" by blast
  with assms(1) f(1) show ?thesis by (auto simp: attempt_outcome_def split: if_splits)
qed

lemma outcome_fields:
  assumes "attempt_outcome E h n j j'"
  shows "same_request j j'" "j_Attempt j' = j_Attempt j + 1" "j_ID j' = j_ID j"
    "j_MaxAttempts j' = j_MaxAttempts j" "j_Type j' = j_Type j" "j_Payload j' = j_Payload j"
  using assms by (simp_all add: attempt_outcome_def same_request_def)

lemma same_request_trans: "same_request j k \<Longrightarrow> same_request k l \<Longrightarrow> same_request j l"
  by (simp add: same_request_def)

context quiet_queue
begin

lemma deliver_finished:
  assumes "ok w" and "distinct (map j_ID (jobs_table (db w)))" and "job_row jid (db w) = Some j"
    and "JobStatus_IsTerminal (j_Status j)"
    and "\<forall>W \<in> set Ws. wk_Q W = Q" and "run_state (deliver_to E Ws jid) w = (u, w')"
  shows "db w' = db w"
  using assms
proof (induction Ws arbitrary: w)
  case (Cons W Ws)
  obtain w1 where w1: "run_state (processJob E W jid) w = ((), w1)" by (metis old.unit.exhaust surj_pair)
  have "\<not> claimable j"
    using Cons.prems(4) by (auto simp: claimable_def JobStatus_IsTerminal_def)
  with processJob_quiet [OF Cons.prems(1,2,3) _ _ w1] Cons.prems(5)
  have "ok w1" "db w1 = db w" by simp_all
  then show ?case
    using Cons.IH [of w1] Cons.prems w1 by (simp add: deliver_to_def)
qed (simp add: deliver_to_def)

lemma deliver_attempts:
  assumes "ok w" and "distinct (map j_ID (jobs_table (db w)))" and "job_row jid (db w) = Some j"
    and "claimable j" and "attempts_left j" and "\<forall>W \<in> set Ws. wk_Q W = Q"
    and "run_state (deliver_to E Ws jid) w = (u, w')"
  shows "\<exists>j'. job_row jid (db w') = Some j' \<and> same_request j j' \<and> j_Attempt j' \<le> j_MaxAttempts j \<and>
    (j_MaxAttempts j - j_Attempt j \<le> int (length Ws) \<longrightarrow> JobStatus_IsTerminal (j_Status j')) \<and>
    ((\<forall>W \<in> set Ws. always_fails j W) \<longrightarrow>
       j_Attempt j' = min (j_Attempt j + int (length Ws)) (j_MaxAttempts j) \<and>
       (j_MaxAttempts j - j_Attempt j \<le> int (length Ws) \<longrightarrow> j_Status j' = JobStatusDeadLetter))"
  using assms
proof (induction Ws arbitrary: w j)
  case Nil
  then show ?case by (auto simp: deliver_to_def attempts_left_def same_request_def)
next
  case (Cons W Ws)
  obtain w1 where w1: "run_state (processJob E W jid) w = ((), w1)" by (metis old.unit.exhaust surj_pair)
  have rest: "run_state (deliver_to E Ws jid) w1 = (u, w')"
    using Cons.prems(7) w1 by (simp add: deliver_to_def)
  have int4: "int4 (j_Attempt j + 1)" and jid: "j_ID j = jid"
    using Cons.prems(5) row_of_SomeD [OF Cons.prems(3)] by (auto simp: attempts_left_def int4_def)
  from processJob_quiet [OF Cons.prems(1-3) _ _ w1] int4 Cons.prems(4,6)
  obtain j1 where ok1: "ok w1" and j1: "attempt_outcome E (wk_Handlers W (j_Type j)) (tick w) j j1"
    and t1: "jobs_table (db w1) = update_where (\<lambda>x. j_ID x = jid) (\<lambda>_. j1) (jobs_table (db w))"
    by auto
  note f = outcome_fields [OF j1]
  have row: "distinct (map j_ID (jobs_table (db w1)))" "job_row jid (db w1) = Some j1"
    using set_row [OF Cons.prems(2,3), of j1] f(3) jid unfolding t1 by simp_all
  have fails: "always_fails j1 = always_fails j" by (rule ext) (simp add: always_fails_def f)
  show ?case
  proof (cases "j_Status j1 = JobStatusRetrying \<and> attempts_left j1")
    case True
    then have "claimable j1" by (simp add: claimable_def)
    from Cons.IH [OF ok1 row this _ _ rest] True Cons.prems(6)
    obtain j' where "job_row jid (db w') = Some j'" "same_request j1 j'" "j_Attempt j' \<le> j_MaxAttempts j"
      "j_MaxAttempts j - j_Attempt j1 \<le> int (length Ws) \<longrightarrow> JobStatus_IsTerminal (j_Status j')"
      "(\<forall>W \<in> set Ws. always_fails j W) \<longrightarrow>
         j_Attempt j' = min (j_Attempt j1 + int (length Ws)) (j_MaxAttempts j) \<and>
         (j_MaxAttempts j - j_Attempt j1 \<le> int (length Ws) \<longrightarrow> j_Status j' = JobStatusDeadLetter)"
      unfolding fails f(4) by auto
    then show ?thesis using same_request_trans [OF f(1)] f(2) by (intro exI [of _ j']) auto
  next
    case False
    then have fin: "JobStatus_IsTerminal (j_Status j1)" "j_Attempt j1 \<le> j_MaxAttempts j"
      using outcome_next [OF j1 Cons.prems(5)] by blast+
    then have "db w' = db w1"
      using deliver_finished [OF ok1 row fin(1) _ rest] Cons.prems(6) by simp
    then show ?thesis using row f fin outcome_failing [OF j1] by (auto simp: attempts_left_def JobStatus_IsTerminal_def)
  qed
qed

end

section \<open>On the Redis queue\<close>

lemma quiet_redis_queue:
  assumes "redis_server R U" and "reliable E"
  shows "quiet_queue E (RedisQueue R U E) (redis_view R U) (canonical_world R U)"
  using redis_queue.meets_contract [OF redis_queue_undisturbed [OF assms(1) undisturbed_reliable [OF assms(2)]]]
    assms(2) by (intro quiet_queue.intro quiet_queue_axioms.intro)

interpretation zr: quiet_queue quiet_env "RedisQueue zlist_ops hex_uuid_ops quiet_env"
  "redis_view zlist_ops hex_uuid_ops" "canonical_world zlist_ops hex_uuid_ops"
  by (rule quiet_redis_queue) (unfold_locales, simp)

lemma db_ok_ids: "db_ok d \<Longrightarrow> distinct (map j_ID (jobs_table d))"
  by (simp add: db_ok_def jobs_ok_def)

text \<open>
  C19. One attempt, when no call fails and nobody interferes. A job that may be claimed ends
  SUCCEEDED when its handler returns no error; with the error recorded and RETRYING, due after the
  backoff of this attempt, while attempts remain; DEAD_LETTER when they are used up; and FAILED
  when no handler is registered for its type. The attempt counter grows by one, no other row
  changes, and the delivery is acknowledged. A job that may not be claimed (already running
  elsewhere, finished, cancelled) is not run: the delivery is acknowledged and the database stays.
\<close>

theorem processJob_outcome:
  assumes "redis_server R U" and "reliable E" and "canonical_world R U w" and "db_ok (db w)"
    and "job_row jid (db w) = Some j" and "claimable j \<Longrightarrow> int4 (j_Attempt j + 1)"
    and "wk_Q W = RedisQueue R U E" and "run_state (processJob E W jid) w = (u, w')"
  shows "redis_view R U w' = v_ack (queue_name (wk_QueueName W)) jid (redis_view R U w) \<and>
    (if claimable j
     then \<exists>j'. attempt_outcome E (wk_Handlers W (j_Type j)) (tick w) j j' \<and>
       jobs_table (db w') = update_where (\<lambda>x. j_ID x = jid) (\<lambda>_. j') (jobs_table (db w))
     else db w' = db w)"
  using quiet_queue.processJob_quiet [OF quiet_redis_queue [OF assms(1,2)] assms(3)
      db_ok_ids [OF assms(4)] assms(5,6,7,8)] by blast

lemma demo_jobs_canonical: "canonical_world zlist_ops hex_uuid_ops demo_jobs_world"
  using zr.ok_same_redis [OF demo_canonical, of demo_jobs_world] by (simp add: demo_jobs_world_def)

lemma demo_jobs_row: "job_row 7 (db demo_jobs_world) = Some (demo_job 7 1)" "db_ok (db demo_jobs_world)"
  by (simp_all add: demo_jobs_world_def db_ok_demo)

lemma demo_worker_parts:
  "wk_Q demo_worker = RedisQueue zlist_ops hex_uuid_ops quiet_env"
  "wk_Handlers demo_worker ''email'' = Some (\<lambda>payload n. if n mod 2 = 0 then None else Some ''boom'')"
  by (simp_all add: demo_worker_def RegisterHandler_def NewWorker_def)

theorem processJob_outcome_witness:
  "\<exists>w' j'. run_state (processJob quiet_env demo_worker 7) demo_jobs_world = ((), w') \<and>
    jobs_table (db w') = [j'] \<and> j_Status j' = JobStatusSucceeded \<and> j_Attempt j' = 1"
proof -
  obtain w' where run: "run_state (processJob quiet_env demo_worker 7) demo_jobs_world = ((), w')"
    by (metis old.unit.exhaust surj_pair)
  have can: "claimable (demo_job 7 1)" by (simp add: claimable_def)
  have "int4 (j_Attempt (demo_job 7 1) + 1)" by (simp add: int4_def)
  from processJob_outcome [OF zl_hex.redis_server_axioms reliable_quiet_env demo_jobs_canonical
      demo_jobs_row(2,1) this demo_worker_parts(1) run] can
  obtain j' where "attempt_outcome (quiet_env :: zlist env) (wk_Handlers demo_worker ''email'')
        (tick demo_jobs_world) (demo_job 7 1) j'"
    and "jobs_table (db w') = update_where (\<lambda>x. j_ID x = 7) (\<lambda>_. j') (jobs_table (db demo_jobs_world))"
    unfolding demo_job_fields if_P [OF can] by blast
  then have "attempt_outcome (quiet_env :: zlist env) (wk_Handlers demo_worker ''email'') 0 (demo_job 7 1) j'"
    "jobs_table (db w') = [j']" by (simp_all add: demo_jobs_world_def demo_world_def)
  then show ?thesis using run by (auto simp: attempt_outcome_def demo_worker_parts)
qed


definition failing_worker :: "zlist world worker_proc" where
  "failing_worker = demo_worker\<lparr>wk_Handlers := [''email'' \<mapsto> (\<lambda>payload n. Some ''boom'')]\<rparr>"


end
