(* ===== verification/Recovery_Props.thy ===== *)
theory Recovery_Props
  imports Attempt_Props
begin

text \<open>
  What brings jobs back: the retry scheduler, which requeues the retries that are due, and the
  supervisor, which takes the jobs of dead workers and queues them again. Both change the
  database first and the queue afterwards; the lemmas say what holds of both when no call fails.
\<close>

lemma list_all2_right: "list_all2 P xs ys \<Longrightarrow> y \<in> set ys \<Longrightarrow> \<exists>x \<in> set xs. P x y"
  by (induction rule: list_all2_induct) auto

lemma list_all2_left: "list_all2 P xs ys \<Longrightarrow> x \<in> set xs \<Longrightarrow> \<exists>y \<in> set ys. P x y"
  by (induction rule: list_all2_induct) auto

section \<open>Enqueueing a list of jobs\<close>

lemma v_enqueue_waiting:
  "waiting (v_enqueue j v) n p = waiting v n p \<union>
     (if n = queue_name (j_Queue j) \<and> p = queue_priority (j_Priority j) then {j_ID j} else {})"
  by (auto simp: v_enqueue_def)

lemma fold_enqueue_waiting:
  "waiting (fold v_enqueue js v) n p = waiting v n p \<union>
     {j_ID j |j. j \<in> set js \<and> n = queue_name (j_Queue j) \<and> p = queue_priority (j_Priority j)}"
  by (induction js arbitrary: v) (auto simp: v_enqueue_waiting)

lemma fold_enqueue_inflight: "inflight (fold v_enqueue js v) = inflight v"
  by (induction js arbitrary: v) (simp_all add: v_enqueue_def)

context quiet_queue
begin

lemma enqueue_loop:
  assumes "ok w" and "\<forall>j \<in> set js. j_ID j \<noteq> uuid_Nil"
    and "run_state (for_each js c (\<lambda>job enqueued. do {
             e \<leftarrow> q_Enqueue Q (Some job);
             State_Monad.return (case e of Inl _ \<Rightarrow> enqueued | Inr _ \<Rightarrow> enqueued + 1)
           })) w = (c', w')"
  shows "ok w' \<and> db w' = db w \<and> c' = c + int (length js) \<and> view w' = fold v_enqueue js (view w)"
  using assms
proof (induction js arbitrary: w c)
  case (Cons j js)
  obtain r w1 where r: "run_state (q_Enqueue Q (Some j)) w = (r, w1)" by fastforce
  from enqueue_quiet [OF _ Cons.prems(1) r] Cons.prems(2)
  have "ok w1" "db w1 = db w" "r = Inr ()" "view w1 = v_enqueue j (view w)" by simp_all
  with Cons.IH [of w1 "c + 1"] Cons.prems r show ?case by simp
qed simp

lemma enqueue_loop_silent:
  assumes "ok w" and "\<forall>j \<in> set js. j_ID j \<noteq> uuid_Nil"
    and "run_state (for_each js () (\<lambda>job _. do {
             _ \<leftarrow> q_Enqueue Q (Some job);
             State_Monad.return ()
           })) w = (u, w')"
  shows "ok w' \<and> db w' = db w \<and> view w' = fold v_enqueue js (view w)"
  using assms
proof (induction js arbitrary: w)
  case (Cons j js)
  obtain r w1 where r: "run_state (q_Enqueue Q (Some j)) w = (r, w1)" by fastforce
  from enqueue_quiet [OF _ Cons.prems(1) r] Cons.prems(2)
  have "ok w1" "db w1 = db w" "view w1 = v_enqueue j (view w)" by simp_all
  with Cons.IH [of w1] Cons.prems r show ?case by simp
qed simp

end

section \<open>The retries that are due\<close>

definition retry_due :: "(uuid \<Rightarrow> bool) \<Rightarrow> time \<Rightarrow> job \<Rightarrow> bool" where
  "retry_due lockd now j \<longleftrightarrow> j_Status j = JobStatusRetrying \<and> j_RunAt j \<le> now \<and> \<not> lockd (j_ID j)"

text \<open>\<open>D\<close> is a choice of the \<open>limit\<close> due retries with the earliest times.\<close>

definition earliest_due :: "(uuid \<Rightarrow> bool) \<Rightarrow> time \<Rightarrow> nat \<Rightarrow> job list \<Rightarrow> uuid set \<Rightarrow> bool" where
  "earliest_due lockd now limit js D \<longleftrightarrow>
     (\<forall>u \<in> D. \<exists>j \<in> set js. j_ID j = u \<and> retry_due lockd now j) \<and>
     card D = min limit (length (filter (retry_due lockd now) js)) \<and>
     (\<forall>j \<in> set js. \<forall>k \<in> set js. j_ID k \<in> D \<and> retry_due lockd now j \<and> j_ID j \<notin> D \<longrightarrow>
        j_RunAt k \<le> j_RunAt j)"

lemma take_sort_key_le:
  assumes "x \<in> set (take n (sort_key f xs))" and "y \<in> set xs" and "y \<notin> set (take n (sort_key f xs))"
  shows "f x \<le> f y"
proof -
  have "sorted (map f (take n (sort_key f xs) @ drop n (sort_key f xs)))" by simp
  moreover have "y \<in> set (drop n (sort_key f xs))"
    using assms(2,3) by (metis Un_iff append_take_drop_id set_append set_sort)
  ultimately show ?thesis using assms(1) unfolding map_append sorted_append by auto
qed

lemma earliest_due_retries:
  assumes "distinct (map j_ID js)"
  shows "earliest_due lockd now (nat limit) js (set (due_retries lockd limit now js))"
proof -
  let ?f = "filter (retry_due lockd now) js"
  let ?t = "take (nat limit) (sort_key j_RunAt ?f)"
  have due: "due_retries lockd limit now js = map j_ID ?t"
    by (simp add: due_retries_def retry_due_def [abs_def])
  have "distinct (map j_ID (sort_key j_RunAt ?f))"
  proof -
    have "distinct (map j_ID ?f)" using assms by (simp add: distinct_map_filter)
    then show ?thesis by (simp add: distinct_map)
  qed
  then have "distinct (map j_ID ?t)" by (metis distinct_take take_map)
  then have card: "card (set (map j_ID ?t)) = min (nat limit) (length ?f)"
    using distinct_card by (simp add: distinct_card [OF \<open>distinct (map j_ID ?t)\<close>, simplified])
  have least: "j_RunAt k \<le> j_RunAt j"
    if jk: "j \<in> set js" "k \<in> set js" "j_ID k \<in> set (map j_ID ?t)" "retry_due lockd now j"
      "j_ID j \<notin> set (map j_ID ?t)" for j k
  proof -
    obtain k' where k': "k' \<in> set ?t" "j_ID k' = j_ID k" using jk(3) by auto
    then have "k' \<in> set js" by (auto dest: in_set_takeD)
    then have "k' = k" using unique_row [OF assms _ jk(2) k'(2)] by simp
    moreover have "j \<in> set ?f" "j \<notin> set ?t" using jk by auto
    ultimately show ?thesis using k'(1) by (intro take_sort_key_le [of k _ _ ?f]) simp_all
  qed
  have from_row: "\<exists>j \<in> set js. j_ID j = u \<and> retry_due lockd now j" if "u \<in> set (map j_ID ?t)" for u
  proof -
    obtain j where j: "j \<in> set ?t" "j_ID j = u" using \<open>u \<in> set (map j_ID ?t)\<close> by auto
    then have "j \<in> set js" "retry_due lockd now j" using in_set_takeD [OF j(1)] by simp_all
    with j(2) show ?thesis by blast
  qed
  show ?thesis
    unfolding earliest_due_def due
    by (intro conjI ballI impI; (elim conjE)?) (rule from_row card least; assumption)+
qed

text \<open>One pass of the scheduler.\<close>

definition pass_limit :: "'w retry_scheduler \<Rightarrow> int" where
  "pass_limit S = (if rs_BatchSize S \<le> 0 then 50 else rs_BatchSize S)"

context quiet_queue
begin

lemma PollAndRequeue_quiet:
  assumes okw: "ok w" and dist: "distinct (map j_ID (jobs_table (db w)))"
    and nil: "\<forall>j \<in> set (jobs_table (db w)). j_ID j \<noteq> uuid_Nil" and Q: "rs_Q S = Q"
    and run: "run_state (PollAndRequeue E S) w = (r, w')"
  defines "D \<equiv> set (due_retries (locked E (tick w)) (pass_limit S) (clock E (tick w)) (jobs_table (db w)))"
  shows "r = Inr (int (card D)) \<and>
    db w' = update_jobs (\<lambda>j. j_ID j \<in> D)
      (\<lambda>j. j\<lparr>j_Status := JobStatusQueued, j_UpdatedAt := clock E (tick w)\<rparr>) (db w) \<and>
    (\<forall>j \<in> set (jobs_table (db w)). j_ID j \<in> D \<longrightarrow>
       j_ID j \<in> waiting (view w') (queue_name (j_Queue j)) (queue_priority (j_Priority j))) \<and>
    inflight (view w') = inflight (view w)"
proof -
  let ?f = "\<lambda>j. j\<lparr>j_Status := JobStatusQueued, j_UpdatedAt := clock E (tick w)\<rparr>"
  let ?js = "returning (\<lambda>j. j_ID j \<in> D) ?f (jobs_table (db w))"
  let ?w1 = "w\<lparr>tick := Suc (tick w), db := update_jobs (\<lambda>j. j_ID j \<in> D) ?f (db w)\<rparr>"
  have st: "run_state (JobStore_RequeueDueRetries E (rs_BatchSize S)) w = (Inr ?js, ?w1)"
    by (simp add: JobStore_RequeueDueRetries_def Let_def run_pg_reliable [OF quiet]
        requeue_due_stmt_def pass_limit_def D_def)
  have sub: "D \<subseteq> j_ID ` set (jobs_table (db w))"
    using due_retries_sub unfolding D_def by fastforce
  have "int (length ?js) = int (card D)"
  proof -
    have "map j_ID ?js = filter (\<lambda>u. u \<in> D) (map j_ID (jobs_table (db w)))"
      by (simp add: returning_def filter_map o_def)
    then have "distinct (map j_ID ?js)" "set (map j_ID ?js) = D" using dist sub by auto
    then show ?thesis by (metis distinct_card length_map)
  qed
  moreover have v1: "view ?w1 = view w" "ok ?w1"
    using view_frame [of ?w1 w] ok_same_redis [OF okw, of ?w1] by simp_all
  moreover have nil': "\<forall>j \<in> set ?js. j_ID j \<noteq> uuid_Nil"
    using nil by (auto simp: rows)
  ultimately have "r = Inr (int (card D)) \<and> db w' = db ?w1 \<and> view w' = fold v_enqueue ?js (view w)"
  proof (cases "?js = []")
    case True
    then show ?thesis using run st \<open>int (length ?js) = int (card D)\<close> v1(1)
      by (simp add: PollAndRequeue_def)
  next
    case False
    obtain c w2 where "run_state (for_each ?js (0 :: int) (\<lambda>job enqueued. do {
             e \<leftarrow> q_Enqueue Q (Some job);
             State_Monad.return (case e of Inl _ \<Rightarrow> enqueued | Inr _ \<Rightarrow> enqueued + 1)
           })) ?w1 = (c, w2)" by fastforce
    with enqueue_loop [OF v1(2) nil' this] run st False Q v1(1) \<open>int (length ?js) = int (card D)\<close>
    show ?thesis by (simp add: PollAndRequeue_def)
  qed
  then have r: "r = Inr (int (card D))" "db w' = update_jobs (\<lambda>j. j_ID j \<in> D) ?f (db w)"
    and v: "view w' = fold v_enqueue ?js (view w)" by simp_all
  have "j_ID j \<in> waiting (view w') (queue_name (j_Queue j)) (queue_priority (j_Priority j))"
    if "j \<in> set (jobs_table (db w))" "j_ID j \<in> D" for j
  proof -
    have "?f j \<in> set ?js" using that by (auto simp: rows)
    then show ?thesis unfolding v fold_enqueue_waiting
      by (intro UnI2 CollectI exI [of _ "?f j"]) simp
  qed
  then show ?thesis using r by (simp add: v fold_enqueue_inflight)
qed

end

text \<open>
  C21. The retry scheduler, when no call fails: a pass requeues the due retries with the earliest
  times, as many as its batch holds (a retry whose row another transaction has locked waits for
  the next pass); each is QUEUED in the database, its other fields as they were, and waits in its
  queue at its priority; the pass reports their number; no other job changes, and no job in
  progress is touched.
\<close>

theorem PollAndRequeue_requeues_due:
  assumes "redis_server R U" and "reliable E" and "canonical_world R U w" and "db_ok (db w)"
    and "\<forall>j \<in> set (jobs_table (db w)). j_ID j \<noteq> uuid_Nil" and "rs_Q S = RedisQueue R U E"
    and "run_state (PollAndRequeue E S) w = (r, w')"
  shows "\<exists>D. earliest_due (locked E (tick w)) (clock E (tick w)) (nat (pass_limit S)) (jobs_table (db w)) D \<and>
    r = Inr (int (card D)) \<and>
    db w' = update_jobs (\<lambda>j. j_ID j \<in> D)
      (\<lambda>j. j\<lparr>j_Status := JobStatusQueued, j_UpdatedAt := clock E (tick w)\<rparr>) (db w) \<and>
    (\<forall>j \<in> set (jobs_table (db w)). j_ID j \<in> D \<longrightarrow> j_ID j \<in>
       waiting (redis_view R U w') (queue_name (j_Queue j)) (queue_priority (j_Priority j))) \<and>
    inflight (redis_view R U w') = inflight (redis_view R U w)"
  by (rule exI, rule conjI [OF earliest_due_retries [OF db_ok_ids [OF assms(4)]]
      quiet_queue.PollAndRequeue_quiet [OF quiet_redis_queue [OF assms(1,2)] assms(3)
        db_ok_ids [OF assms(4)] assms(5-7)]])

definition retry_job :: job where
  "retry_job = (demo_job 7 1)\<lparr>j_Status := JobStatusRetrying, j_Attempt := 1, j_Error := Some ''boom''\<rparr>"

definition retry_world :: "zlist world" where
  "retry_world = demo_world\<lparr>db := empty_db\<lparr>jobs_table := [retry_job]\<rparr>\<rparr>"

lemma retry_world_facts:
  "canonical_world zlist_ops hex_uuid_ops retry_world" "db_ok (db retry_world)"
  "jobs_table (db retry_world) = [retry_job]" "tick retry_world = 0"
  using zr.ok_same_redis [OF demo_canonical, of retry_world]
  by (simp_all add: retry_world_def demo_world_def retry_job_def db_ok_def empty_db_def jobs_ok_def tasks_ok_def
      task_jobs_ok_def task_deps_def acyclic_def job_ok_def JobStatus_IsTerminal_def int4_def)

theorem PollAndRequeue_requeues_due_witness:
  "fst (run_state (PollAndRequeue quiet_env
     (NewRetryScheduler (RedisQueue zlist_ops hex_uuid_ops quiet_env) 0 0)) retry_world) = Inr 1"
proof -
  let ?S = "NewRetryScheduler (RedisQueue zlist_ops hex_uuid_ops quiet_env) 0 0"
  have "rs_Q ?S = RedisQueue zlist_ops hex_uuid_ops quiet_env" "pass_limit ?S = 100"
    by (simp_all add: NewRetryScheduler_def pass_limit_def)
  moreover have "\<forall>j \<in> set (jobs_table (db retry_world)). j_ID j \<noteq> uuid_Nil"
    by (simp add: retry_world_facts retry_job_def)
  moreover have "length (filter (retry_due (locked quiet_env 0) (clock quiet_env 0)) [retry_job]) = 1"
    by (simp add: retry_due_def retry_job_def quiet_env_def)
  ultimately show ?thesis
    using PollAndRequeue_requeues_due [OF zl_hex.redis_server_axioms reliable_quiet_env retry_world_facts(1,2)
        _ _ prod.collapse [symmetric], of ?S]
    by (auto simp: earliest_due_def retry_world_facts)
qed

section \<open>The jobs of dead workers\<close>

definition dead_owner :: "string set \<Rightarrow> job \<Rightarrow> bool" where
  "dead_owner K j \<longleftrightarrow> j_Status j = JobStatusRunning \<and> (\<exists>k \<in> K. j_WorkerID j = Some k)"

definition recovered :: "string set \<Rightarrow> job \<Rightarrow> job \<Rightarrow> bool" where
  "recovered K j j' \<longleftrightarrow>
     (if dead_owner K j
      then \<exists>t. j' = j\<lparr>j_Status := JobStatusQueued, j_WorkerID := None, j_UpdatedAt := t\<rparr>
      else j' = j)"

definition offline :: "string set \<Rightarrow> worker \<Rightarrow> worker \<Rightarrow> bool" where
  "offline K k k' \<longleftrightarrow>
     (if w_ID k \<in> K then \<exists>t. k' = k\<lparr>w_Status := WorkerStatusOffline, w_UpdatedAt := t\<rparr> else k' = k)"

definition in_its_queue :: "queue_view \<Rightarrow> job \<Rightarrow> bool" where
  "in_its_queue v j \<longleftrightarrow> j_ID j \<in> waiting v (queue_name (j_Queue j)) (queue_priority (j_Priority j))"

lemma recoveredI:
  "(dead_owner K j \<Longrightarrow> j' = j\<lparr>j_Status := JobStatusQueued, j_WorkerID := None, j_UpdatedAt := t\<rparr>) \<Longrightarrow>
   (\<not> dead_owner K j \<Longrightarrow> j' = j) \<Longrightarrow> recovered K j j'"
  unfolding recovered_def by (cases "dead_owner K j") (simp_all only: if_True if_False, blast+)

lemma offlineI:
  "(w_ID k \<in> K \<Longrightarrow> k' = k\<lparr>w_Status := WorkerStatusOffline, w_UpdatedAt := t\<rparr>) \<Longrightarrow>
   (w_ID k \<notin> K \<Longrightarrow> k' = k) \<Longrightarrow> offline K k k'"
  unfolding offline_def by (cases "w_ID k \<in> K") (simp_all only: if_True if_False, blast+)

lemma recovered_update:
  "list_all2 (recovered {k}) js (update_where (\<lambda>j. j_WorkerID j = Some k \<and> j_Status j = JobStatusRunning)
     (\<lambda>j. j\<lparr>j_Status := JobStatusQueued, j_WorkerID := None, j_UpdatedAt := t\<rparr>) js)"
proof (induction js)
  case (Cons j js)
  have "recovered {k} j (if j_WorkerID j = Some k \<and> j_Status j = JobStatusRunning
      then j\<lparr>j_Status := JobStatusQueued, j_WorkerID := None, j_UpdatedAt := t\<rparr> else j)"
    by (rule recoveredI [where t = t]) (auto simp: dead_owner_def)
  with Cons show ?case by simp
qed simp

lemma offline_update:
  "list_all2 (offline {k}) ks (update_where (\<lambda>x. w_ID x = k)
     (\<lambda>x. x\<lparr>w_Status := WorkerStatusOffline, w_UpdatedAt := t\<rparr>) ks)"
proof (induction ks)
  case (Cons x ks)
  have "offline {k} x (if w_ID x = k then x\<lparr>w_Status := WorkerStatusOffline, w_UpdatedAt := t\<rparr> else x)"
    by (rule offlineI [where t = t]) simp_all
  with Cons show ?case by simp
qed simp

lemma recoveredD:
  assumes "recovered K j j'"
  obtains t where "dead_owner K j" "j' = j\<lparr>j_Status := JobStatusQueued, j_WorkerID := None, j_UpdatedAt := t\<rparr>"
  | "\<not> dead_owner K j" "j' = j"
  using assms unfolding recovered_def by (cases "dead_owner K j") (simp_all only: if_True if_False, blast+)

lemma offlineD:
  assumes "offline K k k'"
  obtains t where "w_ID k \<in> K" "k' = k\<lparr>w_Status := WorkerStatusOffline, w_UpdatedAt := t\<rparr>"
  | "w_ID k \<notin> K" "k' = k"
  using assms unfolding offline_def by (cases "w_ID k \<in> K") (simp_all only: if_True if_False, blast+)

lemma in_its_queue_update [simp]:
  "in_its_queue v (j\<lparr>j_Status := st, j_WorkerID := wid, j_UpdatedAt := t\<rparr>) = in_its_queue v j"
  by (simp add: in_its_queue_def)

lemma fold_enqueue_in_queue:
  "in_its_queue (fold v_enqueue js v) j \<longleftrightarrow> in_its_queue v j \<or>
     (\<exists>k \<in> set js. j_ID k = j_ID j \<and> queue_name (j_Queue k) = queue_name (j_Queue j) \<and>
        queue_priority (j_Priority k) = queue_priority (j_Priority j))"
  unfolding in_its_queue_def fold_enqueue_waiting by (auto simp: eq_commute)

lemma recovered_trans:
  assumes "recovered {k} j j1" and "recovered K j1 j2"
  shows "recovered (insert k K) j j2"
  using assms(1)
proof (cases rule: recoveredD)
  case (1 t)
  then have "\<not> dead_owner K j1" by (simp add: dead_owner_def)
  then have "j2 = j1" using assms(2) by (simp add: recovered_def)
  with 1 show ?thesis by (intro recoveredI [where t = t]) (auto simp: dead_owner_def)
next
  case 2
  from assms(2) show ?thesis
  proof (cases rule: recoveredD)
    case (1 t)
    with 2 show ?thesis by (intro recoveredI [where t = t]) (auto simp: dead_owner_def)
  next
    case 2
    with \<open>\<not> dead_owner {k} j\<close> \<open>j1 = j\<close> show ?thesis
      by (intro recoveredI [where t = 0]) (auto simp: dead_owner_def)
  qed
qed

lemma offline_trans:
  assumes "offline {k} x x1" and "offline K x1 x2"
  shows "offline (insert k K) x x2"
  using assms(1)
proof (cases rule: offlineD)
  case (1 t)
  from assms(2) show ?thesis
  proof (cases rule: offlineD)
    case (1 t2)
    with \<open>w_ID x \<in> {k}\<close> \<open>x1 = _\<close> show ?thesis by (intro offlineI [where t = t2]) simp_all
  next
    case 2
    with 1 show ?thesis by (intro offlineI [where t = t]) simp_all
  qed
next
  case 2
  from assms(2) show ?thesis
  proof (cases rule: offlineD)
    case (1 t)
    with 2 show ?thesis by (intro offlineI [where t = t]) simp_all
  next
    case 2
    with \<open>w_ID x \<notin> {k}\<close> \<open>x1 = x\<close> show ?thesis by (intro offlineI [where t = 0]) simp_all
  qed
qed

context quiet_queue
begin

lemma reap_worker_quiet:
  assumes okw: "ok w" and nil: "\<forall>j \<in> set (jobs_table (db w)). j_ID j \<noteq> uuid_Nil"
    and Q: "ws_Q S = Some Q" and run: "run_state (reap_worker E S k) w = (u, w')"
  shows "ok w' \<and> list_all2 (recovered {w_ID k}) (jobs_table (db w)) (jobs_table (db w')) \<and>
    list_all2 (offline {w_ID k}) (workers_table (db w)) (workers_table (db w')) \<and>
    (\<forall>j. in_its_queue (view w) j \<or> j \<in> set (jobs_table (db w)) \<and> dead_owner {w_ID k} j \<longrightarrow>
       in_its_queue (view w') j)"
proof -
  let ?p = "\<lambda>j. j_WorkerID j = Some (w_ID k) \<and> j_Status j = JobStatusRunning"
  let ?w1 = "w\<lparr>tick := Suc (tick w), db := snd (set_status_stmt (w_ID k) WorkerStatusOffline (clock E (tick w)) (db w))\<rparr>"
  have ok1: "ok ?w1" and v1: "view ?w1 = view w"
    using ok_same_redis [OF okw, of ?w1] view_frame [of ?w1 w] by simp_all
  obtain r w2 where w2: "run_state (q_RemoveWorker Q (w_ID k)) ?w1 = (r, w2)" by fastforce
  note rw = remove_worker_quiet [OF ok1 w2]
  let ?f = "\<lambda>j. j\<lparr>j_Status := JobStatusQueued, j_WorkerID := None, j_UpdatedAt := clock E (tick w2)\<rparr>"
  let ?js = "returning ?p ?f (jobs_table (db w2))"
  let ?w3 = "w2\<lparr>tick := Suc (tick w2), db := update_jobs ?p ?f (db w2)\<rparr>"
  have ok3: "ok ?w3" and v3: "view ?w3 = view w"
    using ok_same_redis [of w2 ?w3] view_frame [of ?w3 w2] rw v1 by simp_all
  have jobs2: "jobs_table (db w2) = jobs_table (db w)"
    and workers2: "workers_table (db w2) = update_where (\<lambda>x. w_ID x = w_ID k)
      (\<lambda>x. x\<lparr>w_Status := WorkerStatusOffline, w_UpdatedAt := clock E (tick w)\<rparr>) (workers_table (db w))"
    using rw by (simp_all add: set_status_stmt_def)
  have loop: "run_state (for_each ?js () (\<lambda>job _. do {
             _ \<leftarrow> q_Enqueue Q (Some job);
             State_Monad.return ()
           })) ?w3 = (u, w')"
    using run w2 Q by (simp add: reap_worker_def WorkerStore_SetStatus_def run_pg_reliable [OF quiet]
        WorkerStore_RecoverDeadWorkerJobs_def recover_stmt_def Let_def split_beta)
  have "\<forall>j \<in> set ?js. j_ID j \<noteq> uuid_Nil" using nil by (auto simp: rows jobs2)
  note e = enqueue_loop_silent [OF ok3 this loop]
  have "in_its_queue (view w') j" if "j \<in> set (jobs_table (db w))" "dead_owner {w_ID k} j" for j
  proof -
    have "?f j \<in> set ?js" using that by (auto simp: rows jobs2 dead_owner_def)
    then have "in_its_queue (view w') (?f j)"
      unfolding e [THEN conjunct2, THEN conjunct2] fold_enqueue_in_queue by blast
    then show ?thesis by simp
  qed
  moreover have "in_its_queue (view w') j" if "in_its_queue (view w) j" for j
    using that e v3 by (simp add: fold_enqueue_in_queue)
  moreover have "list_all2 (recovered {w_ID k}) (jobs_table (db w)) (jobs_table (db w'))"
    using e recovered_update [of "w_ID k"] by (simp add: jobs2)
  moreover have "list_all2 (offline {w_ID k}) (workers_table (db w)) (workers_table (db w'))"
    using e offline_update [of "w_ID k"] by (simp add: workers2)
  ultimately show ?thesis using e by blast
qed

text \<open>The loop over the dead workers.\<close>

lemma reap_loop:
  assumes "ok w" and "\<forall>j \<in> set (jobs_table (db w)). j_ID j \<noteq> uuid_Nil" and "ws_Q S = Some Q"
    and "run_state (for_each ks () (\<lambda>k _. reap_worker E S k)) w = (u, w')"
  shows "ok w' \<and> list_all2 (recovered (w_ID ` set ks)) (jobs_table (db w)) (jobs_table (db w')) \<and>
    list_all2 (offline (w_ID ` set ks)) (workers_table (db w)) (workers_table (db w')) \<and>
    (\<forall>j. in_its_queue (view w) j \<or> j \<in> set (jobs_table (db w)) \<and> dead_owner (w_ID ` set ks) j \<longrightarrow>
       in_its_queue (view w') j)"
  using assms
proof (induction ks arbitrary: w)
  case Nil
  then show ?case
    by (auto simp: list_all2_same recovered_def offline_def dead_owner_def)
next
  case (Cons k ks)
  obtain w1 where w1: "run_state (reap_worker E S k) w = ((), w1)" by (metis old.unit.exhaust surj_pair)
  note r = reap_worker_quiet [OF Cons.prems(1-3) w1]
  have "\<forall>j \<in> set (jobs_table (db w1)). j_ID j \<noteq> uuid_Nil"
  proof
    fix j'
    assume "j' \<in> set (jobs_table (db w1))"
    then obtain j where "j \<in> set (jobs_table (db w))" "recovered {w_ID k} j j'"
      using list_all2_right [OF r [THEN conjunct2, THEN conjunct1]] by blast
    then show "j_ID j' \<noteq> uuid_Nil" using Cons.prems(2) by (auto elim!: recoveredD)
  qed
  note nil1 = this
  have rest: "run_state (for_each ks () (\<lambda>k _. reap_worker E S k)) w1 = (u, w')"
    using Cons.prems(4) w1 by simp
  have set: "w_ID ` set (k # ks) = insert (w_ID k) (w_ID ` set ks)" by simp
  have s: "ok w' \<and> list_all2 (recovered (w_ID ` set ks)) (jobs_table (db w1)) (jobs_table (db w')) \<and>
    list_all2 (offline (w_ID ` set ks)) (workers_table (db w1)) (workers_table (db w')) \<and>
    (\<forall>j. in_its_queue (view w1) j \<or> j \<in> set (jobs_table (db w1)) \<and> dead_owner (w_ID ` set ks) j \<longrightarrow>
       in_its_queue (view w') j)"
    by (rule Cons.IH [OF _ nil1 Cons.prems(3) rest]) (use r in blast)
  have "in_its_queue (view w') j"
    if j: "j \<in> set (jobs_table (db w))" "dead_owner (insert (w_ID k) (w_ID ` set ks)) j" for j
  proof (cases "dead_owner {w_ID k} j")
    case True
    then show ?thesis using r s j(1) by blast
  next
    case False
    obtain j1 where "j1 \<in> set (jobs_table (db w1))" "recovered {w_ID k} j j1"
      using list_all2_left [OF r [THEN conjunct2, THEN conjunct1] j(1)] by blast
    then have "j \<in> set (jobs_table (db w1))" using False by (auto elim!: recoveredD)
    moreover have "dead_owner (w_ID ` set ks) j" using j(2) False by (auto simp: dead_owner_def)
    ultimately show ?thesis using s by blast
  qed
  moreover have "list_all2 (recovered (insert (w_ID k) (w_ID ` set ks))) (jobs_table (db w)) (jobs_table (db w'))"
    by (rule list_all2_trans [where ?P1.0 = "recovered {w_ID k}" and ?P2.0 = "recovered (w_ID ` set ks)", OF recovered_trans])
      (assumption | rule r [THEN conjunct2, THEN conjunct1]
        s [THEN conjunct2, THEN conjunct1])+
  moreover have "list_all2 (offline (insert (w_ID k) (w_ID ` set ks))) (workers_table (db w)) (workers_table (db w'))"
    by (rule list_all2_trans [where ?P1.0 = "offline {w_ID k}" and ?P2.0 = "offline (w_ID ` set ks)", OF offline_trans])
      (assumption | rule r [THEN conjunct2, THEN conjunct2, THEN conjunct1]
        s [THEN conjunct2, THEN conjunct2, THEN conjunct1])+
  moreover have "ok w'" "\<And>j. in_its_queue (view w) j \<Longrightarrow> in_its_queue (view w') j"
    using r s by blast+
  ultimately show ?case unfolding set by blast
qed

lemma ReapDeadWorkers_quiet:
  assumes okw: "ok w" and nil: "\<forall>j \<in> set (jobs_table (db w)). j_ID j \<noteq> uuid_Nil"
    and S: "ws_Workers S" "ws_Q S = Some Q" and run: "run_state (ReapDeadWorkers E S) w = (r, w')"
  defines "K \<equiv> w_ID ` {k \<in> set (workers_table (db w)). dead_worker (clock E (tick w) - ws_DeadTimeout S) k}"
  shows "r = Inr () \<and> list_all2 (recovered K) (jobs_table (db w)) (jobs_table (db w')) \<and>
    list_all2 (offline K) (workers_table (db w)) (workers_table (db w')) \<and>
    (\<forall>j \<in> set (jobs_table (db w)). dead_owner K j \<longrightarrow> in_its_queue (view w') j)"
proof -
  let ?ks = "filter (dead_worker (clock E (tick w) - ws_DeadTimeout S)) (workers_table (db w))"
  let ?w1 = "w\<lparr>tick := Suc (tick w)\<rparr>"
  obtain w2 where loop: "run_state (for_each ?ks () (\<lambda>k _. reap_worker E S k)) ?w1 = ((), w2)"
    by (metis old.unit.exhaust surj_pair)
  then have r: "r = Inr ()" "w2 = w'"
    using run S(1) by (simp_all add: ReapDeadWorkers_def WorkerStore_FindDeadWorkers_def run_pg_reliable [OF quiet])
  have "K = w_ID ` set ?ks" by (auto simp: K_def)
  then show ?thesis
    using reap_loop [OF ok_same_redis [OF okw] _ S(2) loop] nil r by simp
qed

end

text \<open>
  C22. The supervisor, when no call fails: after a pass every ACTIVE worker whose last heartbeat is
  older than the timeout is OFFLINE and no other worker has changed; every job that was RUNNING on
  one of them is QUEUED without a worker, everything else in its row as it was (its attempts too),
  and waits in its queue at its priority; no other job has changed. In particular no job is left
  RUNNING on a worker the pass found dead.
\<close>

theorem ReapDeadWorkers_recovers:
  assumes "redis_server R U" and "reliable E" and "canonical_world R U w"
    and "\<forall>j \<in> set (jobs_table (db w)). j_ID j \<noteq> uuid_Nil"
    and "ws_Workers S" and "ws_Q S = Some (RedisQueue R U E)"
    and "run_state (ReapDeadWorkers E S) w = (r, w')"
    and "K = w_ID ` {k \<in> set (workers_table (db w)). dead_worker (clock E (tick w) - ws_DeadTimeout S) k}"
  shows "r = Inr () \<and> list_all2 (recovered K) (jobs_table (db w)) (jobs_table (db w')) \<and>
    list_all2 (offline K) (workers_table (db w)) (workers_table (db w')) \<and>
    (\<forall>j \<in> set (jobs_table (db w)). dead_owner K j \<longrightarrow> in_its_queue (redis_view R U w') j) \<and>
    (\<forall>j' \<in> set (jobs_table (db w')). \<not> dead_owner K j')"
proof -
  note q = quiet_queue.ReapDeadWorkers_quiet [OF quiet_redis_queue [OF assms(1,2)] assms(3-7),
      folded assms(8)]
  have "\<not> dead_owner K j'" if j': "j' \<in> set (jobs_table (db w'))" for j'
  proof -
    obtain j where "recovered K j j'"
      using list_all2_right [OF q [THEN conjunct2, THEN conjunct1] j'] by blast
    then show ?thesis by (cases rule: recoveredD) (simp_all add: dead_owner_def)
  qed
  then have "\<forall>j' \<in> set (jobs_table (db w')). \<not> dead_owner K j'" by (rule ballI)
  with q show ?thesis by (elim conjE) (intro conjI; assumption)
qed

definition crashed_job :: job where
  "crashed_job = (demo_job 7 1)\<lparr>j_Status := JobStatusRunning, j_Attempt := 1, j_WorkerID := Some ''w1''\<rparr>"

definition crash_world :: "zlist world" where
  "crash_world = demo_world\<lparr>db := empty_db\<lparr>jobs_table := [crashed_job],
     workers_table := [new_worker ''w1'' (- 31 * second), new_worker ''w2'' 0]\<rparr>\<rparr>"

theorem ReapDeadWorkers_recovers_witness:
  "\<exists>r w' t. run_state (ReapDeadWorkers quiet_env (NewWorkerSupervisor True
       (Some (RedisQueue zlist_ops hex_uuid_ops quiet_env)) 0 0)) crash_world = (r, w') \<and>
     jobs_table (db w') = [crashed_job\<lparr>j_Status := JobStatusQueued, j_WorkerID := None, j_UpdatedAt := t\<rparr>] \<and>
     7 \<in> waiting (redis_view zlist_ops hex_uuid_ops w') ''default'' 1"
proof -
  let ?S = "NewWorkerSupervisor True (Some (RedisQueue zlist_ops hex_uuid_ops quiet_env)) 0 0"
  obtain r w' where run: "run_state (ReapDeadWorkers quiet_env ?S) crash_world = (r, w')" by fastforce
  have ok: "canonical_world zlist_ops hex_uuid_ops crash_world"
    using zr.ok_same_redis [OF demo_canonical, of crash_world] by (simp add: crash_world_def)
  have jobs: "jobs_table (db crash_world) = [crashed_job]" by (simp add: crash_world_def)
  then have nil: "\<forall>j \<in> set (jobs_table (db crash_world)). j_ID j \<noteq> uuid_Nil"
    by (simp add: crashed_job_def)
  have K: "{''w1''} = w_ID ` {k \<in> set (workers_table (db crash_world)).
      dead_worker (clock (quiet_env :: zlist env) (tick crash_world) - ws_DeadTimeout ?S) k}"
  proof -
    have "{k \<in> set (workers_table (db crash_world)).
        dead_worker (clock (quiet_env :: zlist env) (tick crash_world) - ws_DeadTimeout ?S) k} = {new_worker ''w1'' (- 31 * second)}"
      by (auto simp: crash_world_def demo_world_def quiet_env_def NewWorkerSupervisor_def dead_worker_def
          new_worker_def second_def millisecond_def)
    then show ?thesis by (simp only:) (simp add: new_worker_def)
  qed
  have dead: "dead_owner {''w1''} crashed_job" by (simp add: dead_owner_def crashed_job_def)
  have S: "ws_Workers ?S" "ws_Q ?S = Some (RedisQueue zlist_ops hex_uuid_ops quiet_env)"
    by (simp_all add: NewWorkerSupervisor_def)
  note p = ReapDeadWorkers_recovers [OF zl_hex.redis_server_axioms reliable_quiet_env ok nil S run K]
  obtain j' where j': "jobs_table (db w') = [j']" "recovered {''w1''} crashed_job j'"
    using p unfolding jobs by (auto simp: list_all2_Cons1)
  then obtain t where "j' = crashed_job\<lparr>j_Status := JobStatusQueued, j_WorkerID := None, j_UpdatedAt := t\<rparr>"
    using dead by (auto elim!: recoveredD)
  moreover have "in_its_queue (redis_view zlist_ops hex_uuid_ops w') crashed_job"
    using p dead unfolding jobs by simp
  ultimately show ?thesis
    using run j'(1) by (auto simp: in_its_queue_def crashed_job_def queue_name_def queue_priority_def)
qed

end
