(* ===== verification/Shutdown.thy ===== *)
theory Shutdown
  imports Recovery_Props
begin

text \<open>
  A worker stopped in the middle of an attempt. \<open>cmd/worker\<close> hands \<open>Run\<close> the context that SIGINT and
  SIGTERM cancel, and the goroutines of \<open>Run\<close> make their calls with it (\<open>internal/engine/worker.go\<close>):
  once it is cancelled they are refused, while the deferred function of \<open>Run\<close> has a context of its
  own. The lemmas show what becomes of the job whose attempt was running.
\<close>

section \<open>A cancelled context\<close>

text \<open>The environment of the calls made with a context that is cancelled just before call \<open>c\<close>.\<close>

definition cancelled_at :: "nat \<Rightarrow> 'z env \<Rightarrow> 'z env" where
  "cancelled_at c E = E\<lparr>fault := (\<lambda>n. if n < c then fault E n else Refused)\<rparr>"

lemma cancelled_env [simp]:
  "settle (cancelled_at c E) w = settle E w" "clock (cancelled_at c E) = clock E"
  "fault (cancelled_at c E) n = (if n < c then fault E n else Refused)"
  by (simp_all add: cancelled_at_def settle_def)

lemma run_cancelled:
  assumes "reliable E" and "c \<le> tick w"
  shows "run_state (pg (cancelled_at c E) f) w = (Inl ErrIO, w\<lparr>tick := Suc (tick w)\<rparr>)"
    and "run_state (rcmd (cancelled_at c E) g) w = (Inl ErrIO, w\<lparr>tick := Suc (tick w)\<rparr>)"
  using assms by (simp_all add: pg_def rcmd_def call_def settle_reliable)

lemma run_before_cancelled:
  "tick w < c \<Longrightarrow> run_state (pg (cancelled_at c E) f) w = run_state (pg E f) w"
  by (simp add: pg_def call_def split: outcome.split)

text \<open>Steps that leave the database and the queue.\<close>

definition idle :: "('z world, 'a) state \<Rightarrow> nat \<Rightarrow> bool" where
  "idle m c \<longleftrightarrow> (\<forall>w r w'. c \<le> tick w \<longrightarrow> run_state m w = (r, w') \<longrightarrow>
     db w' = db w \<and> rds w' = rds w \<and> tick w \<le> tick w')"

lemma idle_bind:
  assumes "idle m c" and "\<And>x. idle (k x) c"
  shows "idle (do { x \<leftarrow> m; k x }) c"
  unfolding idle_def
proof (intro allI impI)
  fix w r w'
  assume c: "c \<le> tick w" and run: "run_state (do { x \<leftarrow> m; k x }) w = (r, w')"
  obtain x w1 where 1: "run_state m w = (x, w1)" by fastforce
  then have "run_state (k x) w1 = (r, w')" using run by simp
  moreover have "db w1 = db w \<and> rds w1 = rds w \<and> tick w \<le> tick w1" using assms(1) c 1 by (auto simp: idle_def)
  ultimately show "db w' = db w \<and> rds w' = rds w \<and> tick w \<le> tick w'"
    using assms(2) [of x] c unfolding idle_def by (metis order_trans)
qed

lemma idle_return: "idle (State_Monad.return x) c"
  by (simp add: idle_def State_Monad.return_def)

lemma idle_local: "idle (time_Now E) c" "idle (rand_Float64 E) c" "idle (emit cs) c" "idle (exec_handler f p) c"
  by (auto simp: idle_def time_Now_def rand_Float64_def emit_def exec_handler_def)

lemma idle_call:
  assumes "reliable E"
  shows "idle (pg (cancelled_at c E) f) c" "idle (rcmd (cancelled_at c E) g) c"
  unfolding idle_def by (auto simp: run_cancelled [OF assms])

lemma idle_when: "idle m c \<Longrightarrow> idle (when_workers W m) c"
  by (simp add: when_workers_def idle_bind idle_return)

lemma idleD:
  assumes "idle m c" and "run_state m w = (r, w')" and "c \<le> tick w"
  shows "db w' = db w \<and> rds w' = rds w"
  using assms by (simp add: idle_def)

lemmas idle_rules = idle_bind idle_return idle_local idle_call idle_when

section \<open>The attempt that was running\<close>

text \<open>What follows the handler, every call refused.\<close>

definition finish_attempt ::
  "'z env \<Rightarrow> 'z world worker_proc \<Rightarrow> job \<Rightarrow> string option \<Rightarrow> duration \<Rightarrow> ('z world, unit) state" where
  "finish_attempt E W job execErr elapsed = do {
     _ \<leftarrow> (case execErr of
            Some msg \<Rightarrow> resolve_failure E W job msg elapsed
          | None \<Rightarrow> resolve_success E W job elapsed);
     _ \<leftarrow> q_Ack (wk_Q W) (wk_QueueName W) (j_ID job);
     State_Monad.return ()
   }"

lemma idle_finish:
  assumes "reliable E" and "wk_Q W = RedisQueue R U (cancelled_at c E)"
  shows "idle (finish_attempt (cancelled_at c E) W job x el) c"
  unfolding finish_attempt_def resolve_failure_def resolve_success_def assms(2) RedisQueue_def Let_def
    WorkerStore_IncrementFailed_def WorkerStore_IncrementCompleted_def JobStore_RecordFailure_def
    JobStore_MarkSucceeded_def queue_iface.select_convs RedisQueue_Ack_def
  by (cases x; simp only: option.case) (intro idle_rules assms(1))+

lemma run_attempt_finish:
  "run_state (run_attempt E W job f) w =
     run_state (finish_attempt E W job (f (j_Payload job) (Suc (tick w)))
       (clock E (tick w + 2) - clock E (tick w))) (w\<lparr>tick := tick w + 3\<rparr>)"
  by (simp add: run_attempt_def finish_attempt_def run_time_Now exec_handler_def numeral_3_eq_3 numeral_2_eq_2
      split: option.split)

text \<open>The job is claimed and its handler runs, and then no call of the attempt has an effect.\<close>

lemma processJob_cancelled:
  assumes rel: "reliable E" and dist: "distinct (map j_ID (jobs_table (db w)))" and row: "job_row jid (db w) = Some j"
    and can: "claimable j" "int4 (j_Attempt j + 1)" and f: "wk_Handlers W (j_Type j) = Some f"
    and Q: "wk_Q W = RedisQueue R U (cancelled_at c E)" and c: "tick w < c" "c \<le> tick w + 4"
    and run: "run_state (processJob (cancelled_at c E) W jid) w = (u, w')"
  shows "db w' = set_job jid (run_job (wk_ID W) (clock E (tick w))) (db w) \<and> rds w' = rds w"
proof -
  let ?E = "cancelled_at c E" and ?t = "clock E (tick w)"
  let ?w1 = "w\<lparr>tick := Suc (tick w), db := set_job jid (run_job (wk_ID W) ?t) (db w)\<rparr>"
  have "run_state (JobStore_ClaimJob ?E jid (wk_ID W)) w = run_state (JobStore_ClaimJob E jid (wk_ID W)) w"
    by (simp add: JobStore_ClaimJob_def run_before_cancelled [OF c(1)])
  moreover have "j_Type (run_job (wk_ID W) ?t j) = j_Type j" by (simp add: run_job_def)
  ultimately have "run_state (run_attempt ?E W (run_job (wk_ID W) ?t j) f) ?w1 = (u, w')"
    using run f by (simp add: processJob_def run_ClaimJob [OF rel] claim_job_stmt_row [OF dist row]
        can no_rows_nil_def)
  then obtain x el where "run_state (finish_attempt ?E W (run_job (wk_ID W) ?t j) x el)
      (?w1\<lparr>tick := tick w + 4\<rparr>) = (u, w')"
    unfolding run_attempt_finish by (auto simp: eval_nat_numeral)
  from idleD [OF idle_finish [OF rel Q] this] c(2) show ?thesis by simp
qed

text \<open>
  A worker stopped during its attempt of \<open>jid\<close>: the attempt, then the deferred function. \<open>Qf\<close> is the
  queue, given the environment of the calls.
\<close>

definition stopped_during ::
  "'z env \<Rightarrow> ('z env \<Rightarrow> 'z world queue_iface) \<Rightarrow> nat \<Rightarrow> 'z world worker_proc \<Rightarrow> uuid \<Rightarrow> ('z world, unit) state" where
  "stopped_during E Qf c W jid = do {
     _ \<leftarrow> processJob (cancelled_at c E) (W\<lparr>wk_Q := Qf (cancelled_at c E)\<rparr>) jid;
     _ \<leftarrow> worker_drain E W;
     worker_stop E W
   }"

section \<open>What could bring the job back\<close>

text \<open>Another delivery, a pass of stale recovery, of the retry scheduler or of the supervisor.\<close>

datatype 'w recovery_act =
    Deliver "'w worker_proc"
  | Recover "'w worker_proc"
  | Poll "'w retry_scheduler"
  | Reap "'w worker_supervisor"

fun rescue :: "'z env \<Rightarrow> uuid \<Rightarrow> 'z world recovery_act \<Rightarrow> ('z world, unit) state" where
  "rescue E jid (Deliver W) = processJob E W jid"
| "rescue E jid (Recover W) = staleRecoveryLoop E W 1"
| "rescue E jid (Poll S) = do { _ \<leftarrow> PollAndRequeue E S; State_Monad.return () }"
| "rescue E jid (Reap S) = do { _ \<leftarrow> ReapDeadWorkers E S; State_Monad.return () }"

fun on_queue :: "'w queue_iface \<Rightarrow> 'w recovery_act \<Rightarrow> bool" where
  "on_queue Q (Deliver W) = (wk_Q W = Q)"
| "on_queue Q (Recover W) = (wk_Q W = Q)"
| "on_queue Q (Poll S) = (rs_Q S = Q)"
| "on_queue Q (Reap S) = (ws_Q S = Some Q)"

text \<open>A job that runs on a worker that is not ACTIVE.\<close>

definition stranded :: "job \<Rightarrow> string \<Rightarrow> db \<Rightarrow> bool" where
  "stranded j wid d \<longleftrightarrow>
     distinct (map j_ID (jobs_table d)) \<and> (\<forall>x \<in> set (jobs_table d). j_ID x \<noteq> uuid_Nil) \<and>
     j \<in> set (jobs_table d) \<and> j_Status j = JobStatusRunning \<and> j_WorkerID j = Some wid \<and>
     (\<forall>k \<in> set (workers_table d). w_ID k = wid \<longrightarrow> w_Status k \<noteq> WorkerStatusActive)"

lemma stranded_row: "stranded j wid d \<Longrightarrow> job_row (j_ID j) d = Some j"
  by (simp add: stranded_def row_of_distinct)

lemma stranded_update:
  assumes "stranded j wid d" and "\<And>x. j_ID (f x) = j_ID x" and "\<not> p j"
  shows "stranded j wid (update_jobs p f d)"
proof -
  have "j \<in> set (update_where p f (jobs_table d))"
    using assms(1,3) by (auto simp: stranded_def update_where_def)
  moreover have "\<forall>x \<in> set (update_where p f (jobs_table d)). j_ID x \<noteq> uuid_Nil"
    using assms(1,2) by (auto simp: stranded_def update_where_def)
  ultimately show ?thesis using assms(1) by (simp add: stranded_def update_jobs_def map_update_where assms(2))
qed

context quiet_queue
begin

lemma requeue_stale_quiet:
  assumes "ok w" and "run_state (q_RequeueStale Q n p) w = (r, w')"
  shows "ok w' \<and> db w' = db w"
  using requeue_stale [OF assms] by (simp add: one_call_quiet)

lemma poll_stranded:
  assumes st: "stranded j wid (db w)" and okw: "ok w" and Q: "rs_Q S = Q"
    and run: "run_state (PollAndRequeue E S) w = (r, w')"
  shows "ok w' \<and> stranded j wid (db w')"
proof -
  let ?D = "set (due_retries (locked E (tick w)) (pass_limit S) (clock E (tick w)) (jobs_table (db w)))"
  let ?f = "\<lambda>j. j\<lparr>j_Status := JobStatusQueued, j_UpdatedAt := clock E (tick w)\<rparr>"
  let ?js = "returning (\<lambda>j. j_ID j \<in> ?D) ?f (jobs_table (db w))"
  let ?w1 = "w\<lparr>tick := Suc (tick w), db := update_jobs (\<lambda>j. j_ID j \<in> ?D) ?f (db w)\<rparr>"
  have dist: "distinct (map j_ID (jobs_table (db w)))" using st by (simp add: stranded_def)
  have "j_ID j \<notin> ?D"
  proof
    assume "j_ID j \<in> ?D"
    then obtain k where k: "k \<in> set (jobs_table (db w))" "j_ID k = j_ID j" "j_Status k = JobStatusRetrying"
      using earliest_due_retries [OF dist, of "locked E (tick w)" "clock E (tick w)" "pass_limit S"]
      unfolding earliest_due_def retry_due_def by blast
    then show False using unique_row [OF dist k(1) _ k(2)] st by (auto simp: stranded_def)
  qed
  then have st1: "stranded j wid (db ?w1)" using stranded_update [OF st] by simp
  have st: "run_state (JobStore_RequeueDueRetries E (rs_BatchSize S)) w = (Inr ?js, ?w1)"
    by (simp add: JobStore_RequeueDueRetries_def Let_def run_pg_reliable [OF quiet]
        requeue_due_stmt_def pass_limit_def)
  have ok1: "ok ?w1" by (rule ok_same_redis [OF okw]) simp
  have nil: "\<forall>j \<in> set ?js. j_ID j \<noteq> uuid_Nil" using assms(1) by (auto simp: rows stranded_def)
  show ?thesis
  proof (cases "?js = []")
    case True
    then have "w' = ?w1" using run st by (simp add: PollAndRequeue_def)
    then show ?thesis using ok1 st1 by simp
  next
    case False
    obtain c w2 where "run_state (for_each ?js (0 :: int) (\<lambda>job enqueued. do {
             e \<leftarrow> q_Enqueue Q (Some job);
             State_Monad.return (case e of Inl _ \<Rightarrow> enqueued | Inr _ \<Rightarrow> enqueued + 1)
           })) ?w1 = (c, w2)" by fastforce
    with enqueue_loop [OF ok1 nil this] run st False Q st1 show ?thesis by (simp add: PollAndRequeue_def)
  qed
qed

lemma reap_stranded:
  assumes st: "stranded j wid (db w)" and okw: "ok w" and Q: "ws_Q S = Some Q"
    and run: "run_state (ReapDeadWorkers E S) w = (r, w')"
  shows "ok w' \<and> stranded j wid (db w')"
proof (cases "ws_Workers S")
  case False
  then show ?thesis using run st okw by (simp add: ReapDeadWorkers_def)
next
  case True
  let ?ks = "filter (dead_worker (clock E (tick w) - ws_DeadTimeout S)) (workers_table (db w))"
  let ?K = "w_ID ` set ?ks" and ?w1 = "w\<lparr>tick := Suc (tick w)\<rparr>"
  obtain w2 where loop: "run_state (for_each ?ks () (\<lambda>k _. reap_worker E S k)) ?w1 = ((), w2)"
    by (metis old.unit.exhaust surj_pair)
  then have w2: "w2 = w'"
    using run True by (simp add: ReapDeadWorkers_def WorkerStore_FindDeadWorkers_def run_pg_reliable [OF quiet])
  have nil: "\<forall>j \<in> set (jobs_table (db ?w1)). j_ID j \<noteq> uuid_Nil" using st by (simp add: stranded_def)
  have ok1: "ok ?w1" by (rule ok_same_redis [OF okw]) simp
  note l = reap_loop [OF ok1 nil Q loop, unfolded w2]
  have jobs: "list_all2 (recovered ?K) (jobs_table (db w)) (jobs_table (db w'))"
    and workers: "list_all2 (offline ?K) (workers_table (db w)) (workers_table (db w'))" using l by simp_all
  have ids: "map j_ID (jobs_table (db w')) = map j_ID (jobs_table (db w))"
    using jobs by (induction rule: list_all2_induct) (auto elim!: recoveredD)
  have "wid \<notin> ?K" using st by (auto simp: stranded_def dead_worker_def)
  then have "\<not> dead_owner ?K j" using st by (auto simp: stranded_def dead_owner_def)
  moreover obtain j' where "j' \<in> set (jobs_table (db w'))" "recovered ?K j j'"
    using list_all2_left [OF jobs, of j] st by (auto simp: stranded_def)
  ultimately have j: "j \<in> set (jobs_table (db w'))" by (auto elim!: recoveredD)
  have "w_Status k \<noteq> WorkerStatusActive" if k: "k \<in> set (workers_table (db w'))" "w_ID k = wid" for k
  proof -
    obtain k0 where "k0 \<in> set (workers_table (db w))" "offline ?K k0 k"
      using list_all2_right [OF workers k(1)] by blast
    then show ?thesis using st k(2) by (auto simp: stranded_def elim!: offlineD)
  qed
  moreover have "\<forall>x \<in> set (jobs_table (db w')). j_ID x \<noteq> uuid_Nil"
    using nil ids by (metis (no_types, lifting) image_iff list.set_map world.select_convs(2) world.surjective world.update_convs(1))
  ultimately show ?thesis using l j st by (simp add: stranded_def ids)
qed

lemma rescue_stranded:
  assumes st: "stranded j wid (db w)" and okw: "ok w" and on: "on_queue Q x"
    and run: "run_state (rescue E (j_ID j) x) w = (u, w')"
  shows "ok w' \<and> stranded j wid (db w')"
proof (cases x)
  case (Deliver W)
  have "\<not> claimable j" using st by (simp add: stranded_def claimable_def)
  with processJob_quiet [OF okw _ stranded_row [OF st] _ _ run [unfolded Deliver rescue.simps]] on st
  show ?thesis by (simp add: Deliver stranded_def)
next
  case (Recover W)
  obtain r w1 where "run_state (q_RequeueStale Q (wk_QueueName W) DefaultPriority) w = (r, w1)" by fastforce
  with requeue_stale_quiet [OF okw this] run on st show ?thesis
    by (simp add: Recover staleRecoveryLoop_def)
next
  case (Poll S)
  obtain r w1 where 1: "run_state (PollAndRequeue E S) w = (r, w1)" by fastforce
  with run have "w1 = w'" by (simp add: Poll)
  with poll_stranded [OF st okw _ 1] on show ?thesis by (simp add: Poll)
next
  case (Reap S)
  obtain r w1 where 1: "run_state (ReapDeadWorkers E S) w = (r, w1)" by fastforce
  with run have "w1 = w'" by (simp add: Reap)
  with reap_stranded [OF st okw _ 1] on show ?thesis by (simp add: Reap)
qed

lemma rescues_stranded:
  "stranded j wid (db w) \<Longrightarrow> ok w \<Longrightarrow> \<forall>x \<in> set xs. on_queue Q x \<Longrightarrow>
   run_state (for_each xs () (\<lambda>x _. rescue E (j_ID j) x)) w = (u, w') \<Longrightarrow> stranded j wid (db w')"
proof (induction xs arbitrary: w)
  case (Cons x xs)
  obtain w1 where 1: "run_state (rescue E (j_ID j) x) w = ((), w1)" by (metis old.unit.exhaust surj_pair)
  with rescue_stranded [OF Cons.prems(1,2) _ 1] Cons.prems(3)
  have "ok w1" "stranded j wid (db w1)" by simp_all
  then show ?case using Cons.IH [of w1] Cons.prems(3,4) 1 by simp
qed simp

end

section \<open>The deferred function\<close>

context quiet_queue
begin

lemma deferred_quiet:
  assumes okw: "ok w" and "wk_Q W = Q" and "wk_Workers W"
    and run: "run_state (do { _ \<leftarrow> worker_drain E W; worker_stop E W }) w = (u, w')"
  shows "ok w' \<and> view w' = view w \<and> jobs_table (db w') = jobs_table (db w) \<and>
    (\<forall>k \<in> set (workers_table (db w')). w_ID k = wk_ID W \<longrightarrow> w_Status k = WorkerStatusOffline)"
proof -
  let ?d = "snd (set_status_stmt (wk_ID W) WorkerStatusDraining (clock E (tick w)) (db w))"
  let ?w1 = "w\<lparr>tick := Suc (Suc (tick w)),
      db := snd (set_status_stmt (wk_ID W) WorkerStatusOffline (clock E (Suc (tick w))) ?d)\<rparr>"
  obtain r w2 where rm: "run_state (q_RemoveWorker Q (wk_ID W)) ?w1 = (r, w2)" by fastforce
  then have "w2 = w'"
    using run assms(2,3) by (simp add: worker_drain_def worker_stop_def when_workers_def
        WorkerStore_SetStatus_def run_pg_reliable [OF quiet] split_beta)
  note rm = rm [unfolded this]
  moreover have "ok ?w1" "view ?w1 = view w"
    using ok_same_redis [OF okw, of ?w1] view_frame [of ?w1 w] by simp_all
  ultimately have "ok w' \<and> db w' = db ?w1 \<and> view w' = view w" using remove_worker_quiet [OF _ rm] by simp
  then show ?thesis
    by (auto simp: set_status_stmt_def update_workers_def update_where_def split: if_splits)
qed

end

lemma stopped_during_leaves:
  assumes RU: "redis_server R U" and rel: "reliable E" and okw: "canonical_world R U w"
    and dist: "distinct (map j_ID (jobs_table (db w)))" and nil: "\<forall>x \<in> set (jobs_table (db w)). j_ID x \<noteq> uuid_Nil"
    and row: "job_row jid (db w) = Some j" and can: "claimable j" "int4 (j_Attempt j + 1)"
    and f: "wk_Handlers W (j_Type j) = Some f" and W: "wk_Workers W" "wk_Q W = RedisQueue R U E"
    and c: "tick w < c" "c \<le> tick w + 4"
    and run: "run_state (stopped_during E (RedisQueue R U) c W jid) w = (u, w')"
  shows "canonical_world R U w' \<and> redis_view R U w' = redis_view R U w \<and>
    stranded (run_job (wk_ID W) (clock E (tick w)) j) (wk_ID W) (db w') \<and>
    (\<forall>k \<in> set (workers_table (db w')). w_ID k = wk_ID W \<longrightarrow> w_Status k = WorkerStatusOffline)"
proof -
  note qq = quiet_redis_queue [OF RU rel]
  let ?W = "W\<lparr>wk_Q := RedisQueue R U (cancelled_at c E)\<rparr>" and ?j = "run_job (wk_ID W) (clock E (tick w)) j"
  obtain w1 where 1: "run_state (processJob (cancelled_at c E) ?W jid) w = ((), w1)"
    by (metis old.unit.exhaust surj_pair)
  have W': "wk_Handlers ?W (j_Type j) = Some f" "wk_Q ?W = RedisQueue R U (cancelled_at c E)"
    using f by simp_all
  have db1: "db w1 = set_job jid (run_job (wk_ID W) (clock E (tick w))) (db w)" and rds1: "rds w1 = rds w"
    using processJob_cancelled [OF rel dist row can W' c 1] by simp_all
  have ok1: "canonical_world R U w1" "redis_view R U w1 = redis_view R U w"
    using quiet_queue.ok_same_redis [OF qq okw rds1]
      dispatch_queue.view_frame [OF quiet_queue.axioms(1) [OF qq] rds1] by simp_all
  have "run_state (do { _ \<leftarrow> worker_drain E W; worker_stop E W }) w1 = (u, w')"
    using run 1 by (simp add: stopped_during_def)
  note d = quiet_queue.deferred_quiet [OF qq ok1(1) W(2,1) this]
  have jobs: "jobs_table (db w') = update_where (\<lambda>x. j_ID x = jid) (run_job (wk_ID W) (clock E (tick w))) (jobs_table (db w))"
    using d db1 by simp
  have jid: "j \<in> set (jobs_table (db w))" "j_ID j = jid" using row_of_SomeD [OF row] by blast+
  have "map j_ID (jobs_table (db w')) = map j_ID (jobs_table (db w))"
    unfolding jobs by (simp add: map_update_where)
  moreover have "?j \<in> set (jobs_table (db w'))"
    unfolding jobs using jid by (auto simp: update_where_def image_iff)
  moreover have "\<forall>x \<in> set (jobs_table (db w')). j_ID x \<noteq> uuid_Nil"
    unfolding jobs using nil by (auto simp: update_where_def)
  moreover have "j_Status ?j = JobStatusRunning" "j_WorkerID ?j = Some (wk_ID W)" by (simp_all add: run_job_def)
  moreover have "\<forall>k \<in> set (workers_table (db w')). w_ID k = wk_ID W \<longrightarrow> w_Status k \<noteq> WorkerStatusActive"
    using d by auto
  ultimately have "stranded ?j (wk_ID W) (db w')" using dist by (simp add: stranded_def)
  with d ok1 show ?thesis by simp
qed

text \<open>
  C23. A worker that is stopped while the handler of a job runs strands the job, whatever the handler
  answers: the calls that would record the outcome and acknowledge the delivery are made with the
  cancelled context and have no effect, and the deferred function marks the worker OFFLINE. The row
  stays RUNNING on the stopped worker with the attempt counted, and the delivery stays in progress.
  From there no number of further deliveries, passes of stale recovery, of the retry scheduler and
  of the supervisor, in any order, changes the row: a RUNNING job is not claimed again, and the
  supervisor looks for dead workers among the ACTIVE ones only.
\<close>

theorem shutdown_strands_job:
  assumes "redis_server R U" and "reliable E" and "canonical_world R U w" and "db_ok (db w)"
    and "\<forall>x \<in> set (jobs_table (db w)). j_ID x \<noteq> uuid_Nil"
    and "job_row jid (db w) = Some j" and "claimable j" and "int4 (j_Attempt j + 1)"
    and "wk_Handlers W (j_Type j) = Some f" and "wk_Workers W" and "wk_Q W = RedisQueue R U E"
    and "tick w < c" and "c \<le> tick w + 4"
    and "run_state (stopped_during E (RedisQueue R U) c W jid) w = (u, w1)"
    and "\<forall>x \<in> set xs. on_queue (RedisQueue R U E) x"
    and "run_state (for_each xs () (\<lambda>x _. rescue E jid x)) w1 = (v, w2)"
  shows "job_row jid (db w1) = Some (run_job (wk_ID W) (clock E (tick w)) j) \<and>
    redis_view R U w1 = redis_view R U w \<and>
    (\<forall>k \<in> set (workers_table (db w1)). w_ID k = wk_ID W \<longrightarrow> w_Status k = WorkerStatusOffline) \<and>
    job_row jid (db w2) = Some (run_job (wk_ID W) (clock E (tick w)) j)"
proof -
  let ?j = "run_job (wk_ID W) (clock E (tick w)) j"
  have jid: "j_ID ?j = jid" using row_of_SomeD [OF assms(6)] by simp
  note l = stopped_during_leaves [OF assms(1-3) db_ok_ids [OF assms(4)] assms(5-14)]
  have "stranded ?j (wk_ID W) (db w2)"
    using quiet_queue.rescues_stranded [OF quiet_redis_queue [OF assms(1,2)], of ?j "wk_ID W" w1 xs v w2]
      l assms(15,16) jid by simp
  with l stranded_row [of ?j "wk_ID W" "db w1"] stranded_row [of ?j "wk_ID W" "db w2"] jid
  show ?thesis by simp
qed

definition stop_acts :: "zlist world recovery_act list" where
  "stop_acts =
     [Recover demo_worker, Deliver demo_worker,
      Reap (NewWorkerSupervisor True (Some (RedisQueue zlist_ops hex_uuid_ops quiet_env)) 0 0),
      Poll (NewRetryScheduler (RedisQueue zlist_ops hex_uuid_ops quiet_env) 0 0)]"

theorem shutdown_strands_job_witness:
  "\<exists>w1 w2 j'. run_state (stopped_during quiet_env (RedisQueue zlist_ops hex_uuid_ops) 4 demo_worker 7)
       demo_jobs_world = ((), w1) \<and>
     run_state (for_each stop_acts () (\<lambda>x _. rescue quiet_env 7 x)) w1 = ((), w2) \<and>
     job_row 7 (db w2) = Some j' \<and> j_Status j' = JobStatusRunning \<and> j_Attempt j' = 1"
proof -
  obtain w1 where 1: "run_state (stopped_during quiet_env (RedisQueue zlist_ops hex_uuid_ops) 4 demo_worker 7)
       demo_jobs_world = ((), w1)" by (metis old.unit.exhaust surj_pair)
  obtain w2 where 2: "run_state (for_each stop_acts () (\<lambda>x _. rescue quiet_env 7 x)) w1 = ((), w2)"
    by (metis old.unit.exhaust surj_pair)
  have job: "claimable (demo_job 7 1)" "int4 (j_Attempt (demo_job 7 1) + 1)"
    "\<forall>x \<in> set (jobs_table (db demo_jobs_world)). j_ID x \<noteq> uuid_Nil" "tick demo_jobs_world = 0"
    by (simp_all add: claimable_def int4_def demo_jobs_world_def demo_world_def)
  have W: "wk_Handlers demo_worker (j_Type (demo_job 7 1)) = Some (\<lambda>payload n. if n mod 2 = 0 then None else Some ''boom'')"
    "wk_Workers demo_worker"
    by (simp_all add: demo_worker_def RegisterHandler_def NewWorker_def)
  have acts: "\<forall>x \<in> set stop_acts. on_queue (RedisQueue zlist_ops hex_uuid_ops quiet_env) x"
    by (simp add: stop_acts_def demo_worker_parts NewWorkerSupervisor_def NewRetryScheduler_def)
  from shutdown_strands_job [OF zl_hex.redis_server_axioms reliable_quiet_env demo_jobs_canonical
      demo_jobs_row(2) job(3) demo_jobs_row(1) job(1,2) W demo_worker_parts(1) _ _ 1 acts 2] job(4) 1 2
  show ?thesis by (auto simp: run_job_def)
qed

end
