(* ===== verification/Dag_Order.thy ===== *)
theory Dag_Order
  imports Job_Props
begin

text \<open>
  The order in which a workflow's tasks run. A task counts as started when it has a job or ever
  left PENDING other than by cancellation; \<open>ordered\<close> says that every dependency of a started task
  has SUCCEEDED. The engine keeps it in every pass, under any faults, while job statements,
  workflow creations and cancellations of other processes fall between any two of its calls; the
  one thing assumed is that no second engine updates tasks meanwhile (locale \<open>one_engine\<close>).
\<close>

section \<open>Started tasks\<close>

definition started :: "workflow_task \<Rightarrow> bool" where
  "started t \<longleftrightarrow> t_JobID t \<noteq> None \<or> t_Status t \<in>
     {WorkflowTaskStatusRunning, WorkflowTaskStatusSucceeded, WorkflowTaskStatusFailed}"

definition deps_done :: "workflow_task list \<Rightarrow> workflow_task \<Rightarrow> bool" where
  "deps_done ts t \<longleftrightarrow>
     (\<forall>dep \<in> set (t_Dependencies t). \<forall>p \<in> set ts. t_WorkflowID p = t_WorkflowID t \<and> t_Name p = dep \<longrightarrow>
        t_Status p = WorkflowTaskStatusSucceeded)"

definition ordered :: "db \<Rightarrow> bool" where
  "ordered d \<longleftrightarrow> (\<forall>t \<in> set (tasks_table d). started t \<longrightarrow> deps_done (tasks_table d) t)"

section \<open>What others do to the tasks\<close>

definition later :: "task_status \<Rightarrow> task_status \<Rightarrow> bool" where
  "later a b \<longleftrightarrow> b = a \<or>
     a \<in> {WorkflowTaskStatusPending, WorkflowTaskStatusRunning} \<and> b = WorkflowTaskStatusCancelled"

definition near :: "workflow_task \<Rightarrow> workflow_task \<Rightarrow> bool" where
  "near t r \<longleftrightarrow> same_place t r \<and> later (t_Status t) (t_Status r) \<and> t_JobID r = t_JobID t"

definition tasks_later :: "workflow_task list \<Rightarrow> workflow_task list \<Rightarrow> bool" where
  "tasks_later ts ts' \<longleftrightarrow>
     (\<forall>t \<in> set ts. \<exists>r \<in> set ts'. near t r) \<and>
     (\<forall>r \<in> set ts'. (\<exists>t \<in> set ts. near t r) \<or>
        \<not> started r \<and> t_WorkflowID r \<notin> t_WorkflowID ` set ts)"

definition flow_step :: "db \<Rightarrow> db \<Rightarrow> bool" where
  "flow_step d d' \<longleftrightarrow> db_step d d' \<and> tasks_later (tasks_table d) (tasks_table d')"

lemma near_refl: "near t t"
  by (simp add: near_def same_place_def later_def)

lemma near_trans: "near t r \<Longrightarrow> near r s \<Longrightarrow> near t s"
  by (auto simp: near_def same_place_def later_def)

lemma near_started: "near t r \<Longrightarrow> started r \<Longrightarrow> started t"
  by (auto simp: near_def started_def later_def)

lemma near_succeeded: "near t r \<Longrightarrow> t_Status t = WorkflowTaskStatusSucceeded \<Longrightarrow>
   t_Status r = WorkflowTaskStatusSucceeded"
  by (simp add: near_def later_def)

lemma near_place:
  assumes "near t r"
  shows "t_ID r = t_ID t" "t_WorkflowID r = t_WorkflowID t" "t_Name r = t_Name t"
    "t_Dependencies r = t_Dependencies t" "t_JobID r = t_JobID t"
  using assms by (simp_all add: near_def same_place_def)

lemma tasks_later_refl: "tasks_later ts ts"
  using near_refl by (auto simp: tasks_later_def)

text \<open>Every statement of the program but the update of a task is such a step.\<close>

lemma tasks_later_create:
  assumes "insert_tasks ids wid now trs k ts = Inr us" and "tasks_ok W ts" and "wid \<notin> W"
  shows "tasks_later ts (ts @ us)"
proof -
  have us: "\<forall>t \<in> set us. t_WorkflowID t = wid \<and> t_JobID t = None \<and> t_Status t = WorkflowTaskStatusPending"
    using insert_tasks_rows [OF assms(1)] assms(2) by (simp add: tasks_ok_def)
  have "wid \<notin> t_WorkflowID ` set ts" using assms(2,3) by (auto simp: tasks_ok_def)
  with us show ?thesis using near_refl unfolding tasks_later_def started_def by fastforce
qed

lemma tasks_later_cancel:
  "tasks_later ts (update_where
     (\<lambda>t. t_WorkflowID t = wid \<and> t_Status t \<in> {WorkflowTaskStatusPending, WorkflowTaskStatusRunning})
     (\<lambda>t. t\<lparr>t_Status := WorkflowTaskStatusCancelled, t_CompletedAt := c, t_UpdatedAt := now\<rparr>) ts)"
proof -
  let ?p = "\<lambda>t. t_WorkflowID t = wid \<and> t_Status t \<in> {WorkflowTaskStatusPending, WorkflowTaskStatusRunning}"
  let ?f = "\<lambda>t. t\<lparr>t_Status := WorkflowTaskStatusCancelled, t_CompletedAt := c, t_UpdatedAt := now\<rparr>"
  have n: "near t (if ?p t then ?f t else t)" for t
    by (auto simp: near_def same_place_def later_def)
  show ?thesis
    unfolding tasks_later_def update_where_def set_map using n by blast
qed

lemma flow_step_statement:
  assumes "db_step d d'" and "db_ok d"
    and "\<And>tid tst jobID err now. d' \<noteq> snd (update_task_stmt tid tst jobID err now d)"
  shows "flow_step d d'"
proof -
  have "tasks_later (tasks_table d) (tasks_table d')"
    using assms(1)
  proof cases
    case (CreateWorkflow req ids now)
    have "tasks_ok (wf_ID ` set (workflows_table d)) (tasks_table d)" using assms(2) by (simp add: db_ok_def)
    then show ?thesis
      unfolding CreateWorkflow(1) create_workflow_stmt_def Let_def
      using tasks_later_create tasks_later_refl
      by (auto simp: new_workflow_def split: sum.split)
  next
    case (CancelWorkflow fid now)
    then show ?thesis using tasks_later_cancel by (simp add: cancel_workflow_stmt_def Let_def)
  next
    case (UpdateTask tid tst jobID err now)
    then show ?thesis using assms(3) by blast
  qed (simp_all add: stmt_defs Let_def claim_next_frame tasks_later_refl split: list.split)
  with assms(1) show ?thesis by (simp add: flow_step_def)
qed

section \<open>What the engine knows between its calls\<close>

text \<open>
  \<open>known X Z d\<close>: the database is sound and ordered, the tasks \<open>X\<close> the engine read are still there
  but for cancellations, and the dependencies of the tasks \<open>Z\<close> among them have succeeded.
\<close>

definition known :: "workflow_task list \<Rightarrow> workflow_task list \<Rightarrow> db \<Rightarrow> bool" where
  "known X Z d \<longleftrightarrow> db_ok d \<and> ordered d \<and> (\<forall>t \<in> set X. \<exists>r \<in> set (tasks_table d). near t r) \<and>
     set Z \<subseteq> set X \<and> (\<forall>t \<in> set Z. deps_done (tasks_table d) t)"

lemma knownD:
  assumes "known X Z d"
  shows "db_ok d" "ordered d" "\<And>t. t \<in> set X \<Longrightarrow> \<exists>r \<in> set (tasks_table d). near t r"
    "set Z \<subseteq> set X" "\<And>t. t \<in> set Z \<Longrightarrow> deps_done (tasks_table d) t"
  using assms by (auto simp: known_def)

lemma known_sub: "known X Z d \<Longrightarrow> set X' \<subseteq> set X \<Longrightarrow> set Z' \<subseteq> set Z \<Longrightarrow> set Z' \<subseteq> set X' \<Longrightarrow> known X' Z' d"
  unfolding known_def by blast

lemma deps_done_later:
  assumes "tasks_later ts ts'" and "deps_done ts t" and "t_WorkflowID t \<in> t_WorkflowID ` set ts"
  shows "deps_done ts' t"
  unfolding deps_done_def
proof (intro ballI impI, elim conjE)
  fix dep p
  assume p: "dep \<in> set (t_Dependencies t)" "p \<in> set ts'" "t_WorkflowID p = t_WorkflowID t" "t_Name p = dep"
  then obtain q where q: "q \<in> set ts" "near q p"
    using assms(1,3) unfolding tasks_later_def by metis
  then have "t_Status q = WorkflowTaskStatusSucceeded"
    using assms(2) p near_place [OF q(2)] unfolding deps_done_def by metis
  then show "t_Status p = WorkflowTaskStatusSucceeded" by (rule near_succeeded [OF q(2)])
qed

lemma deps_done_near: "near t r \<Longrightarrow> deps_done ts r = deps_done ts t"
  by (simp add: deps_done_def near_place)

lemma ordered_later:
  assumes "tasks_later (tasks_table d) (tasks_table d')" and "ordered d"
  shows "ordered d'"
  unfolding ordered_def
proof (intro ballI impI)
  fix r
  assume r: "r \<in> set (tasks_table d')" "started r"
  then obtain t where t: "t \<in> set (tasks_table d)" "near t r"
    using assms(1) unfolding tasks_later_def by blast
  then have "deps_done (tasks_table d) t"
    using assms(2) near_started [OF t(2) r(2)] by (simp add: ordered_def)
  then have "deps_done (tasks_table d') t"
    using deps_done_later [OF assms(1)] t(1) by blast
  then show "deps_done (tasks_table d') r" by (simp add: deps_done_near [OF t(2)])
qed

lemma known_step:
  assumes "flow_step d d'" and "known X Z d"
  shows "known X Z d'"
proof -
  have l: "tasks_later (tasks_table d) (tasks_table d')" and st: "db_step d d'"
    using assms(1) by (simp_all add: flow_step_def)
  note k = knownD [OF assms(2)]
  have "\<exists>r \<in> set (tasks_table d'). near t r" if "t \<in> set X" for t
    using k(3) [OF that] l near_trans unfolding tasks_later_def by blast
  moreover have "deps_done (tasks_table d') t" if z: "t \<in> set Z" for t
  proof (rule deps_done_later [OF l k(5) [OF z]])
    obtain r where "r \<in> set (tasks_table d)" "near t r" using k(3,4) z by blast
    then show "t_WorkflowID t \<in> t_WorkflowID ` set (tasks_table d)" using near_place by (metis image_eqI)
  qed
  ultimately show ?thesis
    unfolding known_def using db_ok_step [OF st k(1)] ordered_later [OF l k(2)] k(4) by blast
qed

lemma known_steps: "flow_step\<^sup>*\<^sup>* d d' \<Longrightarrow> known X Z d \<Longrightarrow> known X Z d'"
  by (induction rule: rtranclp_induct) (auto intro: known_step)

text \<open>The engine's own updates.\<close>

lemma update_task_cases:
  "snd (update_task_stmt tid st j e now d) = d \<or>
   snd (update_task_stmt tid st j e now d) =
     d\<lparr>tasks_table := update_where (\<lambda>t. t_ID t = tid) (set_task st j e now) (tasks_table d)\<rparr>"
  by (simp add: update_task_stmt_def)

lemma set_task_fields:
  "t_ID (set_task st j e now t) = t_ID t" "t_WorkflowID (set_task st j e now t) = t_WorkflowID t"
  "t_Name (set_task st j e now t) = t_Name t" "t_Dependencies (set_task st j e now t) = t_Dependencies t"
  "t_Status (set_task st j e now t) = st"
  by (simp_all add: set_task_def)

lemma started_set_task:
  "started (set_task st j e now t) \<longleftrightarrow> t_JobID t \<noteq> None \<or> j \<noteq> None \<or>
     st \<in> {WorkflowTaskStatusRunning, WorkflowTaskStatusSucceeded, WorkflowTaskStatusFailed}"
  by (auto simp: started_def set_task_def COALESCE_def split: option.split)

lemma deps_done_update:
  assumes "deps_done ts t" and "\<And>r. r \<in> set ts \<Longrightarrow> t_ID r = tid \<Longrightarrow> t_Status r \<noteq> WorkflowTaskStatusSucceeded"
  shows "deps_done (update_where (\<lambda>t. t_ID t = tid) (set_task st j e now) ts) t"
  unfolding deps_done_def
proof (intro ballI impI, elim conjE)
  fix dep p
  assume p: "dep \<in> set (t_Dependencies t)" "p \<in> set (update_where (\<lambda>t. t_ID t = tid) (set_task st j e now) ts)"
    "t_WorkflowID p = t_WorkflowID t" "t_Name p = dep"
  from p(2) consider (upd) q where "q \<in> set ts" "t_ID q = tid" "p = set_task st j e now q"
    | (same) "p \<in> set ts" "t_ID p \<noteq> tid"
    by (auto simp: rows)
  then show "t_Status p = WorkflowTaskStatusSucceeded"
  proof cases
    case upd
    then have "t_Status q = WorkflowTaskStatusSucceeded"
      using assms(1) p by (simp add: deps_done_def set_task_fields)
    with assms(2) upd show ?thesis by blast
  next
    case same
    then show ?thesis using assms(1) p by (simp add: deps_done_def)
  qed
qed

lemma ordered_update:
  assumes "ordered d" and "\<And>r. r \<in> set (tasks_table d) \<Longrightarrow> t_ID r = tid \<Longrightarrow>
      t_Status r \<noteq> WorkflowTaskStatusSucceeded \<and>
      (started (set_task st j e now r) \<longrightarrow> deps_done (tasks_table d) r)"
  shows "ordered (d\<lparr>tasks_table := update_where (\<lambda>t. t_ID t = tid) (set_task st j e now) (tasks_table d)\<rparr>)"
  unfolding ordered_def
proof (intro ballI impI)
  let ?ts = "update_where (\<lambda>t. t_ID t = tid) (set_task st j e now) (tasks_table d)"
  fix t
  assume t: "t \<in> set (tasks_table (d\<lparr>tasks_table := ?ts\<rparr>))" "started t"
  from t(1) consider (upd) q where "q \<in> set (tasks_table d)" "t_ID q = tid" "t = set_task st j e now q"
    | (same) "t \<in> set (tasks_table d)" "t_ID t \<noteq> tid"
    by (auto simp: rows)
  then have "deps_done (tasks_table d) t"
  proof cases
    case upd
    then have "deps_done (tasks_table d) q" using assms(2) t(2) by blast
    then show ?thesis by (simp add: upd(3) deps_done_def set_task_fields)
  next
    case same
    then show ?thesis using assms(1) t(2) by (simp add: ordered_def)
  qed
  from deps_done_update [OF this] assms(2)
  show "deps_done (tasks_table (d\<lparr>tasks_table := ?ts\<rparr>)) t" by simp
qed

lemma known_row:
  assumes "known X Z d" and "t \<in> set X" and "r \<in> set (tasks_table d)" and "t_ID r = t_ID t"
  shows "near t r"
proof -
  obtain q where q: "q \<in> set (tasks_table d)" "near t q" using knownD(3) [OF assms(1,2)] by blast
  have "distinct (map t_ID (tasks_table d))"
    using knownD(1) [OF assms(1)] by (simp add: db_ok_def tasks_ok_def)
  then have "q = r" using q near_place(1) [OF q(2)] assms(3,4) by (auto simp: distinct_map inj_on_def)
  with q show ?thesis by simp
qed

lemma known_update:
  assumes k: "known X Z d" and t: "t \<in> set X"
    and st: "t_Status t \<in> {WorkflowTaskStatusPending, WorkflowTaskStatusRunning}"
    and ok: "t_JobID t \<noteq> None \<or> t \<in> set Z \<or> tst = WorkflowTaskStatusCancelled \<and> j = None"
    and sub: "set X' \<subseteq> set X" "set Z' \<subseteq> set Z" "set Z' \<subseteq> set X'" "\<forall>x \<in> set X'. t_ID x \<noteq> t_ID t"
  shows "known X' Z' (snd (update_task_stmt (t_ID t) tst j e now d))"
proof -
  let ?d = "d\<lparr>tasks_table := update_where (\<lambda>x. t_ID x = t_ID t) (set_task tst j e now) (tasks_table d)\<rparr>"
  note k' = known_sub [OF k sub(1-3)]
  have row: "t_Status r \<noteq> WorkflowTaskStatusSucceeded \<and>
      (started (set_task tst j e now r) \<longrightarrow> deps_done (tasks_table d) r)"
    if r: "r \<in> set (tasks_table d)" "t_ID r = t_ID t" for r
  proof -
    have n: "near t r" by (rule known_row [OF k t r])
    have "t_Status r \<noteq> WorkflowTaskStatusSucceeded" using n st by (auto simp: near_def later_def)
    moreover have "deps_done (tasks_table d) r" if s: "started (set_task tst j e now r)"
    proof (cases "t \<in> set Z")
      case True
      then show ?thesis using knownD(5) [OF k] deps_done_near [OF n] by blast
    next
      case False
      then have "t_JobID r \<noteq> None"
        using s ok near_place(5) [OF n] by (auto simp: started_set_task)
      then show ?thesis using knownD(2) [OF k] r(1) by (auto simp: ordered_def started_def)
    qed
    ultimately show ?thesis by blast
  qed
  have "known X' Z' ?d" if "db_ok ?d"
  proof -
    have "\<exists>r \<in> set (tasks_table ?d). near x r" if x: "x \<in> set X'" for x
    proof -
      obtain r where r: "r \<in> set (tasks_table d)" "near x r" using knownD(3) [OF k' x] by blast
      moreover have "t_ID r \<noteq> t_ID t" using sub(4) x near_place(1) [OF r(2)] by simp
      ultimately show ?thesis by (auto simp: rows)
    qed
    moreover have "deps_done (tasks_table ?d) x" if "x \<in> set Z'" for x
      using deps_done_update [OF knownD(5) [OF k' that]] row by simp
    moreover have "ordered ?d" by (rule ordered_update [OF knownD(2) [OF k] row])
    ultimately show ?thesis unfolding known_def using \<open>db_ok ?d\<close> sub(3) by blast
  qed
  moreover have "db_ok (snd (update_task_stmt (t_ID t) tst j e now d))"
    by (rule db_ok_step [OF db_step.UpdateTask knownD(1) [OF k]])
  ultimately show ?thesis
    using update_task_cases [of "t_ID t" tst j e now d] k' by metis
qed

section \<open>Triples\<close>

lemma valid_for_each:
  "(\<And>x xs acc. valid (I (x # xs) acc) (body x acc) (\<lambda>acc'. I xs acc')) \<Longrightarrow>
   valid (I xs acc) (for_each xs acc body) (\<lambda>acc'. I [] acc')"
proof (induction xs arbitrary: acc)
  case (Cons x xs)
  show ?case
    unfolding for_each.simps by (rule valid_bind [OF Cons.prems Cons.IH [OF Cons.prems]])
qed (simp add: valid_return)

lemma valid_if: "(b \<Longrightarrow> valid P m Q) \<Longrightarrow> (\<not> b \<Longrightarrow> valid P n Q) \<Longrightarrow> valid P (if b then m else n) Q"
  by simp

lemma valid_sum:
  "(\<And>e. x = Inl e \<Longrightarrow> valid P (f e) Q) \<Longrightarrow> (\<And>v. x = Inr v \<Longrightarrow> valid P (g v) Q) \<Longrightarrow>
   valid P (case x of Inl e \<Rightarrow> f e | Inr v \<Rightarrow> g v) Q"
  by (cases x) simp_all

lemma valid_option:
  "(x = None \<Longrightarrow> valid P m Q) \<Longrightarrow> (\<And>v. x = Some v \<Longrightarrow> valid P (f v) Q) \<Longrightarrow>
   valid P (case x of None \<Rightarrow> m | Some v \<Rightarrow> f v) Q"
  by (cases x) simp_all

lemma valid_triple:
  "(\<And>a b c. valid (P a b c) (f a b c) Q) \<Longrightarrow>
   valid (case x of (a, b, c) \<Rightarrow> P a b c) (case x of (a, b, c) \<Rightarrow> f a b c) Q"
  by (cases x) simp

lemma valid_pure: "(b \<Longrightarrow> valid P m Q) \<Longrightarrow> valid (\<lambda>s. P s \<and> b) m Q"
  by (auto simp: valid_def)

lemma valid_pg:
  assumes "rely P E"
    and "\<And>n d. P d \<Longrightarrow> Q (fst (f n d)) (snd (f n d)) \<and> Q (Inl ErrIO) (snd (f n d))"
    and "\<And>d. P d \<Longrightarrow> Q (Inl ErrIO) d"
  shows "valid (\<lambda>w. P (db w)) (pg E f) (\<lambda>r w. Q r (db w))"
  unfolding valid_def
proof (intro allI impI)
  fix w :: "'a world"
  assume "P (db w)"
  then have p: "P (db (settle E w))" by (rule settle_rely [OF assms(1)])
  obtain r w' where run: "run_state (pg E f) w = (r, w')" by fastforce
  obtain v d where "f (tick w) (db (settle E w)) = (v, d)"
      "fault E (tick w) = Delivered \<and> r = v \<and> w' = (settle E w)\<lparr>db := d\<rparr> \<or>
       fault E (tick w) = Refused \<and> r = Inl ErrIO \<and> w' = settle E w \<or>
       fault E (tick w) = NoReply \<and> r = Inl ErrIO \<and> w' = (settle E w)\<lparr>db := d\<rparr>"
    by (rule run_pg_cases [OF run])
  then have "Q r (db w')" using assms(2) [OF p, of "tick w"] assms(3) [OF p] by auto
  then show "Q (fst (run_state (pg E f) w)) (db (snd (run_state (pg E f) w)))" by (simp add: run)
qed

definition pending :: "workflow_task \<Rightarrow> bool" where
  "pending t \<longleftrightarrow> t_Status t = WorkflowTaskStatusPending"

locale one_engine =
  fixes E :: "'z env"
  assumes others_flow: "flow_step\<^sup>*\<^sup>* d (fst (others E n (d, r)))"
begin

abbreviation K :: "workflow_task list \<Rightarrow> workflow_task list \<Rightarrow> 'z world \<Rightarrow> bool" where
  "K X Z \<equiv> \<lambda>w. known X Z (db w)"

lemma rely_known: "rely (known X Z) E"
  unfolding rely_def using known_steps [OF others_flow] by blast

lemma keeps_statement:
  assumes "\<And>n d. db_ok d \<Longrightarrow> flow_step d (snd (f n d)) \<or> snd (f n d) = d"
  shows "keeps (K X Z) (pg E f)"
proof (rule keeps_pg [OF rely_known])
  fix n d
  assume "known X Z d"
  then show "known X Z (snd (f n d))"
    using assms [of d n] known_step knownD(1) by metis
qed

lemma keeps_read: "keeps (K X Z) (pg E (\<lambda>n d. (q n d, d)))"
  by (rule keeps_statement) simp

lemma valid_update:
  assumes "t \<in> set X" and "t_Status t \<in> {WorkflowTaskStatusPending, WorkflowTaskStatusRunning}"
    and "t_JobID t \<noteq> None \<or> t \<in> set Z \<or> tst = WorkflowTaskStatusCancelled \<and> j = None"
    and "set X' \<subseteq> set X" and "set Z' \<subseteq> set Z" and "set Z' \<subseteq> set X'" and "\<forall>x \<in> set X'. t_ID x \<noteq> t_ID t"
  shows "valid (K X Z) (WorkflowStore_UpdateTask E (t_ID t) tst j e) (\<lambda>_. K X' Z')"
  unfolding WorkflowStore_UpdateTask_def
  by (rule valid_pg [where Q = "\<lambda>_. known X' Z'", OF rely_known])
    (use known_update [OF _ assms] known_sub [OF _ assms(4-6)] in blast)+

lemma flow_job_statement:
  "db_step d d' \<Longrightarrow> tasks_table d' = tasks_table d \<Longrightarrow> flow_step d d'"
  by (simp add: flow_step_def tasks_later_refl)

lemma keeps_task_request:
  "keeps (K X Z) (JobStore_Create E (task_job_request U wid t))"
proof -
  have "keeps (K X Z) (pg E (\<lambda>n. insert_job_stmt (fresh E n 0) (clock E n) ty payload
      DefaultPriority DefaultMaxAttempts key q))" for ty payload key q
    by (rule keeps_statement, rule disjI1, rule flow_job_statement, rule db_step.Insert)
      (simp_all add: default_defs insert_job_stmt_def Let_def)
  then show ?thesis
    unfolding JobStore_Create_def findByIdempotencyKey_def Let_def task_job_request_def
    by (simp, intro pres keeps_read)
qed

lemma keeps_JobStore_Get: "keeps (K X Z) (JobStore_Get E jid)"
  unfolding JobStore_Get_def by (intro pres keeps_read)

lemma keeps_UpdateStatus: "keeps (K X Z) (WorkflowStore_UpdateStatus E wid st e)"
  unfolding WorkflowStore_UpdateStatus_def
  by (rule keeps_statement, rule disjI1, rule flow_job_statement, rule db_step.UpdateWorkflow)
    (simp add: update_workflow_stmt_def)

lemma keeps_Enqueue: "keeps (K X Z) (q_Enqueue (RedisQueue R U E) j)"
  by (rule queue_keepsD(1) [OF queue_keeps_RedisQueue [OF rely_known]])

text \<open>One task of the first loop; \<open>P\<close> are the pending tasks seen before, \<open>X\<close> those to come.\<close>

lemma valid_inspect:
  assumes dist: "distinct (map t_ID (P @ t # X))"
  shows "valid (K (P @ t # X) []) (inspect_task E W t)
    (\<lambda>t' w. K (P @ filter pending [t'] @ X) [] w \<and> t_ID t' = t_ID t)"
proof -
  have same: "valid (K (P @ t # X) []) (State_Monad.return t)
      (\<lambda>t' w. K (P @ filter pending [t'] @ X) [] w \<and> t_ID t' = t_ID t)"
    by (rule valid_return) (auto elim!: known_sub)
  have upd: "valid (K (P @ t # X) [])
      (do { _ \<leftarrow> WorkflowStore_UpdateTask E (t_ID t) st None e; State_Monad.return t' })
      (\<lambda>t' w. K (P @ filter pending [t'] @ X) [] w \<and> t_ID t' = t_ID t)"
    if "t_JobID t \<noteq> None" "t_Status t = WorkflowTaskStatusRunning" "\<not> pending t'" "t_ID t' = t_ID t" for st e t'
  proof (rule valid_bind)
    show "valid (K (P @ t # X) []) (WorkflowStore_UpdateTask E (t_ID t) st None e) (\<lambda>_. K (P @ X) [])"
      by (rule valid_update) (use that(1,2) dist in \<open>auto simp: image_iff\<close>)
    show "valid (K (P @ X) []) (State_Monad.return t')
        (\<lambda>t' w. K (P @ filter pending [t'] @ X) [] w \<and> t_ID t' = t_ID t)"
      by (rule valid_return) (use that(3,4) in simp)
  qed
  show ?thesis
  proof (cases "t_JobID t")
    case None
    then show ?thesis using same by (simp add: inspect_task_def)
  next
    case (Some jid)
    show ?thesis
    proof (cases "t_Status t = WorkflowTaskStatusRunning \<and> we_Jobs W")
      case True
      then have run: "t_JobID t \<noteq> None" "t_Status t = WorkflowTaskStatusRunning" using Some by simp_all
      show ?thesis
        unfolding inspect_task_def Some option.case if_P [OF True]
        by (rule valid_bind [OF keeps_valid [OF keeps_JobStore_Get]], intro valid_sum valid_option valid_if same)
          (rule upd [OF run]; simp add: pending_def)+
    next
      case False
      show ?thesis unfolding inspect_task_def Some option.case if_not_P [OF False] by (rule same)
    qed
  qed
qed

lemma valid_inspect_tasks:
  "valid (\<lambda>w. K tasks [] w \<and> distinct (map t_ID tasks)) (inspect_tasks E W tasks)
    (\<lambda>(seen, failed, alls) w. K (filter pending seen) [] w \<and> distinct (map t_ID (filter pending seen)))"
proof -
  let ?I = "\<lambda>xs (acc :: workflow_task list \<times> workflow_task option \<times> bool) w. K (filter pending (fst acc) @ xs) [] w \<and> distinct (map t_ID (filter pending (fst acc) @ xs))"
  have body: "valid (?I (x # xs) acc)
      ((\<lambda>task0 (seen, failedTask, allSucceeded). do {
       task \<leftarrow> inspect_task E W task0;
       State_Monad.return
         (if t_Status task = WorkflowTaskStatusFailed then (seen @ [task], Some task, False)
          else if t_Status task \<noteq> WorkflowTaskStatusSucceeded then (seen @ [task], failedTask, False)
          else (seen @ [task], failedTask, allSucceeded))
     }) x acc) (\<lambda>acc'. ?I xs acc')" for x xs acc
  proof (cases acc)
    case (fields seen failed alls)
    have "valid (?I (x # xs) acc) (inspect_task E W x)
        (\<lambda>x' w. K (filter pending seen @ filter pending [x'] @ xs) [] w \<and>
           distinct (map t_ID (filter pending seen @ filter pending [x'] @ xs)))"
      unfolding fields fst_conv
    proof (rule valid_pure)
      assume dist: "distinct (map t_ID (filter pending seen @ x # xs))"
      show "valid (K (filter pending seen @ x # xs) []) (inspect_task E W x)
        (\<lambda>x' w. K (filter pending seen @ filter pending [x'] @ xs) [] w \<and>
           distinct (map t_ID (filter pending seen @ filter pending [x'] @ xs)))"
        by (rule valid_weaken [OF valid_inspect [OF dist]]) (use dist in auto)
    qed
    then show ?thesis
      unfolding fields prod.case
      by (rule valid_bind, intro valid_return)
        (simp only: if_distrib [of fst] fst_conv if_cancel filter_append append_assoc)
  qed
  have "valid (?I tasks ([], None, True)) (inspect_tasks E W tasks) (\<lambda>acc'. ?I [] acc')"
    unfolding inspect_tasks_def by (rule valid_for_each [where I = ?I, OF body])
  then show ?thesis by (rule valid_weaken) auto
qed

lemma valid_fail_workflow:
  "valid (\<lambda>w. K (filter pending ts) [] w \<and> distinct (map t_ID (filter pending ts)))
     (fail_workflow E wid t ts) (\<lambda>_. K [] [])"
proof -
  let ?I = "\<lambda>xs acc w. K (filter pending xs) [] w \<and> distinct (map t_ID (filter pending xs))"
  have body: "valid (?I (x # xs) acc)
      (if t_Status x = WorkflowTaskStatusPending then do {
         _ \<leftarrow> WorkflowStore_UpdateTask E (t_ID x) WorkflowTaskStatusCancelled None None;
         State_Monad.return ()
       }
       else State_Monad.return ()) (\<lambda>acc'. ?I xs acc')" for x xs acc
  proof (cases "pending x \<and> distinct (map t_ID (filter pending (x # xs)))")
    case True
    then have p: "pending x" and "distinct (map t_ID (filter pending (x # xs)))" by blast+
    then have "t_ID x \<notin> t_ID ` set (filter pending xs)" by simp
    then have fresh: "\<forall>y \<in> set (filter pending xs). t_ID y \<noteq> t_ID x" by (metis imageI)
    have "valid (K (filter pending (x # xs)) [])
        (WorkflowStore_UpdateTask E (t_ID x) WorkflowTaskStatusCancelled None None)
        (\<lambda>_ w. K (filter pending xs) [] w)"
      by (rule valid_update) (use True fresh in \<open>auto simp: pending_def\<close>)
    then have "valid (?I (x # xs) acc)
        (WorkflowStore_UpdateTask E (t_ID x) WorkflowTaskStatusCancelled None None) (\<lambda>_. ?I xs acc)"
      using True by (auto simp: valid_def pending_def)
    then show ?thesis using True
      by (auto simp: pending_def intro!: valid_bind [where R = "\<lambda>_. ?I xs acc"] valid_return)
  next
    case False
    then show ?thesis by (auto simp: valid_def pending_def)
  qed
  have "valid (?I ts ()) (fail_workflow E wid t ts) (\<lambda>acc'. ?I [] acc')"
    unfolding fail_workflow_def
  proof (rule valid_bind)
    show "valid (?I ts ()) (WorkflowStore_UpdateStatus E wid WorkflowStatusFailed (Some (failure_message t)))
        (\<lambda>_. ?I ts ())"
      using keeps_UpdateStatus [of "filter pending ts" "[]"] by (auto simp: keeps_def valid_def)
  qed (rule valid_for_each [where I = ?I, OF body])
  then show ?thesis by (rule valid_weaken) auto
qed

text \<open>The tasks that are ready, and their jobs.\<close>

lemma valid_GetReadyTasks:
  "valid (K [] []) (WorkflowStore_GetReadyTasks E wid)
    (\<lambda>r w. case r of Inl e \<Rightarrow> K [] [] w
       | Inr ts \<Rightarrow> K ts ts w \<and> (distinct (map t_ID ts) \<and> (\<forall>t \<in> set ts. pending t)))"
  unfolding WorkflowStore_GetReadyTasks_def
proof (rule valid_pg [where Q = "\<lambda>r d. case r of Inl e \<Rightarrow> known [] [] d
       | Inr ts \<Rightarrow> known ts ts d \<and> (distinct (map t_ID ts) \<and> (\<forall>t \<in> set ts. pending t))", OF rely_known])
  fix n d
  assume k: "known [] [] d"
  let ?ts = "sort_key t_CreatedAt (filter (ready_task d wid) (tasks_table d))"
  have "distinct (map t_ID (filter (ready_task d wid) (tasks_table d)))"
    using knownD(1) [OF k] by (simp add: db_ok_def tasks_ok_def distinct_map_filter)
  then have "distinct (map t_ID ?ts)" by (simp add: distinct_map)
  moreover have "deps_done (tasks_table d) t" if "ready_task d wid t" for t
    using that by (auto simp: ready_task_def deps_done_def list_ex_iff)
  moreover have "pending t" if "ready_task d wid t" for t using that by (simp add: ready_task_def pending_def)
  ultimately show "(case fst (Inr ?ts, d) of Inl e \<Rightarrow> known [] [] (snd (Inr ?ts, d))
       | Inr ts \<Rightarrow> known ts ts (snd (Inr ?ts, d)) \<and> (distinct (map t_ID ts) \<and> (\<forall>t \<in> set ts. pending t))) \<and>
     (case Inl ErrIO of Inl e \<Rightarrow> known [] [] (snd (Inr ?ts, d))
       | Inr ts \<Rightarrow> known ts ts (snd (Inr ?ts, d)) \<and> (distinct (map t_ID ts) \<and> (\<forall>t \<in> set ts. pending t)))"
    using k near_refl by (auto simp: known_def)
qed simp

lemma valid_schedule:
  assumes t: "pending t" and dist: "distinct (map t_ID (t # ts))"
    and Q: "\<forall>q. we_Q W = Some q \<longrightarrow> q = RedisQueue R V E"
  shows "valid (K (t # ts) (t # ts)) (schedule_task U E W wid t) (\<lambda>_. K ts ts)"
proof -
  have drop: "valid (K (t # ts) (t # ts)) (State_Monad.return ()) (\<lambda>_. K ts ts)"
    by (rule valid_return) (auto elim!: known_sub)
  have fresh: "\<forall>x \<in> set ts. t_ID x \<noteq> t_ID t" using dist by (auto simp: image_iff)
  have upd: "valid (K (t # ts) (t # ts))
      (WorkflowStore_UpdateTask E (t_ID t) WorkflowTaskStatusRunning (Some j) None) (\<lambda>_. K ts ts)" for j
    by (rule valid_update) (use t fresh in \<open>auto simp: pending_def\<close>)
  have stay: "valid (K ts ts) (State_Monad.return ()) (\<lambda>_. K ts ts)" by (rule valid_return)
  have enq: "valid (K ts ts) (do { _ \<leftarrow> q_Enqueue q j; State_Monad.return () }) (\<lambda>_. K ts ts)"
    if "we_Q W = Some q" for q j
    using Q that keeps_Enqueue [of ts ts R V j]
    by (auto intro!: valid_bind [OF keeps_valid] valid_return)
  show ?thesis
    unfolding schedule_task_def
    by (intro valid_if drop valid_bind [OF keeps_valid [OF keeps_task_request]])
      (auto intro!: valid_sum drop valid_bind [OF upd] valid_option valid_if stay enq split: prod.split)
qed

lemma valid_schedule_loop:
  assumes Q: "\<forall>q. we_Q W = Some q \<longrightarrow> q = RedisQueue R V E"
  shows "valid (\<lambda>w. K ts ts w \<and> (distinct (map t_ID ts) \<and> (\<forall>t \<in> set ts. pending t)))
    (for_each ts () (\<lambda>task _. schedule_task U E W wid task)) (\<lambda>_. K [] [])"
proof -
  let ?I = "\<lambda>xs (_ :: unit) w. K xs xs w \<and> (distinct (map t_ID xs) \<and> (\<forall>t \<in> set xs. pending t))"
  have "valid (?I (x # xs) acc) (schedule_task U E W wid x) (\<lambda>acc'. ?I xs acc')" for x xs acc
  proof (rule valid_pure)
    assume b: "distinct (map t_ID (x # xs)) \<and> (\<forall>t \<in> set (x # xs). pending t)"
    have "valid (K (x # xs) (x # xs)) (schedule_task U E W wid x) (\<lambda>_. K xs xs)"
      by (rule valid_schedule [OF _ _ Q]) (use b in simp_all)
    then show "valid (K (x # xs) (x # xs)) (schedule_task U E W wid x) (\<lambda>acc'. ?I xs acc')"
      by (rule valid_weaken) (use b in simp_all)
  qed
  from valid_for_each [where I = ?I, OF this] show ?thesis by (rule valid_weaken) simp_all
qed

lemma valid_Get:
  "valid (K [] []) (WorkflowStore_Get E wid)
    (\<lambda>r w. K (case r of Inr (Some (f, ts)) \<Rightarrow> ts | _ \<Rightarrow> []) [] w \<and>
       distinct (map t_ID (case r of Inr (Some (f, ts)) \<Rightarrow> ts | _ \<Rightarrow> [])))"
proof -
  have tasks: "valid (K [] []) (WorkflowStore_GetTasksByWorkflowID E wid)
    (\<lambda>r w. K (case r of Inr ts \<Rightarrow> ts | _ \<Rightarrow> []) [] w \<and> distinct (map t_ID (case r of Inr ts \<Rightarrow> ts | _ \<Rightarrow> [])))"
    unfolding WorkflowStore_GetTasksByWorkflowID_def
  proof (rule valid_pg [where Q = "\<lambda>r d. known (case r of Inr ts \<Rightarrow> ts | _ \<Rightarrow> []) [] d \<and>
      distinct (map t_ID (case r of Inr ts \<Rightarrow> ts | _ \<Rightarrow> []))", OF rely_known])
    fix n d
    assume k: "known [] [] d"
    have "distinct (map t_ID (filter (\<lambda>t. t_WorkflowID t = wid) (tasks_table d)))"
      using knownD(1) [OF k] by (simp add: db_ok_def tasks_ok_def distinct_map_filter)
    then have "distinct (map t_ID (tasks_of wid d))" by (simp add: tasks_of_def distinct_map)
    then show "(known (case fst (Inr (tasks_of wid d), d) of Inr ts \<Rightarrow> ts | _ \<Rightarrow> []) [] (snd (Inr (tasks_of wid d), d)) \<and>
        distinct (map t_ID (case fst (Inr (tasks_of wid d), d) of Inr ts \<Rightarrow> ts | _ \<Rightarrow> []))) \<and>
      (known (case Inl ErrIO of Inr ts \<Rightarrow> ts | _ \<Rightarrow> []) [] (snd (Inr (tasks_of wid d), d)) \<and>
        distinct (map t_ID (case Inl ErrIO of Inr ts \<Rightarrow> ts | _ \<Rightarrow> [])))"
      using k near_refl by (auto simp: known_def tasks_of_def)
  qed simp
  show ?thesis
    unfolding WorkflowStore_Get_def
    by (rule valid_bind [OF keeps_valid [OF keeps_read]], intro valid_sum valid_option valid_return)
      (auto intro!: valid_bind [OF tasks] valid_return split: sum.splits)
qed

lemma valid_AdvanceWorkflow:
  assumes Q: "\<forall>q. we_Q W = Some q \<longrightarrow> q = RedisQueue R V E"
  shows "keeps (K [] []) (AdvanceWorkflow U E W wid)"
proof -
  have fail: "valid (\<lambda>w. K (filter pending seen) [] w \<and> distinct (map t_ID (filter pending seen)))
      (do { _ \<leftarrow> fail_workflow E wid t seen; State_Monad.return (Inr ()) }) (\<lambda>_. K [] [])" for seen t
    by (rule valid_bind [OF valid_fail_workflow]) (rule valid_return)
  have drop: "valid (\<lambda>w. K X [] w \<and> b) m (\<lambda>_. K [] [])" if "valid (K [] []) m (\<lambda>_. K [] [])" for X b m
    by (rule valid_weaken [OF that]) (auto elim!: known_sub)
  have sched: "valid (K [] []) (do {
         ready \<leftarrow> WorkflowStore_GetReadyTasks E wid;
         case ready of
           Inl e \<Rightarrow> State_Monad.return (Inl e)
         | Inr readyTasks \<Rightarrow> do {
             _ \<leftarrow> for_each readyTasks () (\<lambda>task _. schedule_task U E W wid task);
             State_Monad.return (Inr ())
           }
       }) (\<lambda>_. K [] [])"
    by (rule valid_bind [OF valid_GetReadyTasks])
      (auto intro!: valid_return valid_bind [OF valid_schedule_loop [OF Q]] split: sum.split)
  have finish: "valid (K [] []) (WorkflowStore_UpdateStatus E wid st e) (\<lambda>_. K [] [])" for st e
    by (rule keeps_valid [OF keeps_UpdateStatus])
  have rest: "valid (\<lambda>w. K ts [] w \<and> distinct (map t_ID ts)) (do {
         inspected \<leftarrow> inspect_tasks E W ts;
         case inspected of (seen, failed, allSucceeded) \<Rightarrow>
           (case failed of
              Some failedTask \<Rightarrow> do {
                _ \<leftarrow> fail_workflow E wid failedTask seen;
                State_Monad.return (Inr ())
              }
            | None \<Rightarrow>
                if allSucceeded \<and> seen \<noteq> [] then
                  WorkflowStore_UpdateStatus E wid WorkflowStatusSucceeded None
                else do {
                  ready \<leftarrow> WorkflowStore_GetReadyTasks E wid;
                  case ready of
                    Inl e \<Rightarrow> State_Monad.return (Inl e)
                  | Inr readyTasks \<Rightarrow> do {
                      _ \<leftarrow> for_each readyTasks () (\<lambda>task _. schedule_task U E W wid task);
                      State_Monad.return (Inr ())
                    }
                })
       }) (\<lambda>_. K [] [])" for ts
    by (rule valid_bind [OF valid_inspect_tasks], rule valid_triple, rule valid_option)
      (rule drop, intro valid_if finish sched, rule fail)
  show ?thesis
    unfolding AdvanceWorkflow_def keeps_def
    by (intro valid_if valid_return valid_bind [OF valid_Get])
      (auto intro!: valid_return drop rest valid_if split: sum.split option.split prod.split)
qed

lemma keeps_pollRunningWorkflows:
  assumes Q: "\<forall>q. we_Q W = Some q \<longrightarrow> q = RedisQueue R V E"
  shows "keeps (K [] []) (pollRunningWorkflows U E W)"
  unfolding pollRunningWorkflows_def WorkflowStore_List_def Let_def
  by (intro pres keeps_read valid_AdvanceWorkflow [OF Q])

lemma keeps_WorkflowEngine_Start:
  assumes Q: "\<forall>q. we_Q W = Some q \<longrightarrow> q = RedisQueue R V E"
  shows "keeps (K [] []) (WorkflowEngine_Start U E W wid)"
  unfolding WorkflowEngine_Start_def by (intro pres keeps_UpdateStatus valid_AdvanceWorkflow [OF Q])

end

section \<open>Order and progress\<close>

lemma one_engine_reliable: "reliable E \<Longrightarrow> one_engine E"
  by unfold_locales (simp add: reliable_def)

interpretation qe: one_engine quiet_env
  by (rule one_engine_reliable) simp


text \<open>A stored workflow of four tasks, two of which may run only after the first.\<close>

definition flow_request :: create_workflow_request where
  "flow_request = \<lparr>cw_Name = ''flow'', cw_Tasks = diamond\<rparr>"

definition flow_db :: db where
  "flow_db = snd (create_workflow_stmt (\<lambda>k. word_of_nat (5 + k)) 0 flow_request empty_db)"

lemma valid_diamond: "valid_dag diamond"
proof -
  have "ValidateDAG rev diamond = Inr ()" by code_simp
  then show ?thesis using valid_dag_accepted [of rev diamond] by simp
qed

lemma flow_db_ok: "db_ok flow_db" "ordered flow_db"
proof -
  have step: "db_step empty_db flow_db"
    unfolding flow_db_def by (rule db_step.CreateWorkflow) (simp add: flow_request_def valid_diamond)
  show "db_ok flow_db" by (rule db_ok_step [OF step db_ok_empty])
  have "\<forall>t \<in> set (tasks_table flow_db). \<not> started t"
    using insert_tasks_rows [of "\<lambda>k. word_of_nat (5 + k)" "word_of_nat 5" 0 diamond 1 "[]"]
    by (auto simp: flow_db_def create_workflow_stmt_def Let_def empty_db_def new_workflow_def flow_request_def
        started_def split: sum.split)
  then show "ordered flow_db" by (simp add: ordered_def)
qed


lemma ready_or_running:
  assumes "db_ok d" and "\<forall>t \<in> set (tasks_of wid d). t_Status t \<in>
      {WorkflowTaskStatusPending, WorkflowTaskStatusRunning, WorkflowTaskStatusSucceeded}"
  shows "(\<forall>t \<in> set (tasks_of wid d). t_Status t = WorkflowTaskStatusSucceeded) \<or>
    (\<exists>t \<in> set (tasks_of wid d). t_Status t = WorkflowTaskStatusRunning) \<or>
    (\<exists>t \<in> set (tasks_of wid d). ready_task d wid t)"
proof (rule ccontr)
  let ?ts = "tasks_table d"
  assume no: "\<not> ?thesis"
  have mem: "t \<in> set (tasks_of wid d) \<longleftrightarrow> t \<in> set ?ts \<and> t_WorkflowID t = wid" for t
    by (auto simp: tasks_of_def)
  have ok: "tasks_ok (wf_ID ` set (workflows_table d)) ?ts" using assms(1) by (simp add: db_ok_def)
  let ?N = "t_Name ` {t \<in> set ?ts. t_WorkflowID t = wid \<and> pending t}"
  obtain t0 where "t0 \<in> set (tasks_of wid d)" "pending t0"
    using no assms(2) unfolding pending_def by blast
  then have N: "t_Name t0 \<in> ?N" by (auto simp: mem)
  have "finite (task_deps wid ?ts)"
  proof (rule finite_subset)
    show "task_deps wid ?ts \<subseteq> (\<Union>t \<in> set ?ts. set (t_Dependencies t)) \<times> t_Name ` set ?ts"
      by (auto simp: task_deps_def)
  qed simp
  then have "wf (task_deps wid ?ts)" using ok by (simp add: finite_acyclic_wf tasks_ok_def)
  from wfE_min [OF this N]
  obtain z where z: "z \<in> ?N" "\<And>y. (y, z) \<in> task_deps wid ?ts \<Longrightarrow> y \<notin> ?N" by blast
  from z(1) obtain t where t: "t \<in> set ?ts" "t_WorkflowID t = wid" "pending t" "t_Name t = z" by blast
  have "t_Status p = WorkflowTaskStatusSucceeded"
    if p: "dep \<in> set (t_Dependencies t)" "p \<in> set ?ts" "t_WorkflowID p = wid" "t_Name p = dep" for dep p
  proof -
    have "(dep, z) \<in> task_deps wid ?ts" using t p(1) by (auto simp: task_deps_def)
    then have "\<not> pending p" using z(2) p by blast
    moreover have "p \<in> set (tasks_of wid d)" using p by (simp add: mem)
    ultimately show ?thesis using assms(2) no unfolding pending_def by blast
  qed
  then have "ready_task d wid t" using t by (auto simp: ready_task_def pending_def list_ex_iff)
  moreover have "t \<in> set (tasks_of wid d)" using t by (simp add: mem)
  ultimately show False using no by blast
qed

text \<open>
  C25. No deadlock: in a sound database, a workflow that has tasks, all of them PENDING, RUNNING or
  SUCCEEDED, either has succeeded in every task, or has a task running, or has a task that the
  next pass of the engine finds ready. This rests on the validation of the request: the stored
  dependencies are closed and acyclic.
\<close>

theorem workflow_never_stuck:
  assumes "db_ok d" and "\<forall>t \<in> set (tasks_of wid d). t_Status t \<in>
      {WorkflowTaskStatusPending, WorkflowTaskStatusRunning, WorkflowTaskStatusSucceeded}"
  shows "(\<forall>t \<in> set (tasks_of wid d). t_Status t = WorkflowTaskStatusSucceeded) \<or>
    (\<exists>t \<in> set (tasks_of wid d). t_Status t = WorkflowTaskStatusRunning) \<or>
    (\<exists>t \<in> set (tasks_of wid d). ready_task d wid t)"
  by (rule ready_or_running [OF assms])

theorem workflow_never_stuck_witness: "\<exists>t \<in> set (tasks_of 5 flow_db). ready_task flow_db 5 t"
proof -
  have "list_all pending (tasks_of 5 flow_db)" by code_simp
  then have all: "\<forall>t \<in> set (tasks_of 5 flow_db). t_Status t = WorkflowTaskStatusPending"
    by (simp add: list_all_iff pending_def)
  have "tasks_of 5 flow_db \<noteq> []" by code_simp
  then have "hd (tasks_of 5 flow_db) \<in> set (tasks_of 5 flow_db)" by simp
  then show ?thesis using workflow_never_stuck [OF flow_db_ok(1), of 5] all by fastforce
qed

end
