(* ===== verification/Engine_Props.thy ===== *)
theory Engine_Props
  imports Dag_Order Attempt_Props
begin

text \<open>
  What one pass of the workflow engine makes of a workflow when no call fails: what it reads off
  the backing jobs, when the workflow ends and how, and that a finished workflow is left alone.
\<close>

section \<open>What the engine reads off the jobs\<close>

text \<open>The task as the loop sees it, given the job table: the status follows a finished job.\<close>

definition inspected :: "db \<Rightarrow> workflow_task \<Rightarrow> workflow_task" where
  "inspected d t =
     (if t_Status t \<noteq> WorkflowTaskStatusRunning then t
      else case t_JobID t of
        None \<Rightarrow> t
      | Some jid \<Rightarrow>
          (case job_row jid d of
             None \<Rightarrow> t
           | Some j \<Rightarrow>
               (case j_Status j of
                  JobStatusSucceeded \<Rightarrow> t\<lparr>t_Status := WorkflowTaskStatusSucceeded\<rparr>
                | JobStatusDeadLetter \<Rightarrow> t\<lparr>t_Status := WorkflowTaskStatusFailed, t_Error := j_Error j\<rparr>
                | JobStatusFailed \<Rightarrow> t\<lparr>t_Status := WorkflowTaskStatusFailed, t_Error := j_Error j\<rparr>
                | JobStatusCancelled \<Rightarrow> t\<lparr>t_Status := WorkflowTaskStatusCancelled\<rparr>
                | _ \<Rightarrow> t)))"

lemma inspected_place: "t_ID (inspected d t) = t_ID t" "t_WorkflowID (inspected d t) = t_WorkflowID t"
  by (simp_all add: inspected_def split: option.split job_status.split)

lemma inspected_pending: "pending (inspected d t) = pending t"
  by (simp add: inspected_def pending_def split: option.split job_status.split)

definition pending_ids :: "uuid \<Rightarrow> db \<Rightarrow> uuid set" where
  "pending_ids wid d = t_ID ` {t \<in> set (tasks_table d). t_WorkflowID t = wid \<and> pending t}"

lemma pending_ids_update:
  assumes "st \<noteq> WorkflowTaskStatusPending"
  shows "pending_ids wid (snd (update_task_stmt tid st None e now d)) = pending_ids wid d - {tid}"
proof -
  let ?Q = "\<lambda>t. t_WorkflowID t = wid \<and> pending t"
  let ?ts = "update_where (\<lambda>t. t_ID t = tid) (set_task st None e now) (tasks_table d)"
  have "{t \<in> set ?ts. ?Q t} = {t \<in> set (tasks_table d). ?Q t \<and> t_ID t \<noteq> tid}"
    using assms unfolding set_update_where by (auto simp: pending_def set_task_fields)
  then have "t_ID ` {t \<in> set ?ts. ?Q t} = t_ID ` {t \<in> set (tasks_table d). ?Q t \<and> t_ID t \<noteq> tid}"
    by (rule arg_cong)
  also have "\<dots> = pending_ids wid d - {tid}" by (auto simp: pending_ids_def)
  finally show ?thesis by (simp add: pending_ids_def update_task_stmt_def)
qed

text \<open>A step that changes only tasks, and makes none pending.\<close>

definition tasks_only :: "uuid \<Rightarrow> db \<Rightarrow> db \<Rightarrow> bool" where
  "tasks_only wid d d' \<longleftrightarrow> jobs_table d' = jobs_table d \<and> workflows_table d' = workflows_table d \<and>
     pending_ids wid d' \<subseteq> pending_ids wid d"

lemma tasks_only_refl: "tasks_only wid d d"
  by (simp add: tasks_only_def)

lemma tasks_only_trans: "tasks_only wid d d1 \<Longrightarrow> tasks_only wid d1 d2 \<Longrightarrow> tasks_only wid d d2"
  by (auto simp: tasks_only_def)

lemma tasks_only_update:
  "st \<noteq> WorkflowTaskStatusPending \<Longrightarrow> tasks_only wid d (snd (update_task_stmt tid st None e now d))"
  using pending_ids_update [of st wid tid e now d]
  by (simp add: tasks_only_def update_task_stmt_def)

lemma inspected_tasks_only: "tasks_only wid d d' \<Longrightarrow> inspected d' = inspected d"
proof (rule ext)
  fix t
  assume "tasks_only wid d d'"
  then have "jobs_table d' = jobs_table d" by (simp add: tasks_only_def)
  then show "inspected d' t = inspected d t" by (simp only: inspected_def)
qed

section \<open>The first loop\<close>

lemma run_UpdateTask:
  assumes "reliable E"
  shows "run_state (WorkflowStore_UpdateTask E tid st j e) w =
    (fst (update_task_stmt tid st j e (clock E (tick w)) (db w)),
     w\<lparr>tick := Suc (tick w), db := snd (update_task_stmt tid st j e (clock E (tick w)) (db w))\<rparr>)"
  by (simp add: WorkflowStore_UpdateTask_def run_pg_reliable [OF assms] split_beta)

lemma run_JobStore_Get:
  assumes "reliable E" and "distinct (map j_ID (jobs_table (db w)))"
  shows "run_state (JobStore_Get E jid) w = (Inr (job_row jid (db w)), w\<lparr>tick := Suc (tick w)\<rparr>)"
  using filter_key_distinct [OF assms(2), of jid]
  by (simp add: JobStore_Get_def run_pg_reliable [OF assms(1)] query_row_def no_rows_nil_def
      split: option.split)

lemma run_inspect_task:
  assumes "reliable E" and "we_Jobs W" and "distinct (map j_ID (jobs_table (db w)))"
  shows "\<exists>w'. run_state (inspect_task E W t) w = (inspected (db w) t, w') \<and> tasks_only wid (db w) (db w')"
proof (cases "t_JobID t")
  case None
  then show ?thesis by (simp add: inspect_task_def inspected_def tasks_only_refl)
next
  case (Some jid)
  show ?thesis
  proof (cases "t_Status t = WorkflowTaskStatusRunning \<and> job_row jid (db w) \<noteq> None")
    case False
    then show ?thesis using Some assms(2)
      by (auto simp: inspect_task_def inspected_def run_JobStore_Get [OF assms(1,3)] tasks_only_refl)
  next
    case True
    then obtain j where "job_row jid (db w) = Some j" by blast
    then show ?thesis using Some True assms(2)
      by (cases "j_Status j")
        (simp_all add: inspect_task_def inspected_def run_JobStore_Get [OF assms(1,3)] run_UpdateTask [OF assms(1)]
          tasks_only_refl tasks_only_update)
  qed
qed

text \<open>The last failed task, and whether all have succeeded.\<close>

definition last_failed :: "workflow_task list \<Rightarrow> workflow_task option" where
  "last_failed ts = find (\<lambda>t. t_Status t = WorkflowTaskStatusFailed) (rev ts)"

definition all_succeeded :: "workflow_task list \<Rightarrow> bool" where
  "all_succeeded ts \<longleftrightarrow> list_all (\<lambda>t. t_Status t = WorkflowTaskStatusSucceeded) ts"

lemma last_failed_snoc:
  "last_failed (ts @ [t]) = (if t_Status t = WorkflowTaskStatusFailed then Some t else last_failed ts)"
  by (simp add: last_failed_def)

lemma all_succeeded_snoc:
  "all_succeeded (ts @ [t]) \<longleftrightarrow> all_succeeded ts \<and> t_Status t = WorkflowTaskStatusSucceeded"
  by (auto simp: all_succeeded_def)

lemma run_inspect_loop:
  assumes "reliable E" and "we_Jobs W" and "distinct (map j_ID (jobs_table (db w)))"
  shows "\<exists>w'. run_state (for_each ts (seen, last_failed seen, all_succeeded seen)
     (\<lambda>task0 (seen, failedTask, allSucceeded). do {
       task \<leftarrow> inspect_task E W task0;
       State_Monad.return
         (if t_Status task = WorkflowTaskStatusFailed then (seen @ [task], Some task, False)
          else if t_Status task \<noteq> WorkflowTaskStatusSucceeded then (seen @ [task], failedTask, False)
          else (seen @ [task], failedTask, allSucceeded))
     })) w =
    ((let all = seen @ map (inspected (db w)) ts in (all, last_failed all, all_succeeded all)), w') \<and>
    tasks_only wid (db w) (db w')"
  using assms(3)
proof (induction ts arbitrary: seen w)
  case Nil
  then show ?case by (simp add: tasks_only_refl)
next
  case (Cons t ts)
  obtain w1 where w1: "run_state (inspect_task E W t) w = (inspected (db w) t, w1)" "tasks_only wid (db w) (db w1)"
    using run_inspect_task [OF assms(1,2) Cons.prems] by blast
  have acc: "(if t_Status x = WorkflowTaskStatusFailed then (seen @ [x], Some x, False)
      else if t_Status x \<noteq> WorkflowTaskStatusSucceeded then (seen @ [x], last_failed seen, False)
      else (seen @ [x], last_failed seen, all_succeeded seen)) =
      (seen @ [x], last_failed (seen @ [x]), all_succeeded (seen @ [x]))" for x
    by (simp add: last_failed_snoc all_succeeded_snoc)
  have jobs: "distinct (map j_ID (jobs_table (db w1)))"
    using w1(2) Cons.prems by (simp add: tasks_only_def)
  obtain w2 where "run_state (for_each ts (seen @ [inspected (db w) t], last_failed (seen @ [inspected (db w) t]),
      all_succeeded (seen @ [inspected (db w) t])) (\<lambda>task0 (seen, failedTask, allSucceeded). do {
       task \<leftarrow> inspect_task E W task0;
       State_Monad.return
         (if t_Status task = WorkflowTaskStatusFailed then (seen @ [task], Some task, False)
          else if t_Status task \<noteq> WorkflowTaskStatusSucceeded then (seen @ [task], failedTask, False)
          else (seen @ [task], failedTask, allSucceeded))
     })) w1 = ((let all = (seen @ [inspected (db w) t]) @ map (inspected (db w1)) ts
       in (all, last_failed all, all_succeeded all)), w2)" "tasks_only wid (db w1) (db w2)"
    using Cons.IH [OF jobs] by blast
  with w1 show ?case
    by (auto simp: acc inspected_tasks_only [OF w1(2)] intro: tasks_only_trans [OF w1(2)])
qed

lemma run_inspect_tasks:
  assumes "reliable E" and "we_Jobs W" and "distinct (map j_ID (jobs_table (db w)))"
  shows "\<exists>w'. run_state (inspect_tasks E W ts) w =
    ((map (inspected (db w)) ts, last_failed (map (inspected (db w)) ts), all_succeeded (map (inspected (db w)) ts)), w') \<and>
    tasks_only wid (db w) (db w')"
  using run_inspect_loop [OF assms, of ts "[]" wid]
  by (simp add: inspect_tasks_def last_failed_def all_succeeded_def Let_def)

section \<open>The end of a workflow\<close>

definition cancel_pending :: "'z env \<Rightarrow> workflow_task \<Rightarrow> unit \<Rightarrow> ('z world, unit) state" where
  "cancel_pending E t u =
     (if t_Status t = WorkflowTaskStatusPending then do {
        _ \<leftarrow> WorkflowStore_UpdateTask E (t_ID t) WorkflowTaskStatusCancelled None None;
        State_Monad.return ()
      }
      else State_Monad.return ())"

lemma run_cancel_pending:
  assumes "reliable E"
  shows "\<exists>w'. run_state (cancel_pending E t u) w = ((), w') \<and>
    workflows_table (db w') = workflows_table (db w) \<and>
    pending_ids wid (db w') = pending_ids wid (db w) - (if pending t then {t_ID t} else {})"
  using tasks_only_update [of WorkflowTaskStatusCancelled]
  by (simp add: cancel_pending_def run_UpdateTask [OF assms] pending_ids_update pending_def tasks_only_def)

lemma run_fail_loop:
  assumes "reliable E"
  shows "\<exists>w'. run_state (for_each ts () (cancel_pending E)) w = ((), w') \<and>
    workflows_table (db w') = workflows_table (db w) \<and>
    pending_ids wid (db w') = pending_ids wid (db w) - t_ID ` {t \<in> set ts. pending t}"
proof (induction ts arbitrary: w)
  case (Cons t ts)
  obtain w1 where w1: "run_state (cancel_pending E t ()) w = ((), w1)"
    "workflows_table (db w1) = workflows_table (db w)"
    "pending_ids wid (db w1) = pending_ids wid (db w) - (if pending t then {t_ID t} else {})"
    using run_cancel_pending [OF assms] by blast
  obtain w2 where w2: "run_state (for_each ts () (cancel_pending E)) w1 = ((), w2)"
    "workflows_table (db w2) = workflows_table (db w1)"
    "pending_ids wid (db w2) = pending_ids wid (db w1) - t_ID ` {t \<in> set ts. pending t}"
    using Cons.IH by blast
  have "t_ID ` {x \<in> set (t # ts). pending x} = (if pending t then {t_ID t} else {}) \<union> t_ID ` {x \<in> set ts. pending x}"
    by auto
  then have "pending_ids wid (db w2) = pending_ids wid (db w) - t_ID ` {x \<in> set (t # ts). pending x}"
    using w1(3) w2(3) by (simp only: Diff_Un) blast
  with w1 w2 show ?case by simp
qed simp

lemma run_UpdateStatus:
  assumes "reliable E"
  shows "run_state (WorkflowStore_UpdateStatus E wid st e) w =
    (Inr (), w\<lparr>tick := Suc (tick w), db := (db w)\<lparr>workflows_table := update_where (\<lambda>f. wf_ID f = wid)
       (set_workflow st e (clock E (tick w))) (workflows_table (db w))\<rparr>\<rparr>)"
  by (simp add: WorkflowStore_UpdateStatus_def run_pg_reliable [OF assms] update_workflow_stmt_def)

lemma workflow_row_update:
  assumes "row_of wf_ID wid fs = Some f"
  shows "row_of wf_ID wid (update_where (\<lambda>f. wf_ID f = wid) (set_workflow st e now) fs) =
    Some (set_workflow st e now f)"
proof -
  have "wf_ID (set_workflow st e now x) = wf_ID x" for x by (simp add: set_workflow_def)
  then show ?thesis
    using row_of_SomeD [OF assms] assms by (simp add: row_of_update_where)
qed

text \<open>Scheduling touches no workflow row.\<close>

lemma keeps_schedule_workflows:
  assumes "reliable E" and "\<forall>q. we_Q W = Some q \<longrightarrow> q = RedisQueue R V E"
  shows "keeps (\<lambda>w. workflows_table (db w) = fs) (schedule_task U E W wid t)"
proof -
  have rely: "rely (\<lambda>d. workflows_table d = fs) E" by (rule rely_reliable [OF assms(1)])
  have enq: "keeps (\<lambda>w. workflows_table (db w) = fs) (q_Enqueue q j)" if "we_Q W = Some q" for q j
    using queue_keepsD(1) [OF queue_keeps_RedisQueue [OF rely]] assms(2) that by blast
  show ?thesis
    unfolding schedule_task_def JobStore_Create_def findByIdempotencyKey_def WorkflowStore_UpdateTask_def Let_def
    by (intro pres enq keeps_pg [OF rely]) (auto simp: insert_job_stmt_def update_task_stmt_def Let_def)
qed

lemma run_WorkflowStore_Get:
  assumes "reliable E" and "distinct (map wf_ID (workflows_table (db w)))"
    and "row_of wf_ID wid (workflows_table (db w)) = Some f"
  shows "run_state (WorkflowStore_Get E wid) w =
    (Inr (Some (f, tasks_of wid (db w))), w\<lparr>tick := Suc (Suc (tick w))\<rparr>)"
  using filter_key_distinct [OF assms(2), of wid] assms(3)
  by (simp add: WorkflowStore_Get_def WorkflowStore_GetTasksByWorkflowID_def run_pg_reliable [OF assms(1)]
      query_row_def no_rows_nil_def)

lemma pending_ids_tasks: "pending_ids wid d = t_ID ` {t \<in> set (tasks_of wid d). pending t}"
  by (auto simp: pending_ids_def tasks_of_def)

lemma advance_verdict:
  assumes E: "reliable E" and W: "we_Workflows W" "we_Jobs W" "\<forall>q. we_Q W = Some q \<longrightarrow> q = RedisQueue R V E"
    and ok: "db_ok (db w)" and row: "row_of wf_ID wid (workflows_table (db w)) = Some f"
    and run: "run_state (AdvanceWorkflow U E W wid) w = (r, w')"
  defines "seen \<equiv> map (inspected (db w)) (tasks_of wid (db w))"
  shows "r = Inr () \<and>
    (if WorkflowStatus_IsTerminal (wf_Status f) then db w' = db w
     else (case last_failed seen of
         Some t \<Rightarrow> pending_ids wid (db w') = {} \<and> (\<exists>now. row_of wf_ID wid (workflows_table (db w')) =
           Some (set_workflow WorkflowStatusFailed (Some (failure_message t)) now f))
       | None \<Rightarrow>
           if all_succeeded seen \<and> seen \<noteq> []
           then \<exists>now. row_of wf_ID wid (workflows_table (db w')) = Some (set_workflow WorkflowStatusSucceeded None now f)
           else row_of wf_ID wid (workflows_table (db w')) = Some f))"
proof -
  let ?w = "w\<lparr>tick := Suc (Suc (tick w))\<rparr>"
  have wfs: "distinct (map wf_ID (workflows_table (db w)))" and jobs: "distinct (map j_ID (jobs_table (db w)))"
    using ok by (simp_all add: db_ok_def jobs_ok_def)
  note get = run_WorkflowStore_Get [OF E wfs row]
  show ?thesis
  proof (cases "WorkflowStatus_IsTerminal (wf_Status f)")
    case True
    then show ?thesis using run W(1) by (auto simp: AdvanceWorkflow_def get)
  next
    case False
    obtain w1 where w1: "run_state (inspect_tasks E W (tasks_of wid (db w))) ?w =
        ((seen, last_failed seen, all_succeeded seen), w1)" and only: "tasks_only wid (db w) (db w1)"
      using run_inspect_tasks [OF E W(2), of ?w "tasks_of wid (db w)" wid] jobs by (auto simp: seen_def)
    have row1: "row_of wf_ID wid (workflows_table (db w1)) = Some f" using only row by (simp add: tasks_only_def)
    show ?thesis
    proof (cases "last_failed seen")
      case (Some t)
      let ?w2 = "w1\<lparr>tick := Suc (tick w1), db := (db w1)\<lparr>workflows_table := update_where (\<lambda>f. wf_ID f = wid)
       (set_workflow WorkflowStatusFailed (Some (failure_message t)) (clock E (tick w1))) (workflows_table (db w1))\<rparr>\<rparr>"
      obtain w3 where w3: "run_state (for_each seen () (cancel_pending E)) ?w2 = ((), w3)"
        "workflows_table (db w3) = workflows_table (db ?w2)"
        "pending_ids wid (db w3) = pending_ids wid (db ?w2) - t_ID ` {t \<in> set seen. pending t}"
        using run_fail_loop [OF E, of seen ?w2 wid] by blast
      have "t_ID ` {t \<in> set seen. pending t} = pending_ids wid (db w)"
      proof -
        have "{t \<in> set seen. pending t} = inspected (db w) ` {t \<in> set (tasks_of wid (db w)). pending t}"
          unfolding seen_def by (auto simp: inspected_pending)
        then show ?thesis by (simp add: image_image inspected_place pending_ids_tasks)
      qed
      moreover have "pending_ids wid (db ?w2) = pending_ids wid (db w1)" by (simp add: pending_ids_def)
      ultimately have "pending_ids wid (db w3) = {}" using w3(3) only by (auto simp: tasks_only_def)
      moreover have "r = Inr ()" "w' = w3"
        using run W(1) False Some w3(1)
        by (simp_all add: AdvanceWorkflow_def get w1 fail_workflow_def run_UpdateStatus [OF E] cancel_pending_def [abs_def])
      ultimately show ?thesis using False Some w3(2) workflow_row_update [OF row1] by auto
    next
      case None
      show ?thesis
      proof (cases "all_succeeded seen \<and> seen \<noteq> []")
        case True
        then have "r = Inr ()" "workflows_table (db w') = update_where (\<lambda>f. wf_ID f = wid)
            (set_workflow WorkflowStatusSucceeded None (clock E (tick w1))) (workflows_table (db w1))"
          using run W(1) False None by (auto simp: AdvanceWorkflow_def get w1 run_UpdateStatus [OF E])
        then show ?thesis using True False None workflow_row_update [OF row1] by auto
      next
        case not_done: False
        let ?rdy = "sort_key t_CreatedAt (filter (ready_task (db w1) wid) (tasks_table (db w1)))"
        have "keeps (\<lambda>w. workflows_table (db w) = workflows_table (db w1))
            (for_each ?rdy () (\<lambda>task _. schedule_task U E W wid task))"
          by (intro pres keeps_schedule_workflows [OF E W(3)])
        from keepsD [OF this, of "w1\<lparr>tick := Suc (tick w1)\<rparr>"]
        have "r = Inr ()" "workflows_table (db w') = workflows_table (db w1)"
          using run W(1) False None not_done
          by (auto simp: AdvanceWorkflow_def get w1 WorkflowStore_GetReadyTasks_def run_pg_reliable [OF E]
              split: prod.splits)
        then show ?thesis using False None not_done row1 by auto
      qed
    qed
  qed
qed

text \<open>
  C29. The verdict of the engine on a workflow, when no call fails. It reads every RUNNING task off
  its job (SUCCEEDED; FAILED with the job's error for DEAD_LETTER and FAILED; CANCELLED). A
  workflow that is finished is left exactly as it is. Otherwise: as soon as a task has failed the
  workflow is FAILED with a message naming the last failed task and its error, and none of its
  tasks stays PENDING; when every task has succeeded it is SUCCEEDED; in all other cases its row
  does not change.
\<close>

theorem AdvanceWorkflow_verdict:
  assumes "reliable E" and "we_Workflows W" and "we_Jobs W" and "\<forall>q. we_Q W = Some q \<longrightarrow> q = RedisQueue R V E"
    and "db_ok (db w)" and "row_of wf_ID wid (workflows_table (db w)) = Some f"
    and "run_state (AdvanceWorkflow U E W wid) w = (r, w')"
    and "seen = map (inspected (db w)) (tasks_of wid (db w))"
  shows "r = Inr () \<and>
    (if WorkflowStatus_IsTerminal (wf_Status f) then db w' = db w
     else (case last_failed seen of
         Some t \<Rightarrow> pending_ids wid (db w') = {} \<and> (\<exists>now. row_of wf_ID wid (workflows_table (db w')) =
           Some (set_workflow WorkflowStatusFailed (Some (failure_message t)) now f))
       | None \<Rightarrow>
           if all_succeeded seen \<and> seen \<noteq> []
           then \<exists>now. row_of wf_ID wid (workflows_table (db w')) = Some (set_workflow WorkflowStatusSucceeded None now f)
           else row_of wf_ID wid (workflows_table (db w')) = Some f))"
  unfolding assms(8) by (rule advance_verdict [OF assms(1-7)])

definition dead_job :: job where
  "dead_job = (demo_job 7 2)\<lparr>j_Status := JobStatusDeadLetter, j_Attempt := 3, j_Error := Some ''boom'',
     j_CompletedAt := Some 0\<rparr>"

definition failed_flow_db :: db where
  "failed_flow_db =
     (case flow_db of d \<Rightarrow> snd (update_task_stmt 6 WorkflowTaskStatusRunning (Some 7) None 1
        (snd (update_workflow_stmt 5 WorkflowStatusRunning None 0 (d\<lparr>jobs_table := [dead_job]\<rparr>)))))"

lemma failed_flow_ok: "db_ok failed_flow_db"
proof -
  have "db_ok (flow_db\<lparr>jobs_table := [dead_job]\<rparr>)"
  proof -
    have "jobs_table flow_db = []" by (simp add: flow_db_def create_workflow_stmt_def Let_def empty_db_def split: sum.split)
    then show ?thesis
      using flow_db_ok(1) by (auto simp: db_ok_def task_jobs_ok_def jobs_ok_def job_ok_def dead_job_def
          JobStatus_IsTerminal_def int4_def)
  qed
  from db_ok_step [OF db_step.UpdateWorkflow this]
  have "db_ok (snd (update_workflow_stmt 5 WorkflowStatusRunning None 0 (flow_db\<lparr>jobs_table := [dead_job]\<rparr>)))" .
  from db_ok_step [OF db_step.UpdateTask this] show ?thesis by (simp add: failed_flow_db_def)
qed

theorem AdvanceWorkflow_verdict_witness:
  "\<exists>now f. row_of wf_ID 5 (workflows_table (db (snd (run_state (AdvanceWorkflow hex_uuid_ops quiet_env
       (NewWorkflowEngine True True None) 5) (demo_world\<lparr>db := failed_flow_db\<rparr>))))) =
     Some (set_workflow WorkflowStatusFailed (Some (''task '' @ strconv_Quote ''A'' @ '' failed: boom'')) now f)"
proof -
  let ?w = "demo_world\<lparr>db := failed_flow_db\<rparr>" and ?W = "NewWorkflowEngine True True None :: zlist world workflow_engine"
  let ?seen = "map (inspected failed_flow_db) (tasks_of 5 failed_flow_db)"
  obtain f where f: "row_of wf_ID 5 (workflows_table failed_flow_db) = Some f"
    "wf_Status f = WorkflowStatusRunning"
  proof -
    have "map_option wf_Status (row_of wf_ID 5 (workflows_table failed_flow_db)) = Some WorkflowStatusRunning"
      by code_simp
    then show thesis using that by auto
  qed
  have "map_option failure_message (last_failed ?seen) = Some (''task '' @ strconv_Quote ''A'' @ '' failed: boom'')"
    by code_simp
  then obtain t where t: "last_failed ?seen = Some t" "failure_message t = ''task '' @ strconv_Quote ''A'' @ '' failed: boom''"
    by auto
  have "\<forall>q. we_Q ?W = Some q \<longrightarrow> q = RedisQueue zlist_ops hex_uuid_ops quiet_env" "we_Workflows ?W" "we_Jobs ?W"
    by (simp_all add: NewWorkflowEngine_def)
  from AdvanceWorkflow_verdict [OF reliable_quiet_env this(2,3,1), of ?w 5 f hex_uuid_ops, OF _ _ prod.collapse [symmetric] refl]
  show ?thesis using failed_flow_ok f t by (auto simp: WorkflowStatus_IsTerminal_def)
qed

end
