(* ===== verification/Api_Props.thy ===== *)
theory Api_Props
  imports Attempt_Props
begin

text \<open>
  The HTTP handlers against what they promise: listing is filtering, sorting and paging; creating a
  job validates, stores, deduplicates by key and enqueues.
\<close>

section \<open>Listing\<close>

text \<open>The filter of a list request, said without SQL.\<close>

definition job_matches :: "job_filter \<Rightarrow> job \<Rightarrow> bool" where
  "job_matches f j \<longleftrightarrow>
     (\<forall>s. jf_Status f = Some s \<longrightarrow> job_status_text (j_Status j) = s) \<and>
     (\<forall>t. jf_Type f = Some t \<longrightarrow> j_Type j = t) \<and>
     (\<forall>q. jf_Queue f = Some q \<longrightarrow> j_Queue j = q) \<and>
     (\<forall>p. jf_Priority f = Some p \<longrightarrow> j_Priority j = p)"

lemma where_conditions_match:
  assumes "where_conditions f = (conds, args)"
  shows "row_matches conds args j \<longleftrightarrow> job_matches f j"
  using assms
  by (cases "jf_Status f"; cases "jf_Type f"; cases "jf_Queue f"; cases "jf_Priority f")
    (auto simp: where_conditions_def Let_def row_matches_def job_matches_def)

lemma where_conditions_bad:
  assumes "where_conditions f = (conds, args)"
  shows "list_ex bad_arg args \<longleftrightarrow> (\<exists>p. jf_Priority f = Some p \<and> \<not> int4 p)"
  using assms
  by (cases "jf_Status f"; cases "jf_Type f"; cases "jf_Queue f"; cases "jf_Priority f")
    (auto simp: where_conditions_def Let_def bad_arg_def)

definition page_limit :: "int \<Rightarrow> int" where
  "page_limit n = (if n \<le> 0 then 50 else min n 200)"

definition list_jobs :: "job_filter \<Rightarrow> job list \<Rightarrow> job list" where
  "list_jobs f js = sort_key (\<lambda>j. - j_CreatedAt j) (filter (job_matches f) js)"

lemma JobStore_List_run:
  assumes "reliable E" and "\<forall>p. jf_Priority f = Some p \<longrightarrow> int4 p"
  shows "run_state (JobStore_List E f) w =
    ((if jf_Offset f < 0 then Inl ErrNegativeOffset
      else Inr (take (nat (page_limit (jf_Limit f))) (drop (nat (jf_Offset f)) (list_jobs f (jobs_table (db w)))),
                int (length (list_jobs f (jobs_table (db w)))))),
     w\<lparr>tick := tick w + 2\<rparr>)"
proof -
  obtain conds args where c: "where_conditions f = (conds, args)" by (metis surj_pair)
  have "row_matches conds args = job_matches f" using where_conditions_match [OF c] by (rule ext)
  moreover have "\<not> list_ex bad_arg args" using where_conditions_bad [OF c] assms(2) by auto
  ultimately show ?thesis
    by (simp add: JobStore_List_def Let_def c run_pg_reliable [OF assms(1)] list_jobs_def page_limit_def)
qed

lemma pages_cover: "concat (map (\<lambda>k. take n (drop (k * n) xs)) [0..<m]) = take (m * n) xs"
proof (induction m)
  case (Suc m)
  have "take (m * n + n) xs = take (m * n) xs @ take n (drop (m * n) xs)" by (rule take_add)
  then show ?case using Suc by (simp add: add.commute)
qed simp

definition job_page :: "'z env \<Rightarrow> job_filter \<Rightarrow> int \<Rightarrow> 'z world \<Rightarrow> job list" where
  "job_page E f offset w =
     (case fst (run_state (JobStore_List E (f\<lparr>jf_Offset := offset\<rparr>)) w) of
        Inl e \<Rightarrow> [] | Inr (jobs, total_rows) \<Rightarrow> jobs)"



section \<open>Creating a job\<close>

text \<open>What \<open>CreateJob\<close> accepts, and the request it then stores.\<close>

definition request_key :: "request \<Rightarrow> create_job_request \<Rightarrow> string option" where
  "request_key r req =
     (case cj_IdempotencyKey req of None \<Rightarrow> nonempty (rq_IdempotencyKey r) | Some k \<Rightarrow> Some k)"

definition acceptable :: "request \<Rightarrow> create_job_request \<Rightarrow> bool" where
  "acceptable r req \<longleftrightarrow>
     cj_Type req \<noteq> [] \<and> (\<forall>p. cj_Priority req = Some p \<longrightarrow> p \<in> {1, 2, 3}) \<and>
     (\<forall>m. cj_MaxAttempts req = Some m \<longrightarrow> 1 \<le> m) \<and>
     (\<forall>k. request_key r req = Some k \<longrightarrow> length k \<in> {1..128})"

lemma validate_job_iff:
  "validate_job r body = Inr req' \<longleftrightarrow>
     (\<exists>req. body = Some req \<and> acceptable r req \<and> req' = req\<lparr>cj_IdempotencyKey := request_key r req\<rparr>)"
proof (cases body)
  case (Some req)
  have p: "(case cj_Priority req of None \<Rightarrow> False | Some p \<Rightarrow> p < 1 \<or> p > 3) \<longleftrightarrow>
      \<not> (\<forall>p. cj_Priority req = Some p \<longrightarrow> p \<in> {1, 2, 3})"
    by (cases "cj_Priority req") auto
  have m: "(case cj_MaxAttempts req of None \<Rightarrow> False | Some m \<Rightarrow> m < 1) \<longleftrightarrow>
      \<not> (\<forall>m. cj_MaxAttempts req = Some m \<longrightarrow> 1 \<le> m)"
    by (cases "cj_MaxAttempts req") auto
  have k: "(if cj_IdempotencyKey req = None
        then req\<lparr>cj_IdempotencyKey := nonempty (rq_IdempotencyKey r)\<rparr> else req) =
      req\<lparr>cj_IdempotencyKey := request_key r req\<rparr>"
    by (cases "cj_IdempotencyKey req") (simp_all add: request_key_def)
  have l: "(case request_key r req of None \<Rightarrow> False | Some key \<Rightarrow> length key = 0 \<or> length key > 128) \<longleftrightarrow>
      \<not> (\<forall>k. request_key r req = Some k \<longrightarrow> length k \<in> {1..128})"
    by (cases "request_key r req") (auto simp: Suc_le_eq)
  show ?thesis
    unfolding validate_job_def Some option.case p m k Let_def acceptable_def
    using l by auto
qed (simp add: validate_job_def)

text \<open>The row that a request without a stored key becomes.\<close>

definition created_job :: "'z env \<Rightarrow> nat \<Rightarrow> create_job_request \<Rightarrow> job" where
  "created_job E n req =
     new_job (fresh E n 0) (clock E n) (cj_Type req)
       (case cj_Payload req of None \<Rightarrow> ''{}'' | Some p \<Rightarrow> p)
       (case cj_Priority req of None \<Rightarrow> DefaultPriority | Some p \<Rightarrow> p)
       (case cj_MaxAttempts req of None \<Rightarrow> DefaultMaxAttempts | Some m \<Rightarrow> m)
       (cj_IdempotencyKey req) (case cj_Queue req of None \<Rightarrow> DefaultQueue | Some q \<Rightarrow> q)"

text \<open>A request with a key that no job has: one lookup, one insert.\<close>

definition request_ranges :: "create_job_request \<Rightarrow> bool" where
  "request_ranges req \<longleftrightarrow>
     int4 (case cj_Priority req of None \<Rightarrow> DefaultPriority | Some p \<Rightarrow> p) \<and>
     int4 (case cj_MaxAttempts req of None \<Rightarrow> DefaultMaxAttempts | Some m \<Rightarrow> m)"

lemma insert_created_job:
  assumes "request_ranges req" and "fresh E n 0 \<notin> j_ID ` set (jobs_table d)"
    and "\<forall>j \<in> set (jobs_table d). cj_IdempotencyKey req = None \<or> j_IdempotencyKey j \<noteq> cj_IdempotencyKey req"
  shows "insert_job_stmt (fresh E n 0) (clock E n) (cj_Type req)
      (case cj_Payload req of None \<Rightarrow> ''{}'' | Some p \<Rightarrow> p)
      (case cj_Priority req of None \<Rightarrow> DefaultPriority | Some p \<Rightarrow> p)
      (case cj_MaxAttempts req of None \<Rightarrow> DefaultMaxAttempts | Some m \<Rightarrow> m)
      (cj_IdempotencyKey req) (case cj_Queue req of None \<Rightarrow> DefaultQueue | Some q \<Rightarrow> q) d =
      (Inr (created_job E n req), d\<lparr>jobs_table := jobs_table d @ [created_job E n req]\<rparr>)"
proof -
  have "\<not> (cj_IdempotencyKey req \<noteq> None \<and> cj_IdempotencyKey req \<in> j_IdempotencyKey ` set (jobs_table d))"
    using assms(3) by (auto simp: image_iff)
  then show ?thesis
    using assms(1,2) by (simp add: insert_job_stmt_def Let_def created_job_def request_ranges_def)
qed

lemma JobStore_Create_keyed:
  assumes "reliable E" and "request_ranges req" and "cj_IdempotencyKey req = Some key"
    and "\<forall>j \<in> set (jobs_table (db w)). j_IdempotencyKey j \<noteq> Some key"
  shows "tick w + 2 \<le> tick (snd (run_state (JobStore_Create E req) w)) \<and>
    (fresh E (Suc (tick w)) 0 \<notin> j_ID ` set (jobs_table (db w)) \<longrightarrow> run_state (JobStore_Create E req) w =
      (Inr (created_job E (Suc (tick w)) req, True), w\<lparr>tick := tick w + 2,
         db := (db w)\<lparr>jobs_table := jobs_table (db w) @ [created_job E (Suc (tick w)) req]\<rparr>\<rparr>))"
proof -
  have "filter (\<lambda>j. j_IdempotencyKey j = Some key) (jobs_table (db w)) = []"
    using assms(4) by (auto simp: filter_empty_conv)
  then show ?thesis
    using insert_created_job [OF assms(2), of E "Suc (tick w)" "db w"] assms(3,4)
    by (auto simp: JobStore_Create_def Let_def findByIdempotencyKey_def no_rows_nil_def query_row_def
        run_pg_reliable [OF assms(1)] split: prod.split sum.split)
qed

lemma JobStore_Create_new:
  assumes "reliable E" and "acceptable r req0" and "req = req0\<lparr>cj_IdempotencyKey := request_key r req0\<rparr>"
    and "\<forall>m. cj_MaxAttempts req0 = Some m \<longrightarrow> int4 m"
    and "\<forall>j \<in> set (jobs_table (db w)). cj_IdempotencyKey req = None \<or> j_IdempotencyKey j \<noteq> cj_IdempotencyKey req"
    and "\<forall>n \<in> {tick w, Suc (tick w)}. fresh E n 0 \<notin> j_ID ` set (jobs_table (db w))"
  shows "\<exists>n \<in> {tick w, Suc (tick w)}. run_state (JobStore_Create E req) w =
    (Inr (created_job E n req, True),
     w\<lparr>tick := Suc n, db := (db w)\<lparr>jobs_table := jobs_table (db w) @ [created_job E n req]\<rparr>\<rparr>)"
proof -
  have i: "request_ranges req"
    using assms(2-4) by (auto simp: request_ranges_def acceptable_def int4_def DefaultPriority_def DefaultMaxAttempts_def
        split: option.split)
  show ?thesis
  proof (cases "cj_IdempotencyKey req")
    case None
    then show ?thesis
      using insert_created_job [OF i bspec [OF assms(6)] assms(5), of "tick w"]
      by (intro bexI [of _ "tick w"])
        (simp_all add: JobStore_Create_def Let_def run_pg_reliable [OF assms(1)])
  next
    case (Some key)
    then show ?thesis
      using JobStore_Create_keyed [OF assms(1) i Some] assms(5,6)
      by (intro bexI [of _ "Suc (tick w)"]) simp_all
  qed
qed

lemma JobStore_Create_old:
  assumes "reliable E" and "cj_IdempotencyKey req = Some key"
    and "j \<in> set (jobs_table (db w))" and "j_IdempotencyKey j = Some key"
  shows "\<exists>j. j_IdempotencyKey j = Some key \<and> j \<in> set (jobs_table (db w)) \<and>
    run_state (JobStore_Create E req) w = (Inr (j, False), w\<lparr>tick := Suc (tick w)\<rparr>)"
proof -
  let ?rows = "filter (\<lambda>j. j_IdempotencyKey j = Some key) (jobs_table (db w))"
  obtain x xs where rows: "?rows = x # xs" using assms(3,4) by (cases ?rows) (auto simp: filter_empty_conv)
  then have "x \<in> set ?rows" by simp
  then have "j_IdempotencyKey x = Some key \<and> x \<in> set (jobs_table (db w))" by simp
  then show ?thesis
    using rows by (intro exI [of _ x]) (simp add: JobStore_Create_def Let_def findByIdempotencyKey_def
        no_rows_nil_def query_row_def assms(2) run_pg_reliable [OF assms(1)])
qed

context quiet_queue
begin

lemma CreateJob_quiet:
  assumes "ok w" and "h_Q h = Some Q"
    and "\<forall>n \<in> {tick w, Suc (tick w)}. fresh E n 0 \<notin> insert uuid_Nil (j_ID ` set (jobs_table (db w)))"
    and "\<forall>m. cj_MaxAttempts req = Some m \<longrightarrow> int4 m" and "acceptable r req"
    and "run_state (CreateJob E h r (Some req)) w = (rp, w')"
  shows "if \<exists>j \<in> set (jobs_table (db w)). j_IdempotencyKey j \<noteq> None \<and> j_IdempotencyKey j = request_key r req
    then \<exists>j \<in> set (jobs_table (db w)). j_IdempotencyKey j = request_key r req \<and>
      rp = (respondJSON 200 (DJob (Some j)))\<lparr>rp_Replay := True\<rparr> \<and> db w' = db w \<and> rds w' = rds w
    else \<exists>n. let j = created_job E n (req\<lparr>cj_IdempotencyKey := request_key r req\<rparr>) in
      rp = respondJSON 201 (DJob (Some j)) \<and> jobs_table (db w') = jobs_table (db w) @ [j] \<and>
      view w' = v_enqueue j (view w)"
proof -
  let ?req = "req\<lparr>cj_IdempotencyKey := request_key r req\<rparr>"
  have v: "validate_job r (Some req) = Inr ?req" using assms(5) by (simp add: validate_job_iff)
  show ?thesis
  proof (cases "\<exists>j \<in> set (jobs_table (db w)). j_IdempotencyKey j \<noteq> None \<and> j_IdempotencyKey j = request_key r req")
    case True
    then obtain j0 where "j0 \<in> set (jobs_table (db w))" "j_IdempotencyKey j0 \<noteq> None"
      "j_IdempotencyKey j0 = request_key r req" by blast
    then obtain k where k: "request_key r req = Some k" "j0 \<in> set (jobs_table (db w))"
      "j_IdempotencyKey j0 = Some k" by (cases "request_key r req") auto
    then have "cj_IdempotencyKey ?req = Some k" by simp
    from JobStore_Create_old [OF quiet this k(2,3)] obtain j where
      "j_IdempotencyKey j = Some k" "j \<in> set (jobs_table (db w))"
      "run_state (JobStore_Create E ?req) w = (Inr (j, False), w\<lparr>tick := Suc (tick w)\<rparr>)" by blast
    then show ?thesis unfolding if_P [OF True] using assms(6) k(1)
      by (intro bexI [of _ j]) (auto simp: CreateJob_def v)
  next
    case False
    have "\<forall>j \<in> set (jobs_table (db w)). cj_IdempotencyKey ?req = None \<or> j_IdempotencyKey j \<noteq> cj_IdempotencyKey ?req"
      using False by auto
    from JobStore_Create_new [OF quiet assms(5) refl assms(4) this] assms(3) obtain n where
      n: "n \<in> {tick w, Suc (tick w)}" and c: "run_state (JobStore_Create E ?req) w = (Inr (created_job E n ?req, True),
        w\<lparr>tick := Suc n, db := (db w)\<lparr>jobs_table := jobs_table (db w) @ [created_job E n ?req]\<rparr>\<rparr>)" by blast
    let ?j = "created_job E n ?req"
    let ?w = "w\<lparr>tick := Suc n, db := (db w)\<lparr>jobs_table := jobs_table (db w) @ [?j]\<rparr>,
      observed := observed w @ RecordJobCreated (j_Type ?j)\<rparr>"
    have same: "ok ?w" "view ?w = view w"
      by (rule ok_same_redis [OF assms(1)]; simp) (rule view_frame; simp)
    have jid: "j_ID ?j \<noteq> uuid_Nil" using assms(3) n by (auto simp: created_job_def new_job_def)
    obtain e w1 where enq: "run_state (q_Enqueue Q (Some ?j)) ?w = (e, w1)" by (metis surj_pair)
    from enqueue_quiet [OF jid same(1) enq] have
      "db w1 = db ?w" "view w1 = v_enqueue ?j (view w)" by (simp_all add: same(2))
    moreover have "rp = respondJSON 201 (DJob (Some ?j))" "w' = w1"
      using assms(6) enq by (simp_all add: CreateJob_def v c enqueue_if_def assms(2))
    ultimately show ?thesis unfolding if_not_P [OF False] by (intro exI [of _ n]) (simp add: Let_def)
  qed
qed

end

text \<open>
  C30. Creating a job, when no call fails and nobody interferes: a body that does not decode, or whose
  type, priority, attempts or idempotency key is out of bounds, gets a 400 and changes nothing; a
  request whose key (from the body, else from the header) is that of a stored job gets that job,
  marked as a replay, and changes nothing; any other stores one QUEUED job with the defaults filled
  in, puts it in its priority's queue, and gets it back with a 201.
\<close>

theorem CreateJob_outcome:
  assumes "redis_server R U" and "reliable E" and "canonical_world R U w" and "h_Q h = Some (RedisQueue R U E)"
    and "\<forall>n \<in> {tick w, Suc (tick w)}. fresh E n 0 \<notin> insert uuid_Nil (j_ID ` set (jobs_table (db w)))"
    and "\<forall>req m. body = Some req \<and> cj_MaxAttempts req = Some m \<longrightarrow> int4 m"
    and "run_state (CreateJob E h r body) w = (rp, w')"
  shows "(\<forall>req. body = Some req \<longrightarrow> \<not> acceptable r req) \<and> rp_Status rp = 400 \<and> w' = w \<or>
    (\<exists>req. body = Some req \<and> acceptable r req \<and>
      (if \<exists>j \<in> set (jobs_table (db w)). j_IdempotencyKey j \<noteq> None \<and> j_IdempotencyKey j = request_key r req
       then \<exists>j \<in> set (jobs_table (db w)). j_IdempotencyKey j = request_key r req \<and>
         rp = (respondJSON 200 (DJob (Some j)))\<lparr>rp_Replay := True\<rparr> \<and> db w' = db w \<and> rds w' = rds w
       else \<exists>n. let j = created_job E n (req\<lparr>cj_IdempotencyKey := request_key r req\<rparr>) in
         rp = respondJSON 201 (DJob (Some j)) \<and> jobs_table (db w') = jobs_table (db w) @ [j] \<and>
         redis_view R U w' = v_enqueue j (redis_view R U w)))"
proof (cases "\<exists>req. body = Some req \<and> acceptable r req")
  case True
  then obtain req where req: "body = Some req" "acceptable r req" by blast
  from quiet_queue.CreateJob_quiet [OF quiet_redis_queue [OF assms(1,2)] assms(3-5) _ req(2)
      assms(7) [unfolded req(1)]] assms(6)
  show ?thesis using req by auto
next
  case False
  then obtain msg where "validate_job r body = Inl msg"
    using validate_job_iff [of r body] by (cases "validate_job r body") auto
  then show ?thesis using assms(7) False by (auto simp: CreateJob_def respondError_def)
qed

definition poster :: "zlist world handler" where
  "poster = \<lparr>h_Workers = True, h_Q = Some (RedisQueue zlist_ops hex_uuid_ops quiet_env), h_Engine = None\<rparr>"

definition demo_keyed_request :: request where
  "demo_keyed_request = \<lparr>rq_PathID = [], rq_IdempotencyKey = ''k1'', rq_Query = (\<lambda>_. [])\<rparr>"

definition demo_body :: create_job_request where
  "demo_body = \<lparr>cj_Type = ''email'', cj_Payload = None, cj_Priority = Some 3, cj_MaxAttempts = None,
     cj_IdempotencyKey = None, cj_Queue = None\<rparr>"

theorem CreateJob_outcome_witness:
  "\<exists>w' j. run_state (CreateJob quiet_env poster demo_keyed_request (Some demo_body)) demo_jobs_world =
     (respondJSON 201 (DJob (Some j)), w') \<and>
    j_Status j = JobStatusQueued \<and> j_IdempotencyKey j = Some ''k1'' \<and> j_MaxAttempts j = DefaultMaxAttempts \<and>
    jobs_table (db w') = [demo_job 7 1, j]"
proof -
  let ?r = demo_keyed_request and ?b = demo_body and ?E = "quiet_env :: zlist env"
  obtain rp w' where run: "run_state (CreateJob ?E poster ?r (Some ?b)) demo_jobs_world = (rp, w')"
    by (metis surj_pair)
  have h: "h_Q poster = Some (RedisQueue zlist_ops hex_uuid_ops quiet_env)"
    by (simp add: poster_def)
  have t: "jobs_table (db demo_jobs_world) = [demo_job 7 1]" "tick demo_jobs_world = 0"
    by (simp_all add: demo_jobs_world_def demo_world_def)
  have f: "\<forall>n \<in> {tick demo_jobs_world, Suc (tick demo_jobs_world)}.
      fresh ?E n 0 \<notin> insert uuid_Nil (j_ID ` set (jobs_table (db demo_jobs_world)))"
    by (simp add: t quiet_env_def)
  have m: "\<forall>req m. Some ?b = Some req \<and> cj_MaxAttempts req = Some m \<longrightarrow> int4 m"
    by (auto simp: demo_body_def)
  have a: "acceptable ?r ?b" "request_key ?r ?b = Some ''k1''"
    by (auto simp: acceptable_def request_key_def nonempty_def demo_body_def demo_keyed_request_def)
  have no: "\<not> (\<exists>j \<in> set (jobs_table (db demo_jobs_world)). j_IdempotencyKey j \<noteq> None \<and>
      j_IdempotencyKey j = request_key ?r ?b)" by (simp add: t demo_job_def)
  let ?j = "\<lambda>n. created_job ?E n (?b\<lparr>cj_IdempotencyKey := request_key ?r ?b\<rparr>)"
  from CreateJob_outcome [OF zl_hex.redis_server_axioms reliable_quiet_env demo_jobs_canonical h f m run] a(1)
  obtain n where "rp = respondJSON 201 (DJob (Some (?j n)))"
    "jobs_table (db w') = jobs_table (db demo_jobs_world) @ [?j n]"
    using no unfolding Let_def by (auto simp only: option.inject simp_thms split: if_split_asm)
  then show ?thesis using run unfolding a(2) t(1) by (auto simp: created_job_def new_job_def demo_body_def)
qed

end
