(* ===== verification/Flow_Steps.thy ===== *)
theory Flow_Steps
  imports Engine_Props Api_Props
begin

text \<open>
  The engine, the queue and the workers together, when no call fails and the handlers succeed: what
  the claims of some workers make of the jobs that wait, what a pass reads off finished jobs, and
  what scheduling one task adds.
\<close>

section \<open>Frames\<close>

text \<open>The number of the call only grows.\<close>

lemma keeps_tick [pres]:
  "keeps (\<lambda>w. n \<le> tick w) (pg E f)" "keeps (\<lambda>w. n \<le> tick w) (rcmd E g)"
  "keeps (\<lambda>w. n \<le> tick w) (emit cs)" "keeps (\<lambda>w. n \<le> tick w) (time_Now E)"
  "keeps (\<lambda>w. n \<le> tick w) (rand_Float64 E)" "keeps (\<lambda>w. n \<le> tick w) (exec_handler h p)"
  by (rule keepsI; simp add: pg_def rcmd_def call_def time_Now_def rand_Float64_def exec_handler_def
      split: outcome.split prod.split)+

lemma queue_keeps_tick: "queue_keeps (\<lambda>w. n \<le> tick w) (RedisQueue R U E)"
  unfolding queue_keeps_def RedisQueue_def queue_iface.simps RedisQueue_Enqueue_def
    RedisQueue_Claim_def RedisQueue_ClaimWithWeights_def RedisQueue_Ack_def RedisQueue_RequeueStale_def
    RedisQueue_Heartbeat_def RedisQueue_RemoveWorker_def RedisQueue_QueueLength_def
    RedisQueue_InProgressCount_def RedisQueue_GetQueueStats_def zcard_cmd_def Let_def
  by (intro conjI allI pres)

lemma keeps_when_workers_any [pres]: "keeps J m \<Longrightarrow> keeps J (when_workers W m)"
  unfolding when_workers_def by (intro pres)

lemmas attempt_defs = processJob_def run_attempt_def resolve_failure_def resolve_success_def
  JobStore_ClaimJob_def JobStore_MarkFailed_def JobStore_RecordFailure_def JobStore_MarkSucceeded_def
  WorkerStore_IncrementFailed_def WorkerStore_IncrementCompleted_def

lemmas advance_defs = AdvanceWorkflow_def WorkflowStore_Get_def WorkflowStore_GetTasksByWorkflowID_def
  inspect_tasks_def inspect_task_def JobStore_Get_def WorkflowStore_UpdateTask_def fail_workflow_def
  WorkflowStore_UpdateStatus_def WorkflowStore_GetReadyTasks_def schedule_task_def JobStore_Create_def
  findByIdempotencyKey_def

lemma keeps_tick_claim:
  "queue_keeps (\<lambda>w. n \<le> tick w) (wk_Q K) \<Longrightarrow> keeps (\<lambda>w. n \<le> tick w) (claim_and_process E K)"
  unfolding claim_and_process_def attempt_defs Let_def by (intro pres queue_keepsD)

lemma keeps_tick_inspect: "keeps (\<lambda>w. n \<le> tick w) (inspect_tasks E W ts)"
  unfolding advance_defs Let_def by (intro pres)

lemma keeps_tick_schedule:
  "(\<And>q. we_Q W = Some q \<Longrightarrow> queue_keeps (\<lambda>w. n \<le> tick w) q) \<Longrightarrow>
   keeps (\<lambda>w. n \<le> tick w) (schedule_task U E W wid t)"
  unfolding advance_defs Let_def by (intro pres queue_keepsD(1)) simp

lemma keeps_tick_advance:
  "(\<And>q. we_Q W = Some q \<Longrightarrow> queue_keeps (\<lambda>w. n \<le> tick w) q) \<Longrightarrow>
   keeps (\<lambda>w. n \<le> tick w) (AdvanceWorkflow U E W wid)"
  unfolding AdvanceWorkflow_def WorkflowStore_Get_def WorkflowStore_GetTasksByWorkflowID_def fail_workflow_def
    WorkflowStore_UpdateStatus_def WorkflowStore_UpdateTask_def WorkflowStore_GetReadyTasks_def
  by (intro pres keeps_tick_inspect keeps_tick_schedule)

text \<open>A worker touches the job and the worker tables only.\<close>

lemma keeps_flows_claim:
  assumes "reliable E" and "queue_keeps (\<lambda>w. tasks_table (db w) = ts \<and> workflows_table (db w) = fs) (wk_Q K)"
  shows "keeps (\<lambda>w. tasks_table (db w) = ts \<and> workflows_table (db w) = fs) (claim_and_process E K)"
proof -
  let ?I = "\<lambda>d. tasks_table d = ts \<and> workflows_table d = fs"
  note rely = rely_reliable [OF assms(1), of ?I]
  have h: "keeps (\<lambda>w. ?I (db w)) (exec_handler h p)" for h p
    by (rule keepsI) (simp add: exec_handler_def)
  show ?thesis
    unfolding claim_and_process_def attempt_defs Let_def
    by (intro pres queue_keepsD [OF assms(2)] keeps_pg [where I = ?I, OF rely] h
        keeps_time_Now [where I = ?I] keeps_rand_Float64 [where I = ?I] keeps_emit [where I = ?I])
      (auto simp: stmt_defs Let_def)
qed

section \<open>What the workers do with a queue of jobs\<close>

text \<open>The entries of the default queue; a job that may be run by a handler for one of \<open>Ty\<close>.\<close>

definition slots :: "queue_view \<Rightarrow> (int \<times> uuid) set" where
  "slots v = {(p, u). p \<in> {1, 2, 3} \<and> u \<in> waiting v ''default'' p}"

definition runnable :: "string set \<Rightarrow> job \<Rightarrow> bool" where
  "runnable Ty j \<longleftrightarrow> claimable j \<and> int4 (j_Attempt j + 1) \<and> j_Type j \<in> Ty"

definition job_fine :: "string set \<Rightarrow> db \<Rightarrow> uuid \<Rightarrow> bool" where
  "job_fine Ty d u \<longleftrightarrow> (\<exists>j. job_row u d = Some j \<and> (runnable Ty j \<or> j_Status j = JobStatusSucceeded))"

definition job_done :: "db \<Rightarrow> uuid \<Rightarrow> bool" where
  "job_done d u \<longleftrightarrow> (\<exists>j. job_row u d = Some j \<and> j_Status j = JobStatusSucceeded)"

text \<open>A worker whose handlers for the types \<open>Ty\<close> always succeed.\<close>

definition serves :: "'w queue_iface \<Rightarrow> string set \<Rightarrow> 'w worker_proc \<Rightarrow> bool" where
  "serves Q Ty K \<longleftrightarrow> wk_Q K = Q \<and> queue_name (wk_QueueName K) = ''default'' \<and>
     (\<forall>ty \<in> Ty. \<exists>f. wk_Handlers K ty = Some f \<and> (\<forall>payload n. f payload n = None))"

text \<open>The jobs are the same, and those that were fine or done are still so.\<close>

definition jobs_on :: "string set \<Rightarrow> db \<Rightarrow> db \<Rightarrow> bool" where
  "jobs_on Ty d d' \<longleftrightarrow> map j_ID (jobs_table d') = map j_ID (jobs_table d) \<and>
     map j_IdempotencyKey (jobs_table d') = map j_IdempotencyKey (jobs_table d) \<and>
     (\<forall>u. job_fine Ty d u \<longrightarrow> job_fine Ty d' u) \<and> (\<forall>u. job_done d u \<longrightarrow> job_done d' u)"

lemma jobs_on_refl: "jobs_table d' = jobs_table d \<Longrightarrow> jobs_on Ty d d'"
  by (simp add: jobs_on_def job_fine_def job_done_def)

lemma jobs_on_trans: "jobs_on Ty d d1 \<Longrightarrow> jobs_on Ty d1 d2 \<Longrightarrow> jobs_on Ty d d2"
  by (auto simp: jobs_on_def)

lemma slots_claim: "slots (v_claim ''default'' p u t v) = slots v - {(p, u)}"
  by (auto simp: slots_def v_claim_def split: if_splits)

lemma slots_ack: "slots (v_ack n u v) = slots v"
  by (simp add: slots_def v_ack_def)

lemma slots_enqueue:
  assumes "queue_name (j_Queue j) = ''default''"
  shows "slots (v_enqueue j v) = insert (queue_priority (j_Priority j), j_ID j) (slots v)"
  using queue_priority_range [of "j_Priority j"] assms by (auto simp: slots_def v_enqueue_def)

lemma slots_queued: "slots v = {} \<longleftrightarrow> queued v ''default'' = {}"
  by (auto simp: slots_def queued_def)

lemma jobs_on_update:
  assumes "distinct (map j_ID (jobs_table d))" and "job_row u d = Some j"
    and "same_request j j'" and "j_Status j' = JobStatusSucceeded"
    and "jobs_table d' = update_where (\<lambda>x. j_ID x = u) (\<lambda>_. j') (jobs_table d)"
  shows "jobs_on Ty d d' \<and> job_done d' u"
proof -
  have j: "j_ID j' = u" "j_ID j = u" using assms(3) row_of_SomeD [OF assms(2)] by (simp_all add: same_request_def)
  have same: "x = j" if "x \<in> set (jobs_table d)" "j_ID x = u" for x
    using row_of_distinct [OF assms(1) that(1)] assms(2) that(2) by simp
  have "map j_ID (jobs_table d') = map j_ID (jobs_table d)"
    "map j_IdempotencyKey (jobs_table d') = map j_IdempotencyKey (jobs_table d)"
    unfolding assms(5) by (rule map_update_where_on; use same assms(3) in \<open>auto simp: same_request_def\<close>)+
  moreover have "job_row x d' = (if x = u then Some j' else job_row x d)" for x
    using row_of_update_where [where p = "\<lambda>x. j_ID x = u" and key = j_ID and f = "\<lambda>_. j'" and k = x and rs = "jobs_table d"]
      j assms(2) by (cases "job_row x d") (auto simp: assms(5) dest: row_of_SomeD)
  ultimately show ?thesis
    using assms(3,4) by (auto simp: jobs_on_def job_fine_def job_done_def same_request_def)
qed

text \<open>The workers \<open>Ks\<close> claim in turn, each one job.\<close>

definition worker_round :: "'z env \<Rightarrow> 'z world worker_proc list \<Rightarrow> ('z world, unit) state" where
  "worker_round E Ks = for_each Ks () (\<lambda>K _. do {
     _ \<leftarrow> claim_and_process E K;
     State_Monad.return ()
   })"

context quiet_queue
begin

lemma claim_and_process_quiet:
  assumes okw: "ok w" and dist: "distinct (map j_ID (jobs_table (db w)))"
    and fine: "\<forall>(p, u) \<in> slots (view w). job_fine Ty (db w) u" and K: "serves Q Ty K"
    and run: "run_state (claim_and_process E K) w = (b, w')"
  shows "ok w' \<and> jobs_on Ty (db w) (db w') \<and>
    (slots (view w) = {} \<and> slots (view w') = {} \<or>
     (\<exists>p u. (p, u) \<in> slots (view w) \<and> slots (view w') = slots (view w) - {(p, u)} \<and> job_done (db w') u))"
proof -
  have Q: "wk_Q K = Q" and n: "queue_name (wk_QueueName K) = ''default''" using K by (simp_all add: serves_def)
  obtain rc w1 where c: "run_state (q_Claim Q (wk_ID K) (wk_QueueName K) (wk_VisibilityTimeout K)) w = (rc, w1)"
    by (metis surj_pair)
  from claim [OF okw c] have ok1: "ok w1" and db1: "db w1 = db w"
    and res: "claim_result ''default'' (claim_deadline (clock E (tick w)) (wk_VisibilityTimeout K)) (view w) rc (view w1)"
    by (auto simp: one_call_quiet view_quiet delivers_def fault_quiet n)
  show ?thesis
  proof (cases rc)
    case (Inl e)
    then have "slots (view w) = {}" "view w1 = view w" using res by (auto simp: claim_result_def slots_queued)
    moreover have "w' = w1" using run c Inl Q by (simp add: claim_and_process_def)
    ultimately show ?thesis using ok1 db1 by (simp add: jobs_on_refl)
  next
    case (Inr u)
    with res obtain p where "p \<in> {1, 2, 3}" "u \<in> waiting (view w) ''default'' p"
      "view w1 = v_claim ''default'' p u (claim_deadline (clock E (tick w)) (wk_VisibilityTimeout K)) (view w)"
      unfolding claim_result_def by blast
    then have p: "(p, u) \<in> slots (view w)" and v1: "slots (view w1) = slots (view w) - {(p, u)}"
      by (simp_all add: slots_def [of "view w"] slots_claim)
    then obtain j where j: "job_row u (db w) = Some j" "runnable Ty j \<or> j_Status j = JobStatusSucceeded"
      using fine unfolding job_fine_def by blast
    have run1: "run_state (processJob E K u) w1 = ((), w')"
      using run c Inr Q by (auto simp: claim_and_process_def split: prod.splits)
    from processJob_quiet [OF ok1 _ _ _ Q run1] dist j db1
    have step: "ok w'" "view w' = v_ack ''default'' u (view w1)"
      "if claimable j then \<exists>j'. attempt_outcome E (wk_Handlers K (j_Type j)) (tick w1) j j' \<and>
         jobs_table (db w') = update_where (\<lambda>x. j_ID x = u) (\<lambda>_. j') (jobs_table (db w))
       else db w' = db w"
      by (auto simp: n runnable_def claimable_def)
    have "jobs_on Ty (db w) (db w') \<and> job_done (db w') u"
    proof (cases "claimable j")
      case False
      then show ?thesis using step(3) j by (auto simp: jobs_on_refl job_done_def runnable_def)
    next
      case True
      then have "runnable Ty j" using j(2) by (auto simp: claimable_def)
      then obtain f where f: "wk_Handlers K (j_Type j) = Some f" "f payload n = None" for payload n
        using K by (auto simp: serves_def runnable_def)
      from True step(3) obtain j' where "attempt_outcome E (Some f) (tick w1) j j'"
        and upd: "jobs_table (db w') = update_where (\<lambda>x. j_ID x = u) (\<lambda>_. j') (jobs_table (db w))"
        by (auto simp: f(1))
      then have "same_request j j'" "j_Status j' = JobStatusSucceeded" by (auto simp: attempt_outcome_def f(2))
      from jobs_on_update [OF dist j(1) this upd] show ?thesis by blast
    qed
    then show ?thesis using step p v1 by (auto simp: slots_ack)
  qed
qed

lemma worker_round_quiet:
  assumes "ok w" and "distinct (map j_ID (jobs_table (db w)))" and "\<forall>(p, u) \<in> slots (view w). job_fine Ty (db w) u"
    and "\<forall>K \<in> set Ks. serves Q Ty K" and "finite (slots (view w))" and "card (slots (view w)) \<le> length Ks"
    and "run_state (worker_round E Ks) w = (u, w')"
  shows "ok w' \<and> jobs_on Ty (db w) (db w') \<and> slots (view w') = {} \<and>
    (\<forall>(p, u) \<in> slots (view w). job_done (db w') u)"
  using assms
proof (induction Ks arbitrary: w)
  case Nil
  then show ?case by (auto simp: worker_round_def jobs_on_refl)
next
  case (Cons K Ks)
  obtain b w1 where w1: "run_state (claim_and_process E K) w = (b, w1)" by (metis surj_pair)
  have rest: "run_state (worker_round E Ks) w1 = (u, w')"
    using Cons.prems(7) w1 by (simp add: worker_round_def)
  from claim_and_process_quiet [OF Cons.prems(1-3) _ w1] Cons.prems(4)
  have ok1: "ok w1" and on1: "jobs_on Ty (db w) (db w1)" and
    "slots (view w) = {} \<and> slots (view w1) = {} \<or>
     (\<exists>p u. (p, u) \<in> slots (view w) \<and> slots (view w1) = slots (view w) - {(p, u)} \<and> job_done (db w1) u)"
    by auto
  then obtain S where S: "slots (view w1) = slots (view w) - S" "card (slots (view w1)) \<le> length Ks"
    "\<forall>(p, u) \<in> S. job_done (db w1) u" "finite (slots (view w1))"
  proof (elim disjE exE conjE)
    assume "slots (view w) = {}" "slots (view w1) = {}"
    then show thesis using that [of "{}"] by simp
  next
    fix p u
    assume "(p, u) \<in> slots (view w)" "slots (view w1) = slots (view w) - {(p, u)}" "job_done (db w1) u"
    then show thesis using that [of "{(p, u)}"] Cons.prems(5,6) by simp
  qed
  have "distinct (map j_ID (jobs_table (db w1)))" "\<forall>(p, u) \<in> slots (view w1). job_fine Ty (db w1) u"
    using on1 Cons.prems(2,3) S(1) by (auto simp: jobs_on_def)
  from Cons.IH [OF ok1 this _ S(4,2) rest] Cons.prems(4)
  have IH: "ok w'" "jobs_on Ty (db w1) (db w')" "slots (view w') = {}"
    "\<forall>(p, u) \<in> slots (view w1). job_done (db w') u" by auto
  have "job_done (db w') u" if "(p, u) \<in> slots (view w)" for p u
    using that S(1,3) IH(2,4) by (cases "(p, u) \<in> S") (auto simp: jobs_on_def)
  then show ?case using IH jobs_on_trans [OF on1 IH(2)] by auto
qed

end

lemma worker_round_frame:
  assumes "reliable E" and "\<And>n. queue_keeps (\<lambda>w. n \<le> tick w) Q"
    and "\<And>ts fs. queue_keeps (\<lambda>w. tasks_table (db w) = ts \<and> workflows_table (db w) = fs) Q"
    and "\<forall>K \<in> set Ks. serves Q Ty K" and "run_state (worker_round E Ks) w = (u, w')"
  shows "tick w \<le> tick w' \<and> tasks_table (db w') = tasks_table (db w) \<and> workflows_table (db w') = workflows_table (db w)"
proof -
  have Q: "wk_Q K = Q" if "K \<in> set Ks" for K using assms(4) that by (simp add: serves_def)
  have "keeps (\<lambda>v. tick w \<le> tick v) (worker_round E Ks)"
    unfolding worker_round_def by (intro pres keeps_tick_claim) (simp add: Q assms(2))
  moreover have "keeps (\<lambda>v. tasks_table (db v) = tasks_table (db w) \<and> workflows_table (db v) = workflows_table (db w))
      (worker_round E Ks)"
    unfolding worker_round_def by (intro pres keeps_flows_claim [OF assms(1)]) (simp add: Q assms(3))
  ultimately show ?thesis using assms(5) by (auto dest!: keepsD [where s = w])
qed

section \<open>What a pass reads off finished jobs\<close>

text \<open>The fields of a task that no statement changes.\<close>

definition task_shape ::
  "workflow_task \<Rightarrow> uuid \<times> uuid \<times> string \<times> string \<times> string \<times> string list" where
  "task_shape t = (t_ID t, t_WorkflowID t, t_Name t, t_Type t, t_Payload t, t_Dependencies t)"

definition on_course :: "workflow_task \<Rightarrow> bool" where
  "on_course t \<longleftrightarrow> t_Status t \<in> {WorkflowTaskStatusPending, WorkflowTaskStatusSucceeded}"

text \<open>
  The database \<open>d\<close> while a pass that began on \<open>d0\<close> has still to look at the tasks \<open>xs\<close>: all tasks
  of the workflow it has looked at are PENDING as before or SUCCEEDED.
\<close>

definition inspecting :: "uuid \<Rightarrow> db \<Rightarrow> workflow_task list \<Rightarrow> db \<Rightarrow> bool" where
  "inspecting wid d0 xs d \<longleftrightarrow>
     jobs_table d = jobs_table d0 \<and> workflows_table d = workflows_table d0 \<and>
     map task_shape (tasks_table d) = map task_shape (tasks_table d0) \<and>
     {r \<in> set (tasks_table d). pending r} = {r \<in> set (tasks_table d0). pending r} \<and>
     set xs \<subseteq> set (tasks_table d) \<and> distinct (map t_ID xs) \<and>
     (\<forall>r \<in> set (tasks_table d). t_WorkflowID r = wid \<longrightarrow> r \<in> set xs \<or> on_course r)"

lemma shape_ids: "map task_shape ts = map task_shape ts' \<Longrightarrow> map t_ID ts = map t_ID ts'"
  by (drule arg_cong [of _ _ "map fst"]) (simp add: task_shape_def o_def)

lemma task_shape_set: "task_shape (set_task st j e now t) = task_shape t"
  by (simp add: task_shape_def set_task_def)

lemma inspecting_succeeded:
  assumes i: "inspecting wid d0 (x # xs) d" and dist: "distinct (map t_ID (tasks_table d0))" and x: "\<not> pending x"
  shows "inspecting wid d0 xs (snd (update_task_stmt (t_ID x) WorkflowTaskStatusSucceeded None None now d))"
proof -
  let ?f = "set_task WorkflowTaskStatusSucceeded None None now" and ?p = "\<lambda>t. t_ID t = t_ID x"
  let ?ts = "update_where ?p ?f (tasks_table d)"
  have "distinct (map t_ID (tasks_table d))"
    using i dist shape_ids [of "tasks_table d" "tasks_table d0"] by (simp add: inspecting_def)
  then have row: "r = x" if "r \<in> set (tasks_table d)" "t_ID r = t_ID x" for r
    using i that by (auto simp: inspecting_def distinct_map inj_on_def)
  have "map task_shape ?ts = map task_shape (tasks_table d)" by (simp add: map_update_where task_shape_set)
  moreover have "{r \<in> set ?ts. pending r} = {r \<in> set (tasks_table d). pending r}"
    using row x by (auto simp: rows pending_def set_task_fields)
  moreover have "set xs \<subseteq> set ?ts"
    using i by (auto simp: rows inspecting_def image_iff)
  moreover have "r \<in> set xs \<or> on_course r" if "r \<in> set ?ts" "t_WorkflowID r = wid" for r
    using that i row by (auto simp: rows on_course_def set_task_fields inspecting_def)
  ultimately show ?thesis
    using i by (auto simp: update_task_stmt_def inspecting_def)
qed

lemma inspecting_next:
  "inspecting wid d0 (x # xs) d \<Longrightarrow> on_course x \<Longrightarrow> inspecting wid d0 xs d"
  by (auto simp: inspecting_def)

lemma inspect_task_step:
  assumes "reliable E" and "we_Jobs W" and "distinct (map t_ID (tasks_table d0))"
    and "distinct (map j_ID (jobs_table d0))" and "inspecting wid d0 (x # xs) (db w)"
    and "on_course x \<or> t_Status x = WorkflowTaskStatusRunning \<and> (\<exists>jid. t_JobID x = Some jid \<and> job_done d0 jid)"
    and "run_state (inspect_task E W x) w = (t, w')"
  shows "inspecting wid d0 xs (db w') \<and> rds w' = rds w \<and> on_course t"
proof (cases "on_course x")
  case True
  then have "t = x \<and> w' = w" using assms(7)
    by (auto simp: inspect_task_def on_course_def split: option.splits)
  then show ?thesis using inspecting_next [OF assms(5)] True by simp
next
  case False
  then obtain jid j where j: "t_Status x = WorkflowTaskStatusRunning" "t_JobID x = Some jid"
    "job_row jid d0 = Some j" "j_Status j = JobStatusSucceeded"
    using assms(6) by (auto simp: job_done_def)
  have jobs: "jobs_table (db w) = jobs_table d0" using assms(5) by (simp add: inspecting_def)
  have "distinct (map j_ID (jobs_table (db w)))" using assms(4) jobs by simp
  then have "t = x\<lparr>t_Status := WorkflowTaskStatusSucceeded\<rparr> \<and> rds w' = rds w \<and> db w' =
      snd (update_task_stmt (t_ID x) WorkflowTaskStatusSucceeded None None (clock E (Suc (tick w))) (db w))"
    using assms(2,7) j jobs by (simp add: inspect_task_def run_JobStore_Get [OF assms(1)] run_UpdateTask [OF assms(1)])
      (auto)
  then show ?thesis
    using inspecting_succeeded [OF assms(5,3)] j(1) by (simp add: on_course_def pending_def)
qed

text \<open>A task that the next pass finds on course, given the jobs.\<close>

definition resolved :: "db \<Rightarrow> workflow_task \<Rightarrow> bool" where
  "resolved d t \<longleftrightarrow> on_course t \<or>
     t_Status t = WorkflowTaskStatusRunning \<and> (\<exists>jid. t_JobID t = Some jid \<and> job_done d jid)"

lemma inspect_loop:
  assumes "reliable E" and "we_Jobs W" and "distinct (map t_ID (tasks_table d0))"
    and "distinct (map j_ID (jobs_table d0))"
  shows "valid (\<lambda>w. inspecting wid d0 xs (db w) \<and> (\<forall>x \<in> set xs. resolved d0 x) \<and> rds w = rd) (inspect_tasks E W xs)
    (\<lambda>_ w. inspecting wid d0 [] (db w) \<and> rds w = rd)"
proof -
  let ?I = "\<lambda>xs (acc :: workflow_task list \<times> workflow_task option \<times> bool) w.
    inspecting wid d0 xs (db w) \<and> (\<forall>x \<in> set xs. resolved d0 x) \<and> rds w = rd"
  have "valid (?I (x # xs) acc) (inspect_task E W x) (\<lambda>_. ?I xs acc)" for x xs acc
    unfolding valid_def using inspect_task_step [OF assms, of wid x xs]
    by (auto simp: resolved_def split: prod.split) (metis prod.collapse)+
  then have "valid (?I xs acc) (for_each xs acc (\<lambda>task0 (seen, failedTask, allSucceeded). do {
       task \<leftarrow> inspect_task E W task0;
       State_Monad.return
         (if t_Status task = WorkflowTaskStatusFailed then (seen @ [task], Some task, False)
          else if t_Status task \<noteq> WorkflowTaskStatusSucceeded then (seen @ [task], failedTask, False)
          else (seen @ [task], failedTask, allSucceeded))
     })) (?I [])" for acc
    by (intro valid_for_each) (auto intro!: valid_bind valid_return split: prod.splits)
  then show ?thesis
    unfolding inspect_tasks_def by (rule valid_weaken) simp_all
qed

text \<open>The outcome of the first loop on a workflow whose jobs have all succeeded.\<close>

lemma inspected_resolved: "resolved d t \<Longrightarrow> on_course (inspected d t) \<and> pending (inspected d t) = pending t"
  by (auto simp: resolved_def on_course_def inspected_def pending_def job_done_def split: option.split job_status.split)

lemma inspect_outcome:
  assumes "reliable E" and "we_Jobs W" and "db_ok (db w)"
    and "\<forall>t \<in> set (tasks_of wid (db w)). resolved (db w) t"
  shows "\<exists>seen w'. run_state (inspect_tasks E W (tasks_of wid (db w))) w = ((seen, None, pending_ids wid (db w) = {}), w') \<and>
    length seen = length (tasks_of wid (db w)) \<and> inspecting wid (db w) [] (db w') \<and> rds w' = rds w"
proof -
  let ?d = "db w" and ?xs = "tasks_of wid (db w)"
  let ?seen = "map (inspected ?d) ?xs"
  have ids: "distinct (map t_ID (tasks_table ?d))" "distinct (map j_ID (jobs_table ?d))"
    using assms(3) by (simp_all add: db_ok_def tasks_ok_def jobs_ok_def)
  obtain w' where run: "run_state (inspect_tasks E W ?xs) w =
      ((?seen, last_failed ?seen, all_succeeded ?seen), w')"
    using run_inspect_tasks [OF assms(1,2) ids(2), of ?xs wid] by blast
  have "distinct (map t_ID (filter (\<lambda>t. t_WorkflowID t = wid) (tasks_table ?d)))"
    using ids(1) by (simp add: distinct_map_filter)
  then have "distinct (map t_ID ?xs)" by (simp add: tasks_of_def distinct_map)
  then have start: "inspecting wid ?d ?xs ?d" by (auto simp: inspecting_def tasks_of_def)
  have "inspecting wid ?d [] (db w') \<and> rds w' = rds w"
    using validD [OF inspect_loop [OF assms(1,2) ids] run] start assms(4) by blast
  moreover have seen: "\<forall>t \<in> set ?seen. on_course t" using assms(4) inspected_resolved by auto
  then have "last_failed ?seen = None"
    by (auto simp: last_failed_def find_None_iff on_course_def)
  moreover have "all_succeeded ?seen \<longleftrightarrow> pending_ids wid ?d = {}"
  proof -
    have "all_succeeded ?seen \<longleftrightarrow> (\<forall>t \<in> set ?seen. \<not> pending t)"
      using seen by (auto simp: all_succeeded_def list_all_iff on_course_def pending_def)
    also have "\<dots> \<longleftrightarrow> (\<forall>t \<in> set ?xs. \<not> pending t)" using assms(4) inspected_resolved by auto
    also have "\<dots> \<longleftrightarrow> pending_ids wid ?d = {}" by (auto simp: pending_ids_tasks)
    finally show ?thesis .
  qed
  ultimately show ?thesis using run by (intro exI [of _ ?seen] exI [of _ w']) simp
qed

section \<open>Scheduling\<close>

text \<open>
  A workflow under way, when the jobs \<open>S\<close> wait in the queue: its tasks are of the types \<open>Ty\<close>; a
  PENDING task has no job yet, the job of a RUNNING one waits or has succeeded.
\<close>

definition task_fine :: "uuid_ops \<Rightarrow> uuid \<Rightarrow> db \<Rightarrow> uuid set \<Rightarrow> workflow_task \<Rightarrow> bool" where
  "task_fine U wid d S t \<longleftrightarrow>
     pending t \<and> Some (task_key U wid (t_Name t)) \<notin> j_IdempotencyKey ` set (jobs_table d) \<or>
     t_Status t = WorkflowTaskStatusSucceeded \<or>
     t_Status t = WorkflowTaskStatusRunning \<and> (\<exists>jid. t_JobID t = Some jid \<and> (job_done d jid \<or> jid \<in> S))"

definition under_way :: "uuid_ops \<Rightarrow> uuid \<Rightarrow> string set \<Rightarrow> uuid set \<Rightarrow> db \<Rightarrow> bool" where
  "under_way U wid Ty S d \<longleftrightarrow> db_ok d \<and> (\<forall>u \<in> S. job_fine Ty d u) \<and>
     (\<forall>t \<in> set (tasks_table d). t_WorkflowID t = wid \<longrightarrow> t_Type t \<in> Ty \<and> task_fine U wid d S t)"

lemma task_key_inj: "task_key U wid a = task_key U wid b \<longleftrightarrow> a = b"
  by (simp add: task_key_def)

lemma job_row_append:
  "job_row u d = Some k \<Longrightarrow> job_row u (d\<lparr>jobs_table := jobs_table d @ [j], tasks_table := ts\<rparr>) = Some k"
  by simp

lemma under_way_schedule:
  assumes f: "under_way U wid Ty S d" and x: "x \<in> set (tasks_table d)" "t_WorkflowID x = wid" "pending x"
    and j: "j_ID j \<notin> j_ID ` set (jobs_table d)" "runnable Ty j"
      "j_IdempotencyKey j = Some (task_key U wid (t_Name x))"
    and d1: "d1 = d\<lparr>jobs_table := jobs_table d @ [j]\<rparr>" "db_ok d1"
    and d2: "d2 = snd (update_task_stmt (t_ID x) WorkflowTaskStatusRunning (Some (j_ID j)) None now d1)"
  shows "fst (update_task_stmt (t_ID x) WorkflowTaskStatusRunning (Some (j_ID j)) None now d1) = Inr () \<and>
    under_way U wid Ty (insert (j_ID j) S) d2 \<and> map task_shape (tasks_table d2) = map task_shape (tasks_table d) \<and>
    workflows_table d2 = workflows_table d \<and> jobs_table d2 = jobs_table d @ [j] \<and>
    (\<forall>y \<in> set (tasks_table d). t_ID y \<noteq> t_ID x \<longrightarrow> y \<in> set (tasks_table d2)) \<and>
    pending_ids wid d2 = pending_ids wid d - {t_ID x}"
proof -
  let ?f = "set_task WorkflowTaskStatusRunning (Some (j_ID j)) None now"
  let ?ts = "update_where (\<lambda>t. t_ID t = t_ID x) ?f (tasks_table d)"
  have upd: "update_task_stmt (t_ID x) WorkflowTaskStatusRunning (Some (j_ID j)) None now d1 =
      (Inr (), d\<lparr>jobs_table := jobs_table d @ [j], tasks_table := ?ts\<rparr>)"
    by (simp add: update_task_stmt_def d1(1))
  then have d2': "d2 = d\<lparr>jobs_table := jobs_table d @ [j], tasks_table := ?ts\<rparr>" by (simp add: d2)
  have ok2: "db_ok d2" unfolding d2 by (rule db_ok_step [OF db_step.UpdateTask d1(2)])
  have ids: "distinct (map t_ID (tasks_table d))"
    "distinct (map (\<lambda>t. (t_WorkflowID t, t_Name t)) (tasks_table d))"
    using f by (simp_all add: under_way_def db_ok_def tasks_ok_def)
  have row: "r = x" if "r \<in> set (tasks_table d)" "t_ID r = t_ID x" for r
    using ids(1) that x(1) by (auto simp: distinct_map inj_on_def)
  have name: "t_Name r \<noteq> t_Name x" if "r \<in> set (tasks_table d)" "t_WorkflowID r = wid" "t_ID r \<noteq> t_ID x" for r
    using ids(2) that x(1,2) unfolding distinct_map inj_on_def by fastforce
  have done2: "job_done d u \<Longrightarrow> job_done d2 u" "job_fine Ty d u \<Longrightarrow> job_fine Ty d2 u" for u
    unfolding job_done_def job_fine_def d2' using job_row_append by blast+
  have new: "job_fine Ty d2 (j_ID j)"
    using j(1,2) by (simp add: job_fine_def d2' row_of_None [THEN iffD2])
  have "t_Type t \<in> Ty \<and> task_fine U wid d2 (insert (j_ID j) S) t"
    if t: "t \<in> set (tasks_table d2)" "t_WorkflowID t = wid" for t
  proof (cases "t_ID t = t_ID x")
    case True
    then have "t = ?f x" using t(1) row by (auto simp: d2' rows set_task_fields)
    moreover have "t_Type x \<in> Ty" using f x by (simp add: under_way_def)
    ultimately show ?thesis by (simp add: task_fine_def set_task_def COALESCE_def)
  next
    case False
    then have t': "t \<in> set (tasks_table d)" using t(1) by (auto simp: d2' rows set_task_fields)
    then have "t_Type t \<in> Ty" "task_fine U wid d S t" using f t(2) by (simp_all add: under_way_def)
    moreover have "j_IdempotencyKey j \<noteq> Some (task_key U wid (t_Name t))"
      using name [OF t' t(2) False] by (simp add: j(3) task_key_inj)
    ultimately show ?thesis using done2 by (auto simp: task_fine_def d2')
  qed
  moreover have "\<forall>u \<in> insert (j_ID j) S. job_fine Ty d2 u" using f done2 new by (auto simp: under_way_def)
  ultimately have "under_way U wid Ty (insert (j_ID j) S) d2" using ok2 by (simp add: under_way_def)
  moreover have "map task_shape ?ts = map task_shape (tasks_table d)" by (simp add: map_update_where task_shape_set)
  moreover have "pending_ids wid d2 = pending_ids wid d - {t_ID x}"
    by (auto simp: pending_ids_def d2' rows pending_def set_task_fields)
  moreover have "\<forall>y \<in> set (tasks_table d). t_ID y \<noteq> t_ID x \<longrightarrow> y \<in> set ?ts" by (auto simp: rows)
  ultimately show ?thesis using upd by (simp add: d2')
qed

text \<open>The identifiers that the calls up to number \<open>hi\<close> would generate are new and different.\<close>

definition ids_new :: "'z env \<Rightarrow> nat \<Rightarrow> 'z world \<Rightarrow> bool" where
  "ids_new E hi w \<longleftrightarrow> inj_on (\<lambda>n. fresh E n 0) {tick w..<hi} \<and>
     (\<forall>n \<in> {tick w..<hi}. fresh E n 0 \<notin> insert uuid_Nil (j_ID ` set (jobs_table (db w))))"

lemma ids_new_later:
  assumes "ids_new E hi w" and "tick w \<le> tick w'"
    and "j_ID ` set (jobs_table (db w')) = j_ID ` set (jobs_table (db w))"
  shows "ids_new E hi w'"
  using assms by (auto simp: ids_new_def intro: inj_on_subset)

lemma ids_new_used:
  assumes "ids_new E hi w" and "tick w \<le> n" and "n < tick w'" and "n < hi"
    and "j_ID ` set (jobs_table (db w')) = insert (fresh E n 0) (j_ID ` set (jobs_table (db w)))"
  shows "ids_new E hi w'"
proof -
  have "fresh E m 0 \<noteq> fresh E n 0" if "m \<in> {tick w'..<hi}" for m
    using assms(1-4) that unfolding ids_new_def inj_on_def by fastforce
  then show ?thesis using assms by (auto simp: ids_new_def intro: inj_on_subset)
qed

lemma task_request_ranges: "request_ranges (task_job_request U wid t)"
  by (simp add: request_ranges_def task_job_request_def default_defs int4_def)

section \<open>One pass\<close>

lemma shape_types:
  assumes "map task_shape ts' = map task_shape ts" and "t' \<in> set ts'"
  obtains t where "t \<in> set ts" "task_shape t' = task_shape t"
proof -
  have "task_shape t' \<in> set (map task_shape ts)" using assms(2) by (simp add: assms(1) [symmetric])
  then show thesis using that by auto
qed

lemma shape_length:
  assumes "map task_shape (tasks_table d') = map task_shape (tasks_table d)"
  shows "length (tasks_of wid d') = length (tasks_of wid d)"
proof -
  have "length (filter (\<lambda>t. t_WorkflowID t = wid) ts) = length (filter (\<lambda>s. fst (snd s) = wid) (map task_shape ts))" for ts
    by (induction ts) (simp_all add: task_shape_def)
  then show ?thesis using assms by (simp only: tasks_of_def length_sort)
qed

lemma under_way_inspected:
  assumes "under_way U wid Ty {} d" and "inspecting wid d [] d'" and "db_ok d'"
  shows "under_way U wid Ty {} d' \<and> pending_ids wid d' = pending_ids wid d \<and>
    (\<forall>t \<in> set (tasks_of wid d'). on_course t)"
proof -
  have on: "on_course t" if "t \<in> set (tasks_table d')" "t_WorkflowID t = wid" for t
    using assms(2) that by (simp add: inspecting_def)
  have pend: "pending t \<and> t \<in> set (tasks_table d') \<longleftrightarrow> pending t \<and> t \<in> set (tasks_table d)" for t
    using assms(2) by (auto simp: inspecting_def)
  have "t_Type t \<in> Ty \<and> task_fine U wid d' {} t" if t: "t \<in> set (tasks_table d')" "t_WorkflowID t = wid" for t
  proof -
    from assms(2) have "map task_shape (tasks_table d') = map task_shape (tasks_table d)" by (simp add: inspecting_def)
    from shape_types [OF this t(1)] obtain s where "s \<in> set (tasks_table d)" "task_shape t = task_shape s" .
    then have ty: "t_Type t \<in> Ty" using assms(1) t(2) by (auto simp: under_way_def task_shape_def)
    have "task_fine U wid d {} t" if "pending t"
      using assms(1) t that pend by (auto simp: under_way_def)
    then have "task_fine U wid d' {} t"
      using on [OF t] assms(2) by (auto simp: on_course_def task_fine_def pending_def inspecting_def)
    with ty show ?thesis ..
  qed
  moreover have "pending_ids wid d' = pending_ids wid d" using pend unfolding pending_ids_def by blast
  ultimately show ?thesis using on assms(3) by (auto simp: under_way_def tasks_of_def)
qed

definition ready_list :: "uuid \<Rightarrow> db \<Rightarrow> workflow_task list" where
  "ready_list wid d = sort_key t_CreatedAt (filter (ready_task d wid) (tasks_table d))"

lemma ready_list:
  assumes "db_ok d" and "\<forall>t \<in> set (tasks_of wid d). on_course t"
  shows "set (ready_list wid d) \<subseteq> {x \<in> set (tasks_table d). t_WorkflowID x = wid \<and> pending x}"
    and "distinct (map t_ID (ready_list wid d))"
    and "length (ready_list wid d) \<le> length (tasks_of wid d)"
    and "pending_ids wid d \<noteq> {} \<Longrightarrow> pending_ids wid d - t_ID ` set (ready_list wid d) \<subset> pending_ids wid d"
proof -
  show sub: "set (ready_list wid d) \<subseteq> {x \<in> set (tasks_table d). t_WorkflowID x = wid \<and> pending x}"
    by (auto simp: ready_list_def ready_task_def pending_def)
  have "distinct (map t_ID (filter (ready_task d wid) (tasks_table d)))"
    using assms(1) by (simp add: db_ok_def tasks_ok_def distinct_map_filter)
  then show "distinct (map t_ID (ready_list wid d))" by (simp add: ready_list_def distinct_map)
  have "length (filter (ready_task d wid) ts) \<le> length (filter (\<lambda>t. t_WorkflowID t = wid) ts)" for ts
    by (induction ts) (auto simp: ready_task_def)
  then show "length (ready_list wid d) \<le> length (tasks_of wid d)" by (simp add: ready_list_def tasks_of_def)
  show "pending_ids wid d - t_ID ` set (ready_list wid d) \<subset> pending_ids wid d" if "pending_ids wid d \<noteq> {}"
  proof -
    have "\<exists>t \<in> set (tasks_of wid d). ready_task d wid t"
      using ready_or_running [OF assms(1), of wid] assms(2) that
      by (fastforce simp: on_course_def pending_ids_tasks pending_def)
    then obtain t where "t \<in> set (ready_list wid d)" by (auto simp: ready_list_def tasks_of_def)
    then show ?thesis using sub by (auto simp: pending_ids_def)
  qed
qed

text \<open>One pass of the engine, then one turn of every worker; and several such rounds.\<close>

definition workflow_round ::
  "uuid_ops \<Rightarrow> 'z env \<Rightarrow> 'z world workflow_engine \<Rightarrow> uuid \<Rightarrow> 'z world worker_proc list \<Rightarrow> ('z world, unit) state" where
  "workflow_round U E W wid Ks = do {
     _ \<leftarrow> AdvanceWorkflow U E W wid;
     worker_round E Ks
   }"

definition workflow_rounds ::
  "uuid_ops \<Rightarrow> 'z env \<Rightarrow> 'z world workflow_engine \<Rightarrow> uuid \<Rightarrow> 'z world worker_proc list \<Rightarrow> nat \<Rightarrow>
   ('z world, unit) state" where
  "workflow_rounds U E W wid Ks k = for_each [0..<k] () (\<lambda>_ _. workflow_round U E W wid Ks)"

definition completed :: "uuid \<Rightarrow> db \<Rightarrow> bool" where
  "completed wid d \<longleftrightarrow>
     (\<exists>f. row_of wf_ID wid (workflows_table d) = Some f \<and> wf_Status f = WorkflowStatusSucceeded) \<and>
     (\<forall>t \<in> set (tasks_of wid d). t_Status t = WorkflowTaskStatusSucceeded)"

lemma under_way_worked:
  assumes "under_way U wid Ty S d" and "jobs_on Ty d d'" and "tasks_table d' = tasks_table d" and "db_ok d'"
    and "\<forall>u \<in> S. job_done d' u"
  shows "under_way U wid Ty {} d'"
proof -
  have "j_IdempotencyKey ` set (jobs_table d') = j_IdempotencyKey ` set (jobs_table d)"
    using assms(2) unfolding jobs_on_def by (metis set_map)
  then show ?thesis using assms unfolding under_way_def task_fine_def jobs_on_def by auto
qed

lemma on_course_completed:
  assumes "row_of wf_ID wid (workflows_table d) = Some (set_workflow WorkflowStatusSucceeded e now f)"
    and "pending_ids wid d = {}" and "\<forall>t \<in> set (tasks_of wid d). on_course t"
  shows "completed wid d"
  using assms by (auto simp: completed_def set_workflow_def on_course_def pending_ids_tasks pending_def)

end
