(* ===== verification/Flow_Run.thy ===== *)
theory Flow_Run
  imports Flow_Steps
begin

text \<open>
  Passes of the workflow engine alternate with claims by the workers, on any queue that meets the
  contract: each round finishes every task that was ready, so that fewer are left, until the
  workflow is completed, and then stays so.
\<close>

section \<open>Rounds\<close>

text \<open>An engine and workers on one queue, undisturbed.\<close>

locale workflow_run = quiet_queue E Q view ok
  for E :: "'z env" and Q :: "'z world queue_iface" and view ok +
  fixes W :: "'z world workflow_engine"
  assumes engine: "we_Workflows W" "we_Jobs W" "we_Q W = Some Q"
    and ticks: "queue_keeps (\<lambda>w. n \<le> tick w) Q"
    and frames: "queue_keeps (\<lambda>w. I (db w)) Q"
begin

lemma schedule_quiet:
  assumes okw: "ok w" and f: "under_way U wid Ty (snd ` slots (view w)) (db w)"
    and x: "x \<in> set (tasks_table (db w))" "t_WorkflowID x = wid" "pending x"
    and ids: "ids_new E hi w" "tick w' \<le> hi" and run: "run_state (schedule_task U E W wid x) w = (u, w')"
  shows "\<exists>jid. ok w' \<and> ids_new E hi w' \<and> slots (view w') = insert (DefaultPriority, jid) (slots (view w)) \<and>
    under_way U wid Ty (snd ` slots (view w')) (db w') \<and>
    map task_shape (tasks_table (db w')) = map task_shape (tasks_table (db w)) \<and>
    workflows_table (db w') = workflows_table (db w) \<and>
    (\<forall>y \<in> set (tasks_table (db w)). t_ID y \<noteq> t_ID x \<longrightarrow> y \<in> set (tasks_table (db w'))) \<and>
    pending_ids wid (db w') = pending_ids wid (db w) - {t_ID x}"
proof -
  let ?req = "task_job_request U wid x" and ?n = "Suc (tick w)"
  let ?j = "created_job E ?n ?req" and ?d1 = "(db w)\<lparr>jobs_table := jobs_table (db w) @ [created_job E ?n ?req]\<rparr>"
  have key: "cj_IdempotencyKey ?req = Some (task_key U wid (t_Name x))" by (simp add: task_job_request_def)
  have fx: "task_fine U wid (db w) (snd ` slots (view w)) x" "t_Type x \<in> Ty"
    using f x by (auto simp: under_way_def)
  then have no: "\<forall>j \<in> set (jobs_table (db w)). j_IdempotencyKey j \<noteq> Some (task_key U wid (t_Name x))"
    using x(3) unfolding task_fine_def pending_def by (metis image_eqI task_status.distinct(1,3))
  note create = JobStore_Create_keyed [OF quiet task_request_ranges key no]
  obtain r w1 where w1: "run_state (JobStore_Create E ?req) w = (r, w1)" by (metis surj_pair)
  have "tick w1 \<le> tick w'"
  proof -
    have upd: "keeps (\<lambda>v. tick w1 \<le> tick v) (WorkflowStore_UpdateTask E tid st k e)" for tid st k e
      unfolding WorkflowStore_UpdateTask_def by (intro pres)
    let ?rest = "case r of Inl e \<Rightarrow> State_Monad.return () | Inr (job, created) \<Rightarrow> do {
            u \<leftarrow> WorkflowStore_UpdateTask E (t_ID x) WorkflowTaskStatusRunning (Some (j_ID job)) None;
            case u of
              Inl e \<Rightarrow> State_Monad.return ()
            | Inr _ \<Rightarrow>
                (case we_Q W of
                   None \<Rightarrow> State_Monad.return ()
                 | Some q \<Rightarrow>
                     if created then do {
                       _ \<leftarrow> q_Enqueue q (Some job);
                       State_Monad.return ()
                     }
                     else State_Monad.return ())
          }"
    have "keeps (\<lambda>v. tick w1 \<le> tick v) ?rest"
      by (intro pres upd queue_keepsD(1)) (auto simp: engine intro: ticks)
    moreover have "run_state ?rest w1 = (u, w')" using run w1 engine(2) by (simp add: schedule_task_def)
    ultimately show ?thesis by (auto dest: keepsD [where s = w1])
  qed
  then have n: "?n < hi" using create w1 ids(2) by simp
  then have new: "fresh E ?n 0 \<notin> insert uuid_Nil (j_ID ` set (jobs_table (db w)))"
    using ids(1) by (auto simp: ids_new_def)
  have j: "j_ID ?j = fresh E ?n 0" "runnable Ty ?j" "j_IdempotencyKey ?j = Some (task_key U wid (t_Name x))"
    "queue_name (j_Queue ?j) = ''default''" "queue_priority (j_Priority ?j) = DefaultPriority"
    using fx(2) by (simp_all add: created_job_def new_job_def task_job_request_def runnable_def claimable_def
        int4_def queue_name_def queue_priority_def default_defs)
  have run1: "run_state (JobStore_Create E ?req) w = (Inr (?j, True), w\<lparr>tick := tick w + 2, db := ?d1\<rparr>)"
    using create new by simp
  have "db_step (db w) ?d1"
  proof -
    have "db_step (db w) (snd (insert_job_stmt (fresh E ?n 0) (clock E ?n) (cj_Type ?req) (t_Payload x)
        DefaultPriority DefaultMaxAttempts (cj_IdempotencyKey ?req) DefaultQueue (db w)))"
      by (rule db_step.Insert) (simp_all add: default_defs)
    then show ?thesis
      using insert_created_job [OF task_request_ranges, of E ?n "db w" U wid x] new no
      by (simp add: task_job_request_def)
  qed
  then have ok1: "db_ok ?d1" using f db_ok_step by (auto simp: under_way_def)
  let ?now = "clock E (tick w + 2)"
  let ?upd = "update_task_stmt (t_ID x) WorkflowTaskStatusRunning (Some (j_ID ?j)) None ?now ?d1"
  have "j_ID ?j \<notin> j_ID ` set (jobs_table (db w))" using new j(1) by simp
  note d2 = under_way_schedule [OF f x this j(2,3) refl ok1 refl, of ?now]
  let ?w2 = "w\<lparr>tick := tick w + 3, db := snd ?upd\<rparr>"
  have ok2: "ok ?w2" "view ?w2 = view w" using ok_same_redis [OF okw, of ?w2] view_frame [of ?w2 w] by simp_all
  obtain e where e: "run_state (q_Enqueue Q (Some ?j)) ?w2 = (e, w')"
    using run run1 d2 engine by (auto simp: schedule_task_def run_UpdateTask [OF quiet] numeral_3_eq_3 split: prod.splits)
  have "j_ID ?j \<noteq> uuid_Nil" using new j(1) by auto
  from enqueue_quiet [OF this ok2(1) e] have q: "ok w'" "db w' = snd ?upd" "view w' = v_enqueue ?j (view w)"
    unfolding ok2(2) by simp_all
  have s: "slots (view w') = insert (DefaultPriority, j_ID ?j) (slots (view w))"
    using slots_enqueue [of ?j "view w"] j(4,5) by (simp add: q(3))
  have "tick w' = Suc (tick ?w2)" using enqueue [OF \<open>j_ID ?j \<noteq> uuid_Nil\<close> ok2(1) e] by (simp add: one_call_def)
  then have "ids_new E hi w'"
    by (intro ids_new_used [OF ids(1) _ _ n]) (use d2 q(2) j(1) in simp_all)
  then show ?thesis using d2 q s by (intro exI [of _ "j_ID ?j"]) auto
qed

text \<open>All the tasks a pass found ready.\<close>

lemma schedule_loop:
  assumes "ok w" and "under_way U wid Ty (snd ` slots (view w)) (db w)"
    and "set xs \<subseteq> {x \<in> set (tasks_table (db w)). t_WorkflowID x = wid \<and> pending x}" and "distinct (map t_ID xs)"
    and "finite (slots (view w))" and "ids_new E hi w" and "tick w' \<le> hi"
    and "run_state (for_each xs () (\<lambda>task _. schedule_task U E W wid task)) w = (u, w')"
  shows "ok w' \<and> ids_new E hi w' \<and> finite (slots (view w')) \<and>
    card (slots (view w')) \<le> card (slots (view w)) + length xs \<and>
    under_way U wid Ty (snd ` slots (view w')) (db w') \<and>
    map task_shape (tasks_table (db w')) = map task_shape (tasks_table (db w)) \<and>
    workflows_table (db w') = workflows_table (db w) \<and>
    pending_ids wid (db w') = pending_ids wid (db w) - t_ID ` set xs"
  using assms
proof (induction xs arbitrary: w)
  case (Cons x xs)
  obtain w1 where w1: "run_state (schedule_task U E W wid x) w = ((), w1)"
    by (metis old.unit.exhaust surj_pair)
  have rest: "run_state (for_each xs () (\<lambda>task _. schedule_task U E W wid task)) w1 = (u, w')"
    using Cons.prems(8) w1 by simp
  have "keeps (\<lambda>v. tick w1 \<le> tick v) (for_each xs () (\<lambda>task _. schedule_task U E W wid task))"
    by (intro pres keeps_tick_schedule) (auto simp: engine intro: ticks)
  then have t1: "tick w1 \<le> hi" using rest Cons.prems(7) by (auto dest: keepsD [where s = w1])
  have x: "x \<in> set (tasks_table (db w))" "t_WorkflowID x = wid" "pending x" using Cons.prems(3) by auto
  from schedule_quiet [OF Cons.prems(1,2) x Cons.prems(6) t1 w1] obtain jid where
    ok1: "ok w1" "ids_new E hi w1" and s1: "slots (view w1) = insert (DefaultPriority, jid) (slots (view w))"
    and u1: "under_way U wid Ty (snd ` slots (view w1)) (db w1)"
    and d1: "map task_shape (tasks_table (db w1)) = map task_shape (tasks_table (db w))"
      "workflows_table (db w1) = workflows_table (db w)"
      "\<forall>y \<in> set (tasks_table (db w)). t_ID y \<noteq> t_ID x \<longrightarrow> y \<in> set (tasks_table (db w1))"
      "pending_ids wid (db w1) = pending_ids wid (db w) - {t_ID x}" by blast
  have "y \<in> set (tasks_table (db w1)) \<and> t_WorkflowID y = wid \<and> pending y" if y: "y \<in> set xs" for y
  proof -
    have "t_ID y \<noteq> t_ID x" using Cons.prems(4) y by (metis distinct.simps(2) image_eqI list.map(2) set_map)
    then show ?thesis using Cons.prems(3) d1(3) y by auto
  qed
  then have "set xs \<subseteq> {x \<in> set (tasks_table (db w1)). t_WorkflowID x = wid \<and> pending x}" by blast
  moreover have "finite (slots (view w1))" "card (slots (view w1)) \<le> Suc (card (slots (view w)))"
    using Cons.prems(5) card_insert_le_m1 by (auto simp: s1 card_insert_if)
  ultimately show ?case
    using Cons.IH [OF ok1(1) u1 _ _ _ ok1(2) Cons.prems(7) rest] Cons.prems(4) d1 by auto
qed simp

lemma db_kept: "db_invariant db_ok E"
  by (rule db_invariantI [OF db_ok_step reliable_others [OF quiet]])

lemma advance_quiet:
  assumes okw: "ok w" and empty: "slots (view w) = {}" and f: "under_way U wid Ty {} (db w)"
    and row: "row_of wf_ID wid (workflows_table (db w)) = Some wflow" and some: "tasks_of wid (db w) \<noteq> []"
    and ids: "ids_new E hi w" "tick w' \<le> hi" and active: "\<not> WorkflowStatus_IsTerminal (wf_Status wflow)"
    and run: "run_state (AdvanceWorkflow U E W wid) w = (r, w')"
  shows "ok w' \<and> ids_new E hi w' \<and> finite (slots (view w')) \<and> card (slots (view w')) \<le> length (tasks_of wid (db w)) \<and>
    under_way U wid Ty (snd ` slots (view w')) (db w') \<and>
    map task_shape (tasks_table (db w')) = map task_shape (tasks_table (db w)) \<and>
    (if pending_ids wid (db w) = {}
     then pending_ids wid (db w') = {} \<and> (\<forall>t \<in> set (tasks_of wid (db w')). on_course t) \<and>
       (\<exists>now. row_of wf_ID wid (workflows_table (db w')) = Some (set_workflow WorkflowStatusSucceeded None now wflow))
     else workflows_table (db w') = workflows_table (db w) \<and> pending_ids wid (db w') \<subset> pending_ids wid (db w))"
proof -
  let ?w0 = "w\<lparr>tick := Suc (Suc (tick w))\<rparr>"
  have ok: "db_ok (db w)" using f by (simp add: under_way_def)
  then have wfs: "distinct (map wf_ID (workflows_table (db w)))" by (simp add: db_ok_def)
  have "\<forall>t \<in> set (tasks_of wid (db ?w0)). resolved (db ?w0) t"
    using f by (auto simp: under_way_def tasks_of_def task_fine_def resolved_def on_course_def pending_def)
  from inspect_outcome [OF quiet engine(2) _ this] ok obtain seen w1 where
    w1: "run_state (inspect_tasks E W (tasks_of wid (db w))) ?w0 = ((seen, None, pending_ids wid (db w) = {}), w1)"
    and seen: "length seen = length (tasks_of wid (db w))" and insp: "inspecting wid (db w) [] (db w1)"
    and rd: "rds w1 = rds w" by auto
  have ne: "seen \<noteq> []" using seen some by auto
  have ok1: "db_ok (db w1)"
    using keepsD [OF db_invariant.keeps_inspect_tasks [OF db_kept, where W = W and ts = "tasks_of wid (db w)"], of ?w0]
      w1 ok by simp
  have "tick w \<le> tick w1" using keepsD [OF keeps_tick_inspect [where E = E and W = W and ts = "tasks_of wid (db w)"], of "tick w" ?w0] w1 by simp
  then have ids1: "ids_new E hi w1"
    using ids_new_later [OF ids(1)] insp by (simp add: inspecting_def)
  from under_way_inspected [OF f insp ok1] have f1: "under_way U wid Ty {} (db w1)"
    "pending_ids wid (db w1) = pending_ids wid (db w)" "\<forall>t \<in> set (tasks_of wid (db w1)). on_course t" by simp_all
  have shape: "map task_shape (tasks_table (db w1)) = map task_shape (tasks_table (db w))"
    "workflows_table (db w1) = workflows_table (db w)" using insp by (simp_all add: inspecting_def)
  have same: "ok v" "view v = view w" if "rds v = rds w" for v
    using ok_same_redis [OF okw that] view_frame [OF that] by simp_all
  note get = run_WorkflowStore_Get [OF quiet wfs row]
  show ?thesis
  proof (cases "pending_ids wid (db w) = {}")
    case True
    let ?d = "(db w1)\<lparr>workflows_table := update_where (\<lambda>f. wf_ID f = wid)
       (set_workflow WorkflowStatusSucceeded None (clock E (tick w1))) (workflows_table (db w1))\<rparr>"
    have w': "w' = w1\<lparr>tick := Suc (tick w1), db := ?d\<rparr>"
      using run True ne active engine(1)
      by (auto simp: AdvanceWorkflow_def get w1 run_UpdateStatus [OF quiet])
    have "db_ok ?d"
      using db_ok_step [OF db_step.UpdateWorkflow ok1] by (simp add: update_workflow_stmt_def)
    then have "under_way U wid Ty {} ?d"
      using f1(1) by (simp add: under_way_def job_fine_def task_fine_def job_done_def)
    moreover have "ids_new E hi w'" by (rule ids_new_later [OF ids1]) (simp_all add: w')
    ultimately show ?thesis
      using same [of w'] True f1 shape rd empty workflow_row_update [of wid "workflows_table (db w1)"] row
      by (simp add: w' pending_ids_def tasks_of_def) blast
  next
    case False
    let ?w2 = "w1\<lparr>tick := Suc (tick w1)\<rparr>"
    have loop: "run_state (for_each (ready_list wid (db w1)) () (\<lambda>task _. schedule_task U E W wid task)) ?w2 = ((), w')"
      using run False active engine(1)
      by (auto simp: AdvanceWorkflow_def get w1 WorkflowStore_GetReadyTasks_def run_pg_reliable [OF quiet]
          ready_list_def split: prod.splits)
    have s2: "ok ?w2" "slots (view ?w2) = {}" using same [of ?w2] rd empty by simp_all
    have i2: "ids_new E hi ?w2" by (rule ids_new_later [OF ids1]) simp_all
    note rl = ready_list [OF ok1 f1(3)]
    from schedule_loop [OF s2(1) _ _ rl(2) _ i2 ids(2) loop] s2(2) f1 rl
    show ?thesis using False shape shape_length [OF shape(1), of wid] by auto
  qed
qed

lemma workers_quiet:
  assumes "ok w" and "under_way U wid Ty (snd ` slots (view w)) (db w)" and "\<forall>K \<in> set Ks. serves Q Ty K"
    and "finite (slots (view w))" and "card (slots (view w)) \<le> length Ks" and "ids_new E hi w"
    and "run_state (worker_round E Ks) w = (u, w')"
  shows "ok w' \<and> slots (view w') = {} \<and> under_way U wid Ty {} (db w') \<and> ids_new E hi w' \<and>
    tasks_table (db w') = tasks_table (db w) \<and> workflows_table (db w') = workflows_table (db w)"
proof -
  have "distinct (map j_ID (jobs_table (db w)))" "\<forall>(p, u) \<in> slots (view w). job_fine Ty (db w) u"
    using assms(2) by (auto simp: under_way_def db_ok_def jobs_ok_def)
  from worker_round_quiet [OF assms(1) this assms(3-5,7)]
  have w': "ok w'" "jobs_on Ty (db w) (db w')" "slots (view w') = {}" "\<forall>u \<in> snd ` slots (view w). job_done (db w') u"
    by auto
  from worker_round_frame [OF quiet ticks _ assms(3,7)] frames [where I = "\<lambda>d. tasks_table d = ts \<and> workflows_table d = fs" for ts fs]
  have fr: "tick w \<le> tick w'" "tasks_table (db w') = tasks_table (db w)" "workflows_table (db w') = workflows_table (db w)"
    by simp_all
  have "keeps (\<lambda>w. db_ok (db w)) (worker_round E Ks)"
    unfolding worker_round_def using assms(3) frames [where I = db_ok]
    by (intro pres db_invariant.keeps_worker_loops(1) [OF db_kept]) (auto simp: serves_def)
  then have "db_ok (db w')" using assms(2,7) by (auto simp: under_way_def dest: keepsD [where s = w])
  from under_way_worked [OF assms(2) w'(2) fr(2) this w'(4)]
  have "under_way U wid Ty {} (db w')" .
  moreover have "j_ID ` set (jobs_table (db w')) = j_ID ` set (jobs_table (db w))"
    using w'(2) unfolding jobs_on_def by (metis set_map)
  then have "ids_new E hi w'" by (rule ids_new_later [OF assms(6) fr(1)])
  ultimately show ?thesis using w' fr by simp
qed

lemma round_quiet:
  assumes "ok w" and "slots (view w) = {}" and "under_way U wid Ty {} (db w)"
    and row: "row_of wf_ID wid (workflows_table (db w)) = Some wflow" and "tasks_of wid (db w) \<noteq> []"
    and "ids_new E hi w" and hi: "tick w' \<le> hi" and "\<not> WorkflowStatus_IsTerminal (wf_Status wflow)"
    and Ks: "\<forall>K \<in> set Ks. serves Q Ty K" "length (tasks_of wid (db w)) \<le> length Ks"
    and run: "run_state (workflow_round U E W wid Ks) w = (u, w')"
  shows "ok w' \<and> slots (view w') = {} \<and> under_way U wid Ty {} (db w') \<and> ids_new E hi w' \<and>
    length (tasks_of wid (db w')) = length (tasks_of wid (db w)) \<and>
    (completed wid (db w') \<or>
     row_of wf_ID wid (workflows_table (db w')) = Some wflow \<and> pending_ids wid (db w') \<subset> pending_ids wid (db w))"
proof -
  obtain r w1 where w1: "run_state (AdvanceWorkflow U E W wid) w = (r, w1)" by (metis surj_pair)
  have rest: "run_state (worker_round E Ks) w1 = (u, w')" using run w1 by (simp add: workflow_round_def)
  have "tick w1 \<le> hi"
    using worker_round_frame [OF quiet ticks _ Ks(1) rest] hi
      frames [where I = "\<lambda>d. tasks_table d = ts \<and> workflows_table d = fs" for ts fs] by simp
  note adv = advance_quiet [OF assms(1-6) this assms(8) w1]
  have a: "ok w1" "under_way U wid Ty (snd ` slots (view w1)) (db w1)" "finite (slots (view w1))"
    "card (slots (view w1)) \<le> length Ks" "ids_new E hi w1" using adv Ks(2) by simp_all
  from workers_quiet [OF a(1,2) Ks(1) a(3-5) rest]
  have w': "ok w'" "slots (view w') = {}" "under_way U wid Ty {} (db w')" "ids_new E hi w'"
    "tasks_table (db w') = tasks_table (db w1)" "workflows_table (db w') = workflows_table (db w1)" by simp_all
  have same: "tasks_of wid (db w') = tasks_of wid (db w1)" "pending_ids wid (db w') = pending_ids wid (db w1)"
    using w'(5) by (simp_all add: tasks_of_def pending_ids_def)
  have len: "length (tasks_of wid (db w')) = length (tasks_of wid (db w))"
    using shape_length [of "db w1" "db w" wid] adv by (simp only: same(1))
  have fin: "if pending_ids wid (db w) = {}
     then pending_ids wid (db w1) = {} \<and> (\<forall>t \<in> set (tasks_of wid (db w1)). on_course t) \<and>
       (\<exists>now. row_of wf_ID wid (workflows_table (db w1)) = Some (set_workflow WorkflowStatusSucceeded None now wflow))
     else workflows_table (db w1) = workflows_table (db w) \<and> pending_ids wid (db w1) \<subset> pending_ids wid (db w)"
    using adv by blast
  show ?thesis
  proof (cases "pending_ids wid (db w) = {}")
    case True
    then have "completed wid (db w')"
      using fin on_course_completed [of wid "db w'"] same w'(6) by auto
    then show ?thesis using w' len by simp
  next
    case False
    then show ?thesis using w' same fin len row by simp
  qed
qed

text \<open>A completed workflow stays as it is.\<close>

lemma round_completed:
  assumes "ok w" and "slots (view w) = {}" and ok: "db_ok (db w)" and over: "completed wid (db w)"
    and Ks: "\<forall>K \<in> set Ks. serves Q Ty K" and run: "run_state (workflow_round U E W wid Ks) w = (u, w')"
  shows "ok w' \<and> slots (view w') = {} \<and> db_ok (db w') \<and> completed wid (db w')"
proof -
  obtain f where f: "row_of wf_ID wid (workflows_table (db w)) = Some f" "WorkflowStatus_IsTerminal (wf_Status f)"
    using over by (auto simp: completed_def WorkflowStatus_IsTerminal_def)
  have "distinct (map wf_ID (workflows_table (db w)))" using ok by (simp add: db_ok_def)
  note get = run_WorkflowStore_Get [OF quiet this f(1)]
  let ?w1 = "w\<lparr>tick := Suc (Suc (tick w))\<rparr>"
  have rest: "run_state (worker_round E Ks) ?w1 = (u, w')"
    using run f(2) engine(1) by (simp add: workflow_round_def AdvanceWorkflow_def get)
  have v: "ok ?w1" "slots (view ?w1) = {}"
    using ok_same_redis [OF assms(1), of ?w1] view_frame [of ?w1 w] assms(2) by simp_all
  have "distinct (map j_ID (jobs_table (db ?w1)))" using ok by (simp add: db_ok_def jobs_ok_def)
  from worker_round_quiet [OF v(1) this _ Ks _ _ rest] v(2)
  have w': "ok w'" "slots (view w') = {}" by auto
  from worker_round_frame [OF quiet ticks _ Ks rest]
    frames [where I = "\<lambda>d. tasks_table d = ts \<and> workflows_table d = fs" for ts fs]
  have "completed wid (db w')" using over by (simp add: completed_def tasks_of_def)
  moreover have "keeps (\<lambda>w. db_ok (db w)) (worker_round E Ks)"
    unfolding worker_round_def using Ks frames [where I = db_ok]
    by (intro pres db_invariant.keeps_worker_loops(1) [OF db_kept]) (auto simp: serves_def)
  ultimately show ?thesis using w' rest ok by (auto dest: keepsD [where s = ?w1])
qed

lemma keeps_tick_round:
  "\<forall>K \<in> set Ks. serves Q Ty K \<Longrightarrow> keeps (\<lambda>w. n \<le> tick w) (workflow_round U E W wid Ks)"
  unfolding workflow_round_def worker_round_def
  by (intro pres keeps_tick_advance keeps_tick_claim) (auto simp: engine serves_def intro: ticks)

lemma rounds_completed:
  assumes "ok w" and "slots (view w) = {}" and "db_ok (db w)" and "completed wid (db w)"
    and Ks: "\<forall>K \<in> set Ks. serves Q Ty K"
    and "run_state (for_each ks () (\<lambda>_ _. workflow_round U E W wid Ks)) w = (u, w')"
  shows "completed wid (db w')"
  using assms(1-4,6)
proof (induction ks arbitrary: w)
  case (Cons k ks)
  obtain w1 where w1: "run_state (workflow_round U E W wid Ks) w = ((), w1)" by (metis old.unit.exhaust surj_pair)
  from round_completed [OF Cons.prems(1-4) Ks w1] Cons.IH [of w1] Cons.prems(5) w1 show ?case by simp
qed simp

lemma rounds_quiet:
  assumes "ok w" and "slots (view w) = {}" and "under_way U wid Ty {} (db w)"
    and "row_of wf_ID wid (workflows_table (db w)) = Some wflow" and "\<not> WorkflowStatus_IsTerminal (wf_Status wflow)"
    and "tasks_of wid (db w) \<noteq> []" and "length (tasks_of wid (db w)) \<le> length Ks"
    and "ids_new E hi w" and "tick w' \<le> hi" and Ks: "\<forall>K \<in> set Ks. serves Q Ty K"
    and "card (pending_ids wid (db w)) < length ks"
    and "run_state (for_each ks () (\<lambda>_ _. workflow_round U E W wid Ks)) w = (u, w')"
  shows "completed wid (db w')"
  using assms(1-9,11-12)
proof (induction ks arbitrary: w)
  case (Cons k ks)
  obtain w1 where w1: "run_state (workflow_round U E W wid Ks) w = ((), w1)" by (metis old.unit.exhaust surj_pair)
  have rest: "run_state (for_each ks () (\<lambda>_ _. workflow_round U E W wid Ks)) w1 = (u, w')"
    using Cons.prems(11) w1 by simp
  have "keeps (\<lambda>w. tick w1 \<le> tick w) (for_each ks () (\<lambda>_ _. workflow_round U E W wid Ks))"
    by (intro pres keeps_tick_round [OF Ks])
  then have "tick w1 \<le> hi" using rest Cons.prems(9) by (auto dest: keepsD [where s = w1])
  note r = round_quiet [OF Cons.prems(1-4,6,8) this Cons.prems(5) Ks Cons.prems(7) w1]
  show ?case
  proof (cases "completed wid (db w1)")
    case True
    then show ?thesis using rounds_completed [OF _ _ _ True Ks rest] r by (simp add: under_way_def)
  next
    case False
    have "finite (pending_ids wid (db w))" by (simp add: pending_ids_def)
    moreover have n: "ok w1" "slots (view w1) = {}" "under_way U wid Ty {} (db w1)" "ids_new E hi w1"
      "length (tasks_of wid (db w1)) = length (tasks_of wid (db w))"
      "row_of wf_ID wid (workflows_table (db w1)) = Some wflow" "pending_ids wid (db w1) \<subset> pending_ids wid (db w)"
      using r False by blast+
    ultimately have "card (pending_ids wid (db w1)) < card (pending_ids wid (db w))"
      by (intro psubset_card_mono)
    then have c: "card (pending_ids wid (db w1)) < length ks" using Cons.prems(10) by simp
    have t: "tasks_of wid (db w1) \<noteq> []" "length (tasks_of wid (db w1)) \<le> length Ks"
      using n(5) Cons.prems(6,7) by auto
    show ?thesis by (rule Cons.IH [OF n(1-3,6) Cons.prems(5) t n(4) Cons.prems(9) c rest])
  qed
qed simp

end

lemma redis_workflow_run:
  assumes "redis_server R V" and "reliable E" and "we_Workflows W" and "we_Jobs W"
    and "we_Q W = Some (RedisQueue R V E)"
  shows "workflow_run E (RedisQueue R V E) (redis_view R V) (canonical_world R V) W"
  using quiet_redis_queue [OF assms(1,2)] queue_keeps_tick queue_keeps_RedisQueue [OF rely_reliable [OF assms(2)]]
    assms(3-5) by (intro workflow_run.intro workflow_run_axioms.intro) simp_all

definition flow_engine :: "zlist world workflow_engine" where
  "flow_engine = NewWorkflowEngine True True (Some (RedisQueue zlist_ops hex_uuid_ops quiet_env))"

lemma flow_engine_parts:
  "we_Workflows flow_engine" "we_Jobs flow_engine"
  "we_Q flow_engine = Some (RedisQueue zlist_ops hex_uuid_ops quiet_env)"
  by (simp_all add: flow_engine_def NewWorkflowEngine_def)

interpretation zw: workflow_run quiet_env "RedisQueue zlist_ops hex_uuid_ops quiet_env"
  "redis_view zlist_ops hex_uuid_ops" "canonical_world zlist_ops hex_uuid_ops" flow_engine
  by (rule redis_workflow_run) (simp_all add: flow_engine_parts zl_hex.redis_server_axioms)

end
