(* ===== verification/Flow_Calls.thy ===== *)
theory Flow_Calls
  imports Flow_Run
begin

text \<open>
  Upper bounds on the number of calls that a pass of the engine, a turn of the workers and several
  rounds of both make.
\<close>

section \<open>How many calls it takes\<close>

definition calls_le :: "nat \<Rightarrow> ('z world, 'a) state \<Rightarrow> bool" where
  "calls_le n m \<longleftrightarrow> (\<forall>w. tick (snd (run_state m w)) \<le> tick w + n)"

lemma calls_leD: "calls_le n m \<Longrightarrow> run_state m w = (a, w') \<Longrightarrow> tick w' \<le> tick w + n"
  unfolding calls_le_def by (metis snd_conv)

lemma calls_mono: "calls_le k m \<Longrightarrow> k \<le> n \<Longrightarrow> calls_le n m"
  unfolding calls_le_def by (meson add_left_mono le_trans)

lemma calls_prim:
  "calls_le 0 (State_Monad.return x)" "calls_le 1 (pg E f)" "calls_le 1 (rcmd E g)" "calls_le 0 (emit cs)"
  "calls_le 1 (time_Now E)" "calls_le 1 (rand_Float64 E)" "calls_le 1 (exec_handler h p)"
  by (simp_all add: calls_le_def pg_def rcmd_def call_def time_Now_def rand_Float64_def exec_handler_def
      split: outcome.split prod.split)

lemma calls_bind:
  assumes "calls_le a m" and "\<And>x. calls_le b (f x)"
  shows "calls_le (a + b) (State_Monad.bind m f)"
proof -
  have "tick (snd (run_state (State_Monad.bind m f) w)) \<le> tick w + (a + b)" for w
  proof -
    obtain x w1 where w1: "run_state m w = (x, w1)" by (metis surj_pair)
    have "tick (snd (run_state (f x) w1)) \<le> tick w1 + b" using assms(2) by (simp add: calls_le_def)
    then show ?thesis using calls_leD [OF assms(1) w1] w1 by simp
  qed
  then show ?thesis by (simp add: calls_le_def)
qed

lemma calls_if: "calls_le a m \<Longrightarrow> calls_le b n \<Longrightarrow> calls_le (max a b) (if c then m else n)"
  by (auto intro: calls_mono [OF _ max.cobounded1] calls_mono [OF _ max.cobounded2])

lemma calls_sum:
  "(\<And>e. calls_le a (f e)) \<Longrightarrow> (\<And>v. calls_le b (g v)) \<Longrightarrow> calls_le (max a b) (case x of Inl e \<Rightarrow> f e | Inr v \<Rightarrow> g v)"
  by (cases x) (auto intro: calls_mono [OF _ max.cobounded1] calls_mono [OF _ max.cobounded2])

lemma calls_option:
  "calls_le a m \<Longrightarrow> (\<And>v. calls_le b (f v)) \<Longrightarrow> calls_le (max a b) (case x of None \<Rightarrow> m | Some v \<Rightarrow> f v)"
  by (cases x) (auto intro: calls_mono [OF _ max.cobounded1] calls_mono [OF _ max.cobounded2])

lemma calls_prod: "(\<And>a b. calls_le n (f a b)) \<Longrightarrow> calls_le n (case x of (a, b) \<Rightarrow> f a b)"
  by (cases x) simp

lemma calls_for_each:
  assumes "\<And>x acc. calls_le c (body x acc)"
  shows "calls_le (length xs * c) (for_each xs acc body)"
proof (induction xs arbitrary: acc)
  case (Cons x xs)
  then have "calls_le (c + length xs * c) (body x acc \<bind> (\<lambda>acc'. for_each xs acc' body))"
    by (intro calls_bind assms)
  then show ?case by simp
qed (simp add: calls_prim)

lemmas calls_rules = calls_prim calls_bind calls_if calls_sum calls_option calls_prod

lemma calls_queue:
  "calls_le 1 (q_Enqueue (RedisQueue R V E) j)" "calls_le 1 (q_Claim (RedisQueue R V E) wid n vt)"
  "calls_le 1 (q_Ack (RedisQueue R V E) n u)"
  unfolding RedisQueue_def queue_iface.simps RedisQueue_Enqueue_def RedisQueue_Claim_def
    RedisQueue_ClaimWithWeights_def RedisQueue_Ack_def Let_def
  by (rule calls_mono, (rule calls_rules)+, simp)+

lemma calls_claim_and_process:
  assumes "wk_Q K = RedisQueue R V E"
  shows "calls_le 10 (claim_and_process E K)"
  unfolding claim_and_process_def attempt_defs when_workers_def Let_def assms
  by (rule calls_mono, (rule calls_rules calls_queue)+, simp)

lemma calls_worker_round:
  assumes "\<forall>K \<in> set Ks. wk_Q K = RedisQueue R V E"
  shows "calls_le (length Ks * 10) (worker_round E Ks)"
  using assms
proof (induction Ks)
  case (Cons K Ks)
  have "calls_le (10 + (0 + length Ks * 10)) (worker_round E (K # Ks))"
    using Cons unfolding worker_round_def for_each.simps bind_assoc
    by (intro calls_bind calls_claim_and_process [where R = R and V = V] calls_prim) simp_all
  then show ?case by simp
qed (simp add: worker_round_def calls_prim)

lemma calls_inspect_task: "calls_le 2 (inspect_task E W t)"
  unfolding inspect_task_def JobStore_Get_def WorkflowStore_UpdateTask_def
  by (rule calls_mono, (rule calls_rules)+, simp)

lemma calls_inspect_tasks: "calls_le (length xs * 2) (inspect_tasks E W xs)"
  unfolding inspect_tasks_def
  by (rule calls_for_each, (rule calls_rules)+, rule calls_mono [OF calls_bind [OF calls_inspect_task calls_prim(1)]]) simp

lemma inspect_length:
  assumes "run_state (inspect_tasks E W xs) w = ((seen, failedTask, succ), w')"
  shows "length seen = length xs"
proof -
  have "valid (\<lambda>_. length (fst acc) + length xs = n) (for_each xs acc (\<lambda>task0 (seen, failedTask, allSucceeded). do {
       task \<leftarrow> inspect_task E W task0;
       State_Monad.return
         (if t_Status task = WorkflowTaskStatusFailed then (seen @ [task], Some task, False)
          else if t_Status task \<noteq> WorkflowTaskStatusSucceeded then (seen @ [task], failedTask, False)
          else (seen @ [task], failedTask, allSucceeded))
     })) (\<lambda>a _. length (fst a) + length ([] :: workflow_task list) = n)" for n acc
    by (rule valid_for_each [where I = "\<lambda>xs a _. length (fst a) + length xs = n"])
      (auto simp: valid_def split: prod.splits)
  from validD [OF this assms [unfolded inspect_tasks_def], of "length xs"] show ?thesis by simp
qed

lemma calls_schedule_task:
  assumes "we_Q W = Some (RedisQueue R V E)"
  shows "calls_le 5 (schedule_task U E W wid t)"
  unfolding schedule_task_def JobStore_Create_def findByIdempotencyKey_def WorkflowStore_UpdateTask_def Let_def assms
    option.case
  by (rule calls_mono, (rule calls_rules calls_queue)+, simp)

lemma calls_fail_workflow: "calls_le (1 + length ts) (fail_workflow E wid t ts)"
proof -
  have "calls_le (length ts * 1) (for_each ts () (cancel_pending E))"
    by (rule calls_for_each) (unfold cancel_pending_def WorkflowStore_UpdateTask_def,
      rule calls_mono, (rule calls_rules)+, simp)
  then have "calls_le (1 + length ts * 1) (fail_workflow E wid t ts)"
    unfolding fail_workflow_def WorkflowStore_UpdateStatus_def cancel_pending_def [abs_def]
    by (intro calls_bind calls_prim)
  then show ?thesis by simp
qed

lemma keeps_task_count:
  assumes "reliable E" and "we_Q W = Some (RedisQueue R V E)"
  shows "keeps (\<lambda>w. length (tasks_table (db w)) = N) (inspect_tasks E W xs)"
    and "keeps (\<lambda>w. length (tasks_table (db w)) = N) (AdvanceWorkflow U E W wid)"
proof -
  let ?I = "\<lambda>d. length (tasks_table d) = N"
  note rely = rely_reliable [OF assms(1), of ?I]
  have q: "keeps (\<lambda>w. ?I (db w)) (q_Enqueue q j)" if "we_Q W = Some q" for q j
    using queue_keepsD(1) [OF queue_keeps_RedisQueue [where I = ?I, OF rely]] that assms(2) by auto
  show "keeps (\<lambda>w. ?I (db w)) (inspect_tasks E W xs)"
    unfolding advance_defs Let_def
    by (intro pres keeps_pg [where I = ?I, OF rely]) (auto simp: update_task_stmt_def)
  show "keeps (\<lambda>w. ?I (db w)) (AdvanceWorkflow U E W wid)"
    unfolding advance_defs Let_def
    by (intro pres q keeps_pg [where I = ?I, OF rely])
      (auto simp: update_task_stmt_def update_workflow_stmt_def insert_job_stmt_def Let_def)
qed

lemma run_Get_any:
  assumes "reliable E" and "run_state (WorkflowStore_Get E wid) w = (r, w')"
  shows "db w' = db w \<and> tick w' \<le> tick w + 2 \<and> (\<forall>f ts. r = Inr (Some (f, ts)) \<longrightarrow> ts = tasks_of wid (db w))"
  using assms(2)
  by (auto simp: WorkflowStore_Get_def WorkflowStore_GetTasksByWorkflowID_def run_pg_reliable [OF assms(1)]
      split: sum.splits option.splits)

lemma advance_calls:
  assumes E: "reliable E" and Q: "we_Q W = Some (RedisQueue R V E)"
    and run: "run_state (AdvanceWorkflow U E W wid) w = (r, w')"
  shows "tick w' \<le> tick w + (3 + 7 * length (tasks_table (db w)))"
proof (cases "we_Workflows W")
  case True
  let ?N = "length (tasks_table (db w))"
  obtain g w1 where g: "run_state (WorkflowStore_Get E wid) w = (g, w1)" by (metis surj_pair)
  note g1 = run_Get_any [OF E g]
  have small: "length (tasks_of wid (db w)) \<le> ?N" by (simp add: tasks_of_def)
  show ?thesis
  proof (cases "\<exists>f ts. g = Inr (Some (f, ts)) \<and> \<not> WorkflowStatus_IsTerminal (wf_Status f)")
    case False
    then have "w' = w1" using run True g
      by (auto simp: AdvanceWorkflow_def split: sum.splits option.splits prod.splits)
    then show ?thesis using g1 by simp
  next
    case active: True
    then obtain f where f: "g = Inr (Some (f, tasks_of wid (db w)))" "\<not> WorkflowStatus_IsTerminal (wf_Status f)"
      using g1 by blast
    obtain seen failedTask succ w2 where w2: "run_state (inspect_tasks E W (tasks_of wid (db w))) w1 =
        ((seen, failedTask, succ), w2)" by (metis surj_pair)
    have t2: "tick w2 \<le> tick w1 + 2 * ?N" using calls_leD [OF calls_inspect_tasks w2] small by simp
    have len: "length (tasks_table (db w2)) = ?N"
      using keepsD [OF keeps_task_count(1) [OF E Q, where N = ?N and xs = "tasks_of wid (db w)"], of w1] w2 g1 by simp
    have seen: "length seen = length (tasks_of wid (db w))"
      by (rule inspect_length [OF w2])
    show ?thesis
    proof (cases "failedTask = None \<and> \<not> (succ \<and> seen \<noteq> [])")
      case True
      let ?rdy = "ready_list wid (db w2)"
      obtain u where u: "run_state (for_each ?rdy () (\<lambda>task _. schedule_task U E W wid task))
          (w2\<lparr>tick := Suc (tick w2)\<rparr>) = (u, w')"
        using run True g f w2 \<open>we_Workflows W\<close> by (auto simp: AdvanceWorkflow_def WorkflowStore_GetReadyTasks_def
            run_pg_reliable [OF E] ready_list_def split: prod.splits)
      have "length ?rdy \<le> ?N" using length_filter_le [of "ready_task (db w2) wid"] by (simp add: ready_list_def flip: len)
      then show ?thesis
        using calls_leD [OF calls_for_each [OF calls_schedule_task [OF Q]] u] t2 g1 by simp
    next
      case False
      have upd: "calls_le 1 (WorkflowStore_UpdateStatus E wid st e)" for st e
        unfolding WorkflowStore_UpdateStatus_def by (rule calls_prim)
      obtain u where "(\<exists>t. run_state (fail_workflow E wid t seen) w2 = (u, w')) \<or>
          (\<exists>x. run_state (WorkflowStore_UpdateStatus E wid WorkflowStatusSucceeded None) w2 = (x, w'))"
        using run False g f w2 \<open>we_Workflows W\<close>
        by (auto simp: AdvanceWorkflow_def split: prod.splits option.splits)
      then have "tick w' \<le> tick w2 + (1 + ?N)"
        using calls_leD [OF calls_fail_workflow] calls_leD [OF upd] seen small by fastforce
      then show ?thesis using t2 g1 by simp
    qed
  qed
qed (use run in \<open>simp add: AdvanceWorkflow_def\<close>)

lemma rounds_calls:
  assumes E: "reliable E" and Q: "we_Q W = Some (RedisQueue R V E)" and Ks: "\<forall>K \<in> set Ks. wk_Q K = RedisQueue R V E"
  assumes "run_state (workflow_rounds U E W wid Ks k) w = (u, w')"
  shows "tick w' \<le> tick w + k * (3 + 7 * length (tasks_table (db w)) + 10 * length Ks)"
proof -
  let ?c = "3 + 7 * length (tasks_table (db w)) + 10 * length Ks"
  have "tick v' \<le> tick v + length ks * ?c"
    if "run_state (for_each ks () (\<lambda>_ _. workflow_round U E W wid Ks)) v = (x, v')"
      "length (tasks_table (db v)) = length (tasks_table (db w))" for ks v x v'
    using that
  proof (induction ks arbitrary: v)
    case (Cons i ks)
    obtain r v1 where r: "run_state (AdvanceWorkflow U E W wid) v = (r, v1)" by (metis surj_pair)
    obtain y v2 where y: "run_state (worker_round E Ks) v1 = (y, v2)" by (metis surj_pair)
    have "length (tasks_table (db v1)) = length (tasks_table (db w))"
      using keepsD [OF keeps_task_count(2) [OF E Q, where U = U and wid = wid and N = "length (tasks_table (db w))"], of v]
        r Cons.prems(2) by simp
    moreover have "keeps (\<lambda>w. tasks_table (db w) = tasks_table (db v1) \<and> workflows_table (db w) = workflows_table (db v1))
        (worker_round E Ks)"
      unfolding worker_round_def using Ks queue_keeps_RedisQueue [OF rely_reliable [OF E]]
      by (intro pres keeps_flows_claim [OF E]) auto
    then have "tasks_table (db v2) = tasks_table (db v1)" using y by (auto dest: keepsD [where s = v1])
    ultimately have "tick v' \<le> tick v2 + length ks * ?c"
      using Cons.IH [of v2] Cons.prems(1) r y by (simp add: workflow_round_def)
    moreover have "tick v2 \<le> tick v1 + length Ks * 10" by (rule calls_leD [OF calls_worker_round [OF Ks] y])
    moreover have "tick v1 \<le> tick v + (3 + 7 * length (tasks_table (db w)))"
      using advance_calls [OF E Q r] Cons.prems(2) by simp
    ultimately show ?case by (simp add: algebra_simps)
  qed simp
  from this [of "[0..<k]" w u w'] assms(4) show ?thesis by (simp add: workflow_rounds_def)
qed

end
