(* ===== verification/Flow_Props.thy ===== *)
theory Flow_Props
  imports Flow_Calls
begin

text \<open>
  Workflows end well: from any sound database with a PENDING workflow, and from the request that
  submits it.
\<close>

section \<open>A stored workflow\<close>

lemma ids_new_shorter: "ids_new E hi w \<Longrightarrow> hi' \<le> hi \<Longrightarrow> ids_new E hi' w"
  by (auto simp: ids_new_def intro: inj_on_subset)

text \<open>The calls of \<open>k\<close> rounds with \<open>m\<close> workers over a table of \<open>n\<close> tasks.\<close>

definition rounds_cost :: "nat \<Rightarrow> nat \<Rightarrow> nat \<Rightarrow> nat" where
  "rounds_cost k n m = k * (3 + 7 * n + 10 * m)"

lemma pending_count: "card (pending_ids wid d) \<le> length (tasks_of wid d)"
proof -
  have "pending_ids wid d = set (map t_ID (filter pending (tasks_of wid d)))"
    by (auto simp: pending_ids_tasks)
  then have "card (pending_ids wid d) \<le> length (filter pending (tasks_of wid d))"
    using card_length [of "map t_ID (filter pending (tasks_of wid d))"] by simp
  also have "\<dots> \<le> length (tasks_of wid d)" by (rule length_filter_le)
  finally show ?thesis .
qed


definition obliging_worker :: "zlist world worker_proc" where
  "obliging_worker = demo_worker\<lparr>wk_Handlers := (\<lambda>ty. Some (\<lambda>payload n. None))\<rparr>"

lemma obliging_serves:
  "serves (RedisQueue zlist_ops hex_uuid_ops quiet_env) Ty obliging_worker"
  by (simp add: serves_def obliging_worker_def demo_worker_def RegisterHandler_def NewWorker_def SetQueueName_def
      queue_name_def DefaultQueue_def)

lemma unat_uuid: "m < 2 ^ 64 \<Longrightarrow> unat (word_of_nat m :: uuid) = m"
  by (simp add: unsigned_of_nat take_bit_nat_eq_self)

lemma quiet_ids_new:
  assumes "jobs_table (db w) = []" and "hi \<le> 10000"
  shows "ids_new (quiet_env :: zlist env) hi w"
proof -
  have f: "unat (fresh (quiet_env :: zlist env) n 0) = Suc n * 1024" if "n < hi" for n
  proof -
    have "Suc n * 1024 < 2 ^ 64" using that assms(2) by simp
    then show ?thesis unfolding quiet_env_def env.simps add_0_right by (rule unat_uuid)
  qed
  have "inj_on (\<lambda>n. fresh (quiet_env :: zlist env) n 0) {tick w..<hi}"
  proof (rule inj_onI)
    fix m n
    assume "m \<in> {tick w..<hi}" "n \<in> {tick w..<hi}"
      and "fresh (quiet_env :: zlist env) m 0 = fresh (quiet_env :: zlist env) n 0"
    then have "Suc m * 1024 = Suc n * 1024" using f [of m] f [of n] by (simp only: atLeastLessThan_iff)
    then show "m = n" by simp
  qed
  moreover have "fresh (quiet_env :: zlist env) n 0 \<noteq> 0" if "n < hi" for n
    using f [OF that] by (metis unat_0 mult_is_0 nat.distinct(1) zero_neq_numeral)
  ultimately show ?thesis using assms(1) by (simp add: ids_new_def)
qed

definition calm_world :: "db \<Rightarrow> zlist world" where
  "calm_world d = \<lparr>tick = 0, db = d, rds = empty_redis zlist_ops, observed = []\<rparr>"

lemma calm_world_queue:
  "canonical_world zlist_ops hex_uuid_ops (calm_world d)"
  "queued (redis_view zlist_ops hex_uuid_ops (calm_world d)) ''default'' = {}"
  by (auto simp: canonical_world_def canonical_def calm_world_def empty_redis_def zlist_ops_def queued_def redis_view_def)


section \<open>A submitted workflow\<close>

lemma insert_tasks_new:
  assumes "distinct (map ct_Name trs)" and "inj_on ids {k..<k + length trs}"
    and "\<forall>r \<in> set rows. t_ID r \<notin> ids ` {k..<k + length trs} \<and> (t_WorkflowID r = wid \<longrightarrow> t_Name r \<notin> ct_Name ` set trs)"
  shows "\<exists>ts. insert_tasks ids wid now trs k rows = Inr ts \<and> map t_Type ts = map ct_Type trs"
  using assms
proof (induction ids wid now trs k rows rule: insert_tasks.induct)
  case (2 ids wid now tr trs k rows)
  let ?t = "new_task (ids k) wid now tr"
  have t: "t_ID ?t = ids k" "t_WorkflowID ?t = wid" "t_Name ?t = ct_Name tr" "t_Type ?t = ct_Type tr"
    by (simp_all add: new_task_def)
  have range: "{k..<k + length (tr # trs)} = insert k {Suc k..<Suc k + length trs}" by auto
  have no: "\<not> list_ex (\<lambda>r. t_ID r = t_ID ?t \<or> t_WorkflowID r = wid \<and> t_Name r = t_Name ?t) rows"
    using "2.prems"(3) unfolding range by (auto simp: list_ex_iff t)
  have inj: "inj_on ids {Suc k..<Suc k + length trs}" "ids k \<notin> ids ` {Suc k..<Suc k + length trs}"
    using "2.prems"(2) unfolding range by auto
  have rows: "\<forall>r \<in> set (rows @ [?t]). t_ID r \<notin> ids ` {Suc k..<Suc k + length trs} \<and>
      (t_WorkflowID r = wid \<longrightarrow> t_Name r \<notin> ct_Name ` set trs)"
    using "2.prems"(1,3) inj(2) unfolding range by (auto simp: t)
  from "2.IH" [OF refl no _ inj(1) rows] "2.prems"(1)
  obtain ts where "insert_tasks ids wid now trs (Suc k) (rows @ [?t]) = Inr ts" "map t_Type ts = map ct_Type trs"
    by auto
  then show ?case using no by (intro exI [of _ "?t # ts"]) (simp add: Let_def t)
qed simp

text \<open>The identifiers a submission draws for its workflow and its tasks are new and different.\<close>

definition submission_ids :: "'z env \<Rightarrow> nat \<Rightarrow> create_workflow_request \<Rightarrow> db \<Rightarrow> bool" where
  "submission_ids E n req d \<longleftrightarrow>
     fresh E n 0 \<notin> wf_ID ` set (workflows_table d) \<and> inj_on (fresh E n) {1..<1 + length (cw_Tasks req)} \<and>
     fresh E n ` {1..<1 + length (cw_Tasks req)} \<inter> t_ID ` set (tasks_table d) = {}"

lemma create_workflow_new:
  assumes "db_ok d" and "valid_dag (cw_Tasks req)" and "submission_ids E n req d"
  shows "\<exists>ts. create_workflow_stmt (fresh E n) now req d = (Inr (new_workflow (fresh E n 0) now (cw_Name req), ts),
      d\<lparr>workflows_table := workflows_table d @ [new_workflow (fresh E n 0) now (cw_Name req)],
        tasks_table := tasks_table d @ ts\<rparr>) \<and>
    map t_Name ts = map ct_Name (cw_Tasks req) \<and> map t_Type ts = map ct_Type (cw_Tasks req) \<and>
    (\<forall>t \<in> set ts. t_WorkflowID t = fresh E n 0 \<and> pending t)"
proof -
  let ?ids = "fresh E n" and ?trs = "cw_Tasks req"
  have old: "t_WorkflowID r \<noteq> ?ids 0" if "r \<in> set (tasks_table d)" for r
  proof -
    have "t_WorkflowID r \<in> wf_ID ` set (workflows_table d)"
      using assms(1) that by (simp add: db_ok_def tasks_ok_def)
    then show ?thesis using assms(3) by (auto simp: submission_ids_def)
  qed
  have names: "distinct (map ct_Name ?trs)" using assms(2) by (simp add: valid_dag_def named_tasks_def)
  have inj: "inj_on ?ids {1..<1 + length ?trs}" using assms(3) by (simp add: submission_ids_def)
  have rows: "\<forall>r \<in> set (tasks_table d). t_ID r \<notin> ?ids ` {1..<1 + length ?trs} \<and>
      (t_WorkflowID r = ?ids 0 \<longrightarrow> t_Name r \<notin> ct_Name ` set ?trs)"
  proof (intro ballI conjI impI)
    fix r
    assume r: "r \<in> set (tasks_table d)"
    then show "t_ID r \<notin> ?ids ` {1..<1 + length ?trs}" using assms(3) unfolding submission_ids_def by blast
    assume "t_WorkflowID r = ?ids 0"
    then show "t_Name r \<notin> ct_Name ` set ?trs" using old [OF r] by blast
  qed
  obtain ts where ts: "insert_tasks ?ids (?ids 0) now ?trs 1 (tasks_table d) = Inr ts"
    "map t_Type ts = map ct_Type ?trs"
    using insert_tasks_new [OF names inj rows] by blast
  have "distinct (map t_ID (tasks_table d))" "distinct (map (\<lambda>t. (t_WorkflowID t, t_Name t)) (tasks_table d))"
    using assms(1) by (simp_all add: db_ok_def tasks_ok_def)
  from insert_tasks_rows [OF ts(1) this]
  have "map t_Name ts = map ct_Name ?trs" "\<forall>t \<in> set ts. t_WorkflowID t = ?ids 0 \<and> pending t"
    by (auto simp: pending_def)
  moreover have "create_workflow_stmt ?ids now req d = (Inr (new_workflow (?ids 0) now (cw_Name req), ts),
      d\<lparr>workflows_table := workflows_table d @ [new_workflow (?ids 0) now (cw_Name req)],
        tasks_table := tasks_table d @ ts\<rparr>)"
  proof -
    have "wf_ID (new_workflow (?ids 0) now (cw_Name req)) = ?ids 0" by (simp add: new_workflow_def)
    moreover have "?ids 0 \<notin> wf_ID ` set (workflows_table d)" using assms(3) by (simp add: submission_ids_def)
    ultimately show ?thesis unfolding create_workflow_stmt_def Let_def by (simp only: ts(1) if_False sum.case)
  qed
  ultimately show ?thesis using ts(2) by blast
qed

text \<open>The database once the workflow is stored and marked as running.\<close>

lemma stored_under_way:
  assumes db: "db_ok d" and dag: "valid_dag (cw_Tasks req)" and new: "submission_ids E n req d"
    and keys: "\<forall>t \<in> set (cw_Tasks req). Some (task_key U wid (ct_Name t)) \<notin> j_IdempotencyKey ` set (jobs_table d)"
    and wid: "wid = fresh E n 0"
  shows "\<exists>ts d1 g. create_workflow_stmt (fresh E n) now req d = (Inr (new_workflow wid now (cw_Name req), ts), d1) \<and>
    map t_Name ts = map ct_Name (cw_Tasks req) \<and>
    (let d2 = snd (update_workflow_stmt wid WorkflowStatusRunning None now' d1) in
       under_way U wid (ct_Type ` set (cw_Tasks req)) {} d2 \<and> jobs_table d2 = jobs_table d \<and>
       row_of wf_ID wid (workflows_table d2) = Some g \<and> wf_Status g = WorkflowStatusRunning \<and>
       length (tasks_of wid d2) = length (cw_Tasks req) \<and> pending_ids wid d2 \<noteq> {} \<and>
       length (tasks_table d2) = length (tasks_table d) + length (cw_Tasks req))"
proof -
  let ?f = "new_workflow wid now (cw_Name req)"
  obtain ts where ts: "create_workflow_stmt (fresh E n) now req d = (Inr (?f, ts),
      d\<lparr>workflows_table := workflows_table d @ [?f], tasks_table := tasks_table d @ ts\<rparr>)"
    "map t_Name ts = map ct_Name (cw_Tasks req)" "map t_Type ts = map ct_Type (cw_Tasks req)"
    "\<forall>t \<in> set ts. t_WorkflowID t = wid \<and> pending t"
    using create_workflow_new [OF db dag new, of now] wid by blast
  let ?d1 = "d\<lparr>workflows_table := workflows_table d @ [?f], tasks_table := tasks_table d @ ts\<rparr>"
  let ?d2 = "snd (update_workflow_stmt wid WorkflowStatusRunning None now' ?d1)"
  have "db_step d ?d1" using db_step.CreateWorkflow [OF dag, of d "fresh E n" now] by (simp add: ts(1))
  then have ok2: "db_ok ?d2" by (intro db_ok_step [OF db_step.UpdateWorkflow]) (rule db_ok_step [OF _ db])
  have old: "t_WorkflowID t \<noteq> wid" if "t \<in> set (tasks_table d)" for t
  proof -
    have "t_WorkflowID t \<in> wf_ID ` set (workflows_table d)" using db that by (simp add: db_ok_def tasks_ok_def)
    then show ?thesis using new by (auto simp: submission_ids_def wid)
  qed
  have d2: "jobs_table ?d2 = jobs_table d" "tasks_table ?d2 = tasks_table d @ ts"
    "workflows_table ?d2 = update_where (\<lambda>f. wf_ID f = wid) (set_workflow WorkflowStatusRunning None now')
      (workflows_table d @ [?f])"
    by (simp_all add: update_workflow_stmt_def)
  have "filter (\<lambda>t. t_WorkflowID t = wid) (tasks_table ?d2) = ts"
    using old ts(4) by (simp add: d2(2) filter_empty_conv filter_id_conv)
  then have tasks: "tasks_of wid ?d2 = sort_key t_CreatedAt ts" by (simp add: tasks_of_def)
  have name: "t_Name t \<in> ct_Name ` set (cw_Tasks req)" "t_Type t \<in> ct_Type ` set (cw_Tasks req)" if "t \<in> set ts" for t
    using that ts(2,3) by (metis image_eqI set_map)+
  have "\<forall>t \<in> set (tasks_table ?d2). t_WorkflowID t = wid \<longrightarrow>
      t_Type t \<in> ct_Type ` set (cw_Tasks req) \<and> task_fine U wid ?d2 {} t"
  proof (intro ballI impI)
    fix t
    assume "t \<in> set (tasks_table ?d2)" "t_WorkflowID t = wid"
    then have t: "t \<in> set ts" using old by (auto simp: d2(2))
    then obtain tr where "tr \<in> set (cw_Tasks req)" "t_Name t = ct_Name tr" using name(1) by blast
    then have "Some (task_key U wid (t_Name t)) \<notin> j_IdempotencyKey ` set (jobs_table ?d2)"
      using keys unfolding d2(1) by simp
    moreover have "pending t" using ts(4) t by blast
    ultimately show "t_Type t \<in> ct_Type ` set (cw_Tasks req) \<and> task_fine U wid ?d2 {} t"
      using name(2) [OF t] by (simp add: task_fine_def)
  qed
  then have "under_way U wid (ct_Type ` set (cw_Tasks req)) {} ?d2" using ok2 by (simp add: under_way_def)
  moreover have "length ts = length (cw_Tasks req)" using ts(2) map_eq_imp_length_eq by blast
  moreover have "cw_Tasks req \<noteq> []" using dag by (simp add: valid_dag_def)
  ultimately have len: "under_way U wid (ct_Type ` set (cw_Tasks req)) {} ?d2" "length (tasks_of wid ?d2) = length (cw_Tasks req)"
    "length (tasks_table ?d2) = length (tasks_table d) + length (cw_Tasks req)" "ts \<noteq> []"
    by (auto simp: tasks d2(2))
  then have pend: "pending_ids wid ?d2 \<noteq> {}" using ts(4) by (auto simp: pending_ids_tasks tasks)
  have "row_of wf_ID wid (workflows_table d) = None" using new by (simp add: row_of_None submission_ids_def wid)
  then have "row_of wf_ID wid (workflows_table d @ [?f]) = Some ?f" by (simp add: new_workflow_def)
  from workflow_row_update [OF this]
  have "row_of wf_ID wid (workflows_table ?d2) = Some (set_workflow WorkflowStatusRunning None now' ?f)" by (simp only: d2(3))
  moreover have "wf_Status (set_workflow WorkflowStatusRunning None now' ?f) = WorkflowStatusRunning"
    by (simp add: set_workflow_def)
  ultimately show ?thesis unfolding Let_def using ts(1,2) len(1-3) pend d2(1) by blast
qed

text \<open>The request stores the workflow and hands it to the engine for a first pass.\<close>

lemma submitted_run:
  assumes E: "reliable E" and db: "db_ok (db w)" and ord: "\<And>d. mset (ord d) = mset d" and dag: "valid_dag (cw_Tasks req)"
    and h: "h_Engine h = Some W" "cw_Name req \<noteq> []" and new: "submission_ids E (tick w) req (db w)"
    and wid: "wid = fresh E (tick w) 0"
    and keys: "\<forall>t \<in> set (cw_Tasks req). Some (task_key U wid (ct_Name t)) \<notin> j_IdempotencyKey ` set (jobs_table (db w))"
    and run: "run_state (CreateWorkflow ord U E h (Some req)) w = (rp, w')"
  shows "\<exists>f ts g w2 r. rp = respondJSON 201 (DWorkflow (f, ts)) \<and> wf_ID f = wid \<and>
    map t_Name ts = map ct_Name (cw_Tasks req) \<and> run_state (AdvanceWorkflow U E W wid) w2 = (r, w') \<and>
    rds w2 = rds w \<and> tick w2 = tick w + 2 \<and> under_way U wid (ct_Type ` set (cw_Tasks req)) {} (db w2) \<and>
    jobs_table (db w2) = jobs_table (db w) \<and> row_of wf_ID wid (workflows_table (db w2)) = Some g \<and>
    wf_Status g = WorkflowStatusRunning \<and> length (tasks_of wid (db w2)) = length (cw_Tasks req) \<and>
    pending_ids wid (db w2) \<noteq> {} \<and>
    length (tasks_table (db w2)) = length (tasks_table (db w)) + length (cw_Tasks req)"
proof -
  let ?now = "clock E (tick w)" and ?now' = "clock E (Suc (tick w))"
  obtain ts d1 g where c: "create_workflow_stmt (fresh E (tick w)) ?now req (db w) =
      (Inr (new_workflow wid ?now (cw_Name req), ts), d1)"
    and names: "map t_Name ts = map ct_Name (cw_Tasks req)"
    and d2: "let d2 = snd (update_workflow_stmt wid WorkflowStatusRunning None ?now' d1) in
       under_way U wid (ct_Type ` set (cw_Tasks req)) {} d2 \<and> jobs_table d2 = jobs_table (db w) \<and>
       row_of wf_ID wid (workflows_table d2) = Some g \<and> wf_Status g = WorkflowStatusRunning \<and>
       length (tasks_of wid d2) = length (cw_Tasks req) \<and> pending_ids wid d2 \<noteq> {} \<and>
       length (tasks_table d2) = length (tasks_table (db w)) + length (cw_Tasks req)"
    using stored_under_way [OF db dag new keys wid] by blast
  let ?f = "new_workflow wid ?now (cw_Name req)"
  let ?w2 = "w\<lparr>observed := observed w @ RecordWorkflow (workflow_status_text WorkflowStatusRunning),
    tick := tick w + 2, db := snd (update_workflow_stmt wid WorkflowStatusRunning None ?now' d1)\<rparr>"
  have valid: "ValidateDAG ord (cw_Tasks req) = Inr ()" using valid_dag_accepted [of ord, OF ord] dag by blast
  obtain r where adv: "run_state (AdvanceWorkflow U E W wid) ?w2 = (r, w')"
    and rp: "rp = respondJSON 201 (DWorkflow (?f, ts))"
    using run h valid c
    by (auto simp: CreateWorkflow_def WorkflowStore_Create_def run_pg_reliable [OF E] WorkflowEngine_Start_def
        WorkflowStore_UpdateStatus_def update_workflow_stmt_def new_workflow_def split: prod.splits)
  have "wf_ID ?f = wid" by (simp add: new_workflow_def)
  moreover have "rds ?w2 = rds w" "tick ?w2 = tick w + 2"
    "db ?w2 = snd (update_workflow_stmt wid WorkflowStatusRunning None ?now' d1)" by simp_all
  ultimately show ?thesis using rp adv names d2 unfolding Let_def by metis
qed

lemma for_each_same:
  "length xs = length ys \<Longrightarrow> for_each xs () (\<lambda>_ _. m) = for_each ys () (\<lambda>_ _. m)"
  by (induction rule: list_induct2) simp_all

lemma workflow_rounds_Suc:
  "workflow_rounds U E W wid Ks (Suc k) =
     State_Monad.bind (workflow_round U E W wid Ks) (\<lambda>_. workflow_rounds U E W wid Ks k)"
proof -
  have "workflow_rounds U E W wid Ks (Suc k) = for_each (0 # [0..<k]) () (\<lambda>_ _. workflow_round U E W wid Ks)"
    unfolding workflow_rounds_def by (rule for_each_same) simp
  then show ?thesis by (simp add: workflow_rounds_def)
qed

text \<open>
  C2. A submitted workflow is carried out: a request with a name and a valid DAG, posted to an API
  server whose engine shares the queue of the workers, is answered with a 201 and the workflow it
  stored; after a claim by each worker, and as many rounds of engine and workers as there are tasks,
  this workflow is SUCCEEDED and so is each of its tasks, when the handlers succeed, no call fails
  and nobody else interferes.
\<close>

theorem submitted_workflow_completes:
  assumes "redis_server R V" and "reliable E" and "canonical_world R V w" and "db_ok (db w)"
    and "we_Workflows W" and "we_Jobs W" and "we_Q W = Some (RedisQueue R V E)"
    and "queued (redis_view R V w) ''default'' = {}" and "h_Engine h = Some W" and "\<And>d. mset (ord d) = mset d"
    and "cw_Name req \<noteq> []" and "valid_dag (cw_Tasks req)" and "submission_ids E (tick w) req (db w)"
    and "wid = fresh E (tick w) 0"
    and "\<forall>t \<in> set (cw_Tasks req). Some (task_key U wid (ct_Name t)) \<notin> j_IdempotencyKey ` set (jobs_table (db w))"
    and "\<forall>K \<in> set Ks. serves (RedisQueue R V E) (ct_Type ` set (cw_Tasks req)) K"
    and "length (cw_Tasks req) \<le> length Ks" and "length (cw_Tasks req) \<le> k"
    and "ids_new E (tick w + 2 + rounds_cost (Suc k) (length (tasks_table (db w)) + length (cw_Tasks req)) (length Ks)) w"
    and "run_state (CreateWorkflow ord U E h (Some req)) w = (rp, w1)"
    and "run_state (worker_round E Ks) w1 = (u, w2)"
    and "run_state (workflow_rounds U E W wid Ks k) w2 = (v, w3)"
  shows "(\<exists>f ts. rp = respondJSON 201 (DWorkflow (f, ts)) \<and> wf_ID f = wid \<and>
      map t_Name ts = map ct_Name (cw_Tasks req)) \<and> completed wid (db w3)"
proof -
  let ?Ty = "ct_Type ` set (cw_Tasks req)" and ?n = "length (tasks_table (db w)) + length (cw_Tasks req)"
  let ?hi = "tick w + 2 + rounds_cost (Suc k) ?n (length Ks)"
  note W = redis_workflow_run [OF assms(1,2,5-7)]
  from submitted_run [OF assms(2,4,10,12,9,11,13-15,20)] obtain f ts g v0 r where
    reply: "rp = respondJSON 201 (DWorkflow (f, ts))" "wf_ID f = wid" "map t_Name ts = map ct_Name (cw_Tasks req)"
    and adv: "run_state (AdvanceWorkflow U E W wid) v0 = (r, w1)" and v0: "rds v0 = rds w" "tick v0 = tick w + 2"
    and flow: "under_way U wid ?Ty {} (db v0)" "jobs_table (db v0) = jobs_table (db w)"
    and g: "row_of wf_ID wid (workflows_table (db v0)) = Some g" "wf_Status g = WorkflowStatusRunning"
    and n: "length (tasks_of wid (db v0)) = length (cw_Tasks req)" "pending_ids wid (db v0) \<noteq> {}"
      "length (tasks_table (db v0)) = ?n" by blast
  have Kq: "\<forall>K \<in> set Ks. wk_Q K = RedisQueue R V E" using assms(16) by (simp add: serves_def)
  have fin: "run_state (workflow_rounds U E W wid Ks (Suc k)) v0 = (v, w3)"
    using adv assms(21,22) by (simp add: workflow_rounds_Suc workflow_round_def)
  have "tick w3 \<le> ?hi" using rounds_calls [OF assms(2,7) Kq fin] by (simp add: rounds_cost_def n(3) v0(2))
  moreover have "ids_new E ?hi v0" by (rule ids_new_later [OF assms(19)]) (simp_all add: v0(2) flow(2))
  moreover have "canonical_world R V v0" "slots (redis_view R V v0) = {}"
    using assms(3,8) v0(1) redis_view_cong [of v0 w R V] by (simp_all add: canonical_world_def slots_queued)
  moreover have "tasks_of wid (db v0) \<noteq> []" using n(2) by (auto simp: pending_ids_tasks)
  moreover have "\<not> WorkflowStatus_IsTerminal (wf_Status g)" using g(2) by (simp add: WorkflowStatus_IsTerminal_def)
  moreover have "length (tasks_of wid (db v0)) \<le> length Ks" "card (pending_ids wid (db v0)) < length [0..<Suc k]"
    using assms(17,18) n(1) pending_count [of wid "db v0"] by simp_all
  ultimately have "completed wid (db w3)"
    using workflow_run.rounds_quiet [OF W, of v0 U wid ?Ty g Ks ?hi w3 "[0..<Suc k]" v] flow(1) g(1) assms(16) fin
    unfolding workflow_rounds_def by blast
  then show ?thesis using reply by blast
qed

theorem submitted_workflow_completes_witness:
  "\<exists>f ts w1 w2 w3. run_state (CreateWorkflow rev hex_uuid_ops quiet_env demo_handler (Some flow_request))
       (calm_world empty_db) = (respondJSON 201 (DWorkflow (f, ts)), w1) \<and>
     run_state (worker_round quiet_env (replicate 4 obliging_worker)) w1 = ((), w2) \<and>
     run_state (workflow_rounds hex_uuid_ops quiet_env flow_engine 1024 (replicate 4 obliging_worker) 4) w2 = ((), w3) \<and>
     map t_Name ts = [''A'', ''B'', ''C'', ''D''] \<and> completed 1024 (db w3)"
proof -
  let ?w = "calm_world empty_db" and ?Ks = "replicate 4 obliging_worker" and ?E = "quiet_env :: zlist env"
  obtain rp w1 where r1: "run_state (CreateWorkflow rev hex_uuid_ops ?E demo_handler (Some flow_request)) ?w = (rp, w1)"
    by (metis surj_pair)
  obtain w2 where r2: "run_state (worker_round ?E ?Ks) w1 = ((), w2)" by (metis old.unit.exhaust surj_pair)
  obtain w3 where r3: "run_state (workflow_rounds hex_uuid_ops ?E flow_engine 1024 ?Ks 4) w2 = ((), w3)"
    by (metis old.unit.exhaust surj_pair)
  have w: "tick ?w = 0" "db ?w = empty_db" "tasks_table empty_db = []" "jobs_table empty_db = []" "workflows_table empty_db = []"
    by (simp_all add: calm_world_def empty_db_def)
  have req: "cw_Tasks flow_request = diamond" "length diamond = 4" "cw_Name flow_request \<noteq> []"
    "map ct_Name diamond = [''A'', ''B'', ''C'', ''D'']"
    by (simp_all add: flow_request_def diamond_def)
  have "inj_on (fresh ?E 0) {1..<5}"
  proof (rule inj_onI)
    fix m n
    assume mn: "m \<in> {1..<5}" "n \<in> {1..<5}" and eq: "fresh ?E 0 m = fresh ?E 0 n"
    have u: "unat (fresh ?E 0 k) = Suc 0 * 1024 + k" if "k \<in> {1..<5}" for k
    proof -
      have "Suc 0 * 1024 + k < 2 ^ 64" using that by simp
      then show ?thesis unfolding quiet_env_def env.simps by (rule unat_uuid)
    qed
    have "Suc 0 * 1024 + m = Suc 0 * 1024 + n" by (simp only: u [OF mn(1), symmetric] u [OF mn(2), symmetric] eq)
    then show "m = n" by simp
  qed
  then have new: "submission_ids ?E (tick ?w) flow_request (db ?w)"
    by (simp only: submission_ids_def w req) simp
  have wid: "(1024 :: uuid) = fresh ?E (tick ?w) 0" by (simp add: w quiet_env_def)
  have ids: "ids_new ?E (tick ?w + 2 + rounds_cost (Suc 4) (length (tasks_table (db ?w)) + length (cw_Tasks flow_request))
      (length ?Ks)) ?w"
    by (rule quiet_ids_new) (simp_all add: w req rounds_cost_def)
  have eng: "h_Engine demo_handler = Some flow_engine" by (simp add: demo_handler_def flow_engine_def)
  have keys: "\<forall>t \<in> set (cw_Tasks flow_request). Some (task_key hex_uuid_ops 1024 (ct_Name t)) \<notin>
      j_IdempotencyKey ` set (jobs_table (db ?w))" by (simp add: w)
  have "valid_dag (cw_Tasks flow_request)" using valid_diamond by (simp add: req)
  from submitted_workflow_completes [OF zl_hex.redis_server_axioms reliable_quiet_env calm_world_queue(1) _ flow_engine_parts
      calm_world_queue(2) eng mset_rev req(3) this new wid keys _ _ _ ids r1 r2 r3]
  have res: "(\<exists>f ts. rp = respondJSON 201 (DWorkflow (f, ts)) \<and> wf_ID f = 1024 \<and> map t_Name ts = map ct_Name diamond) \<and>
      completed 1024 (db w3)"
    using obliging_serves db_ok_empty by (simp add: w req)
  then obtain f ts where "rp = respondJSON 201 (DWorkflow (f, ts))" "map t_Name ts = [''A'', ''B'', ''C'', ''D'']"
    unfolding req(4) by (elim conjE exE) (rule that)
  with res r1 r2 r3 show ?thesis by (intro exI conjI) auto
qed

end
