(* ===== verification/Worker_Loop.thy ===== *)
theory Worker_Loop
  imports Worker Redis_Queue
begin

text \<open>
  The claiming loop of \<open>Worker.Run\<close> and its goroutines: the semaphore counts exactly the slots in
  use, so no more than \<open>concurrency\<close> jobs run at once; the worker stops only when none runs, and
  from every state it can reach it can stop.
\<close>

inductive_cases loop_stepE: "loop_step c s s'"

definition loop_inv :: "nat \<Rightarrow> worker_loop \<Rightarrow> bool" where
  "loop_inv c s \<longleftrightarrow>
     wl_Sem s = length (wl_Running s) + (if wl_Phase s = Claiming then 1 else 0) \<and>
     wl_Sem s \<le> c \<and> (wl_Phase s = Stopped \<longrightarrow> wl_Running s = [])"

lemma loop_inv_init: "loop_inv c loop_init"
  by (simp add: loop_inv_def loop_init_def)

lemma loop_inv_step: "loop_step c s s' \<Longrightarrow> loop_inv c s \<Longrightarrow> loop_inv c s'"
  by (erule loop_stepE) (auto simp: loop_inv_def length_remove1 dest: length_pos_if_in_set split: if_splits)

lemma loop_inv_reachable:
  assumes "(loop_step c)\<^sup>*\<^sup>* loop_init s"
  shows "loop_inv c s"
  using assms by (induction) (auto intro: loop_inv_init loop_inv_step)

text \<open>The goroutines end one by one.\<close>

lemma loop_drains:
  "wl_Phase s = Draining \<Longrightarrow> \<exists>s'. (loop_step c)\<^sup>*\<^sup>* s s' \<and> wl_Phase s' = Stopped"
proof (induction "wl_Running s" arbitrary: s)
  case Nil
  then show ?case
    using loop_step.Waited [of s c] by (intro exI [of _ "s\<lparr>wl_Phase := Stopped\<rparr>"]) auto
next
  case (Cons u us)
  let ?s = "s\<lparr>wl_Sem := wl_Sem s - 1, wl_Running := remove1 u (wl_Running s)\<rparr>"
  have "loop_step c s ?s" using Cons.hyps(2) loop_step.Finish [of u s c] by (metis list.set_intros(1))
  moreover obtain s' where "(loop_step c)\<^sup>*\<^sup>* ?s s'" "wl_Phase s' = Stopped"
    using Cons.hyps(1) [of ?s] Cons.hyps(2) [symmetric] Cons.prems by auto
  ultimately show ?case by (meson converse_rtranclp_into_rtranclp)
qed

lemma loop_cancels:
  assumes "wl_Phase s \<noteq> Stopped"
  shows "\<exists>s'. (loop_step c)\<^sup>*\<^sup>* s s' \<and> wl_Phase s' = Draining"
proof -
  have sel: "(loop_step c)\<^sup>*\<^sup>* s (s\<lparr>wl_Phase := Draining\<rparr>)" if "wl_Phase s = Selecting" for s
    using loop_step.Cancelled [OF that] by blast
  show ?thesis
  proof (cases "wl_Phase s")
    case Selecting
    then show ?thesis using sel [of s] by (intro exI [of _ "s\<lparr>wl_Phase := Draining\<rparr>"]) simp
  next
    case Claiming
    let ?s = "s\<lparr>wl_Phase := Selecting, wl_Sem := wl_Sem s - 1\<rparr>"
    have "loop_step c s ?s" by (rule loop_step.ClaimFailed [OF Claiming])
    then show ?thesis using sel [of ?s]
      by (intro exI [of _ "?s\<lparr>wl_Phase := Draining\<rparr>"]) auto
  qed (use assms in auto)
qed

text \<open>
  Bounded concurrency: whatever claims succeed or fail, whenever goroutines end and the context
  is cancelled, the semaphore of a worker holds one token per job in flight and one for a claim
  being made, never more than \<open>concurrency\<close>, so at most that many jobs run; and a worker that has
  stopped has no job in flight and has given back every slot.
\<close>

theorem worker_slots:
  assumes "(loop_step (nat (wk_Concurrency (NewWorker wid ws q poll jt vt hi concurrency))))\<^sup>*\<^sup>* loop_init s"
  shows "int (length (wl_Running s)) \<le> (if concurrency \<le> 0 then 5 else concurrency) \<and>
    wl_Sem s = length (wl_Running s) + (if wl_Phase s = Claiming then 1 else 0) \<and>
    (wl_Phase s = Stopped \<longrightarrow> wl_Running s = [] \<and> wl_Sem s = 0)"
  using loop_inv_reachable [OF assms] by (auto simp: loop_inv_def NewWorker_def split: if_splits)

definition demo_loop :: worker_loop where
  "demo_loop = \<lparr>wl_Phase = Selecting, wl_Sem = 1, wl_Running = [7]\<rparr>"

lemma demo_loop_reachable: "(loop_step 1)\<^sup>*\<^sup>* loop_init demo_loop"
proof -
  have "loop_step 1 loop_init (loop_init\<lparr>wl_Phase := Claiming, wl_Sem := 1\<rparr>)"
    using loop_step.Acquire [of loop_init 1] by (simp add: loop_init_def)
  moreover have "loop_step 1 (loop_init\<lparr>wl_Phase := Claiming, wl_Sem := 1\<rparr>) demo_loop"
    using loop_step.Spawn [of "loop_init\<lparr>wl_Phase := Claiming, wl_Sem := 1\<rparr>" 1 7]
    by (simp add: loop_init_def demo_loop_def)
  ultimately show ?thesis by auto
qed

theorem worker_slots_witness: "length (wl_Running demo_loop) \<le> 1 \<and> wl_Running demo_loop = [7]"
  using worker_slots [of "''w''" True "RedisQueue zlist_ops hex_uuid_ops quiet_env" 0 0 0 0 1 demo_loop] demo_loop_reachable
  by (simp add: NewWorker_def demo_loop_def)

text \<open>
  A worker can always shut down: from every state of the loop, with any number of jobs in
  flight, there is a way to the stopped state (the context is cancelled, the jobs end, the wait
  returns), and no step leaves the stopped state.
\<close>

theorem worker_can_stop:
  assumes "(loop_step c)\<^sup>*\<^sup>* loop_init s"
  shows "(\<exists>s'. (loop_step c)\<^sup>*\<^sup>* s s' \<and> wl_Phase s' = Stopped) \<and>
    (wl_Phase s = Stopped \<longrightarrow> (\<forall>s'. \<not> loop_step c s s'))"
proof
  show "\<exists>s'. (loop_step c)\<^sup>*\<^sup>* s s' \<and> wl_Phase s' = Stopped"
  proof (cases "wl_Phase s = Stopped")
    case False
    then show ?thesis using loop_cancels [of s c] loop_drains [of _ c] by (meson rtranclp_trans)
  qed auto
  show "wl_Phase s = Stopped \<longrightarrow> (\<forall>s'. \<not> loop_step c s s')"
    using loop_inv_reachable [OF assms] by (auto simp: loop_inv_def elim: loop_stepE)
qed

theorem worker_can_stop_witness: "\<exists>s'. (loop_step 1)\<^sup>*\<^sup>* demo_loop s' \<and> wl_Phase s' = Stopped"
  using worker_can_stop [OF demo_loop_reachable] by blast

end
