(* ===== verification/Worker_Run.thy ===== *)
theory Worker_Run
  imports Worker_Loop Attempt_Props
begin

text \<open>
  \<open>Worker.Run\<close> (\<open>internal/engine/worker.go\<close>) as a whole, with the calls it makes: the registration,
  the claiming loop, any number of goroutines in the middle of their attempts, the heartbeat and
  stale recovery loops, and the deferred shutdown. \<open>E\<close> is the environment of the calls made with
  the context of \<open>Run\<close>, which fail once it is cancelled; \<open>B\<close> and the queue \<open>QB\<close> are those of the
  deferred function, which has a context of its own. A step is one block of calls of one of the
  concurrent parts; what the others do between two calls of a block is the environment's.
\<close>

section \<open>An attempt in two parts\<close>

text \<open>\<open>processJob\<close> up to the start of the handler, and from there on.\<close>

type_synonym attempt = "job \<times> handler_func \<times> time"

definition attempt_begin ::
  "'z env \<Rightarrow> 'z world worker_proc \<Rightarrow> uuid \<Rightarrow> ('z world, attempt option) state" where
  "attempt_begin E W jobID = do {
     r \<leftarrow> JobStore_ClaimJob E jobID (wk_ID W);
     case r of
       Inl e \<Rightarrow> State_Monad.return None
     | Inr None \<Rightarrow> do {
         _ \<leftarrow> q_Ack (wk_Q W) (wk_QueueName W) jobID;
         State_Monad.return None
       }
     | Inr (Some job) \<Rightarrow>
         (case wk_Handlers W (j_Type job) of
            None \<Rightarrow> do {
              _ \<leftarrow> JobStore_MarkFailed E (j_ID job)
                     (''no handler registered for job type '' @ strconv_Quote (j_Type job));
              _ \<leftarrow> when_workers W (WorkerStore_IncrementFailed E (wk_ID W));
              _ \<leftarrow> q_Ack (wk_Q W) (wk_QueueName W) (j_ID job);
              State_Monad.return None
            }
          | Some handler \<Rightarrow> do {
              startTime \<leftarrow> time_Now E;
              State_Monad.return (Some (job, handler, startTime))
            })
   }"

definition attempt_end ::
  "'z env \<Rightarrow> 'z world worker_proc \<Rightarrow> attempt \<Rightarrow> ('z world, unit) state" where
  "attempt_end E W a =
     (case a of (job, handler, startTime) \<Rightarrow> do {
        execErr \<leftarrow> exec_handler handler (j_Payload job);
        endTime \<leftarrow> time_Now E;
        _ \<leftarrow> (case execErr of
               Some msg \<Rightarrow> resolve_failure E W job msg (endTime - startTime)
             | None \<Rightarrow> resolve_success E W job (endTime - startTime));
        _ \<leftarrow> q_Ack (wk_Q W) (wk_QueueName W) (j_ID job);
        State_Monad.return ()
      })"

lemma processJob_parts:
  "run_state (processJob E W u) w =
     run_state (do {
       a \<leftarrow> attempt_begin E W u;
       case a of None \<Rightarrow> State_Monad.return () | Some x \<Rightarrow> attempt_end E W x
     }) w"
  by (simp add: processJob_def attempt_begin_def attempt_end_def run_attempt_def split_beta
      split: sum.split option.split)

section \<open>The run\<close>

datatype goroutine = Spawned uuid | Executing attempt

fun job_of :: "goroutine \<Rightarrow> uuid" where
  "job_of (Spawned u) = u"
| "job_of (Executing (job, handler, startTime)) = j_ID job"

record worker_threads =
  wt_Phase :: loop_phase
  wt_Sem :: nat
  wt_Goroutines :: "goroutine list"

type_synonym 'z running_worker = "worker_threads \<times> 'z world"

definition run_init :: "'z env \<Rightarrow> 'z world worker_proc \<Rightarrow> 'z world \<Rightarrow> 'z running_worker" where
  "run_init E W w =
     (\<lparr>wt_Phase = Selecting, wt_Sem = 0, wt_Goroutines = []\<rparr>, snd (run_state (worker_start E W) w))"

inductive worker_run ::
  "'z env \<Rightarrow> 'z env \<Rightarrow> 'z world queue_iface \<Rightarrow> 'z world worker_proc \<Rightarrow>
   'z running_worker \<Rightarrow> 'z running_worker \<Rightarrow> bool" for E B QB W where
  Acquire: "wt_Phase s = Selecting \<Longrightarrow> int (wt_Sem s) < wk_Concurrency W \<Longrightarrow>
    worker_run E B QB W (s, w) (s\<lparr>wt_Phase := Claiming, wt_Sem := Suc (wt_Sem s)\<rparr>, w)"
| ClaimFailed: "wt_Phase s = Claiming \<Longrightarrow>
    run_state (q_Claim (wk_Q W) (wk_ID W) (wk_QueueName W) (wk_VisibilityTimeout W)) w = (Inl e, w') \<Longrightarrow>
    worker_run E B QB W (s, w) (s\<lparr>wt_Phase := Selecting, wt_Sem := wt_Sem s - 1\<rparr>, w')"
| Claimed: "wt_Phase s = Claiming \<Longrightarrow>
    run_state (q_Claim (wk_Q W) (wk_ID W) (wk_QueueName W) (wk_VisibilityTimeout W)) w = (Inr jobID, w') \<Longrightarrow>
    worker_run E B QB W (s, w)
      (s\<lparr>wt_Phase := Selecting, wt_Goroutines := Spawned jobID # wt_Goroutines s\<rparr>, w')"
| Begin: "wt_Goroutines s = gs @ Spawned jobID # hs \<Longrightarrow>
    run_state (attempt_begin E W jobID) w = (Some a, w') \<Longrightarrow>
    worker_run E B QB W (s, w) (s\<lparr>wt_Goroutines := gs @ Executing a # hs\<rparr>, w')"
| NotRun: "wt_Goroutines s = gs @ Spawned jobID # hs \<Longrightarrow>
    run_state (attempt_begin E W jobID) w = (None, w') \<Longrightarrow>
    worker_run E B QB W (s, w) (s\<lparr>wt_Sem := wt_Sem s - 1, wt_Goroutines := gs @ hs\<rparr>, w')"
| End: "wt_Goroutines s = gs @ Executing a # hs \<Longrightarrow>
    run_state (attempt_end E W a) w = (u, w') \<Longrightarrow>
    worker_run E B QB W (s, w) (s\<lparr>wt_Sem := wt_Sem s - 1, wt_Goroutines := gs @ hs\<rparr>, w')"
| Heartbeat: "wt_Phase s \<noteq> Stopped \<Longrightarrow> run_state (heartbeat_tick E W) w = (u, w') \<Longrightarrow>
    worker_run E B QB W (s, w) (s, w')"
| Recover: "wt_Phase s \<noteq> Stopped \<Longrightarrow> run_state (staleRecoveryLoop E W 1) w = (u, w') \<Longrightarrow>
    worker_run E B QB W (s, w) (s, w')"
| Sleep: "worker_run E B QB W (s, w) (s, w\<lparr>tick := Suc (tick w)\<rparr>)"
| Cancelled: "wt_Phase s = Selecting \<Longrightarrow> run_state (worker_drain B W) w = (u, w') \<Longrightarrow>
    worker_run E B QB W (s, w) (s\<lparr>wt_Phase := Draining\<rparr>, w')"
| Waited: "wt_Phase s = Draining \<Longrightarrow> wt_Goroutines s = [] \<Longrightarrow>
    run_state (worker_stop B (W\<lparr>wk_Q := QB\<rparr>)) w = (u, w') \<Longrightarrow>
    worker_run E B QB W (s, w) (s\<lparr>wt_Phase := Stopped\<rparr>, w')"

inductive_cases worker_runE: "worker_run E B QB W (s, w) (s', w')"

section \<open>The slots\<close>

definition threads_inv :: "'w worker_proc \<Rightarrow> worker_threads \<Rightarrow> bool" where
  "threads_inv W s \<longleftrightarrow>
     wt_Sem s = length (wt_Goroutines s) + (if wt_Phase s = Claiming then 1 else 0) \<and>
     int (wt_Sem s) \<le> max 0 (wk_Concurrency W) \<and> (wt_Phase s = Stopped \<longrightarrow> wt_Goroutines s = [])"

lemma threads_inv_init: "threads_inv W (fst (run_init E W w))"
  by (simp add: threads_inv_def run_init_def)

lemma threads_inv_step:
  assumes "worker_run E B QB W (s, w) (s', w')" and "threads_inv W s"
  shows "threads_inv W s'"
  using assms(1) by cases (use assms(2) in \<open>auto simp: threads_inv_def split: if_splits\<close>)

lemma threads_inv_reachable:
  assumes "(worker_run E B QB W)\<^sup>*\<^sup>* x y" and "threads_inv W (fst x)"
  shows "threads_inv W (fst y)"
  using assms
proof (induction)
  case (step y z)
  then show ?case using threads_inv_step [of E B QB W "fst y" "snd y" "fst z" "snd z"] by simp
qed simp

lemma keeps_run: "keeps J m \<Longrightarrow> run_state m w = (r, w') \<Longrightarrow> J w \<Longrightarrow> J w'"
  using keepsD [of J m w] by simp

section \<open>The jobs that run on a worker\<close>

text \<open>The rows that say they run on it, and the goroutines that run them.\<close>

definition running_on :: "string \<Rightarrow> db \<Rightarrow> uuid set" where
  "running_on wid d =
     {j_ID j |j. j \<in> set (jobs_table d) \<and> j_Status j = JobStatusRunning \<and> j_WorkerID j = Some wid}"

fun executes :: "goroutine \<Rightarrow> uuid set" where
  "executes (Spawned u) = {}"
| "executes (Executing (job, handler, startTime)) = {j_ID job}"

definition executing :: "goroutine list \<Rightarrow> uuid set" where
  "executing gs = (\<Union>g \<in> set gs. executes g)"

lemma executing_simps [simp]:
  "executing [] = {}" "executing (g # gs) = executes g \<union> executing gs"
  "executing (gs @ hs) = executing gs \<union> executing hs"
  by (auto simp: executing_def)

lemma card_executing: "card (executing gs) \<le> length gs"
proof (induction gs)
  case (Cons g gs)
  have "card (executes g) \<le> 1" by (cases g rule: executes.cases) simp_all
  then show ?case using Cons card_Un_le [of "executes g" "executing gs"] by simp
qed simp

lemma finite_executing: "finite (executing gs)"
proof -
  have "finite (executes g)" for g by (cases g rule: executes.cases) simp_all
  then show ?thesis by (simp add: executing_def)
qed

text \<open>How the statements of an attempt change those rows.\<close>

lemma running_on_clear:
  assumes "\<And>j. j_ID (f j) = j_ID j \<and> j_Status (f j) \<noteq> JobStatusRunning"
  shows "running_on wid (update_jobs (\<lambda>j. j_ID j = u) f d) \<subseteq> running_on wid d - {u}"
  using assms unfolding running_on_def update_jobs_def by (auto simp: rows)

lemma running_on_same: "jobs_table d' = jobs_table d \<Longrightarrow> running_on wid d' = running_on wid d"
  by (simp add: running_on_def)

lemma running_on_start:
  assumes "start_stmt (\<lambda>j. j_ID j = u \<and> q j) wid now d = (r, d')"
  shows "case r of Inl e \<Rightarrow> running_on k d' = running_on k d
    | Inr job \<Rightarrow> j_ID job = u \<and> running_on k d' \<subseteq> insert u (running_on k d)"
proof (cases r)
  case (Inl e)
  then have "d' = d \<or> returning (\<lambda>j. j_ID j = u \<and> q j) (run_job wid now) (jobs_table d) = [] \<and>
      d' = update_jobs (\<lambda>j. j_ID j = u \<and> q j) (run_job wid now) d"
    using assms by (auto simp: start_stmt_def query_row_def split: if_splits list.splits)
  moreover have "update_jobs (\<lambda>j. j_ID j = u \<and> q j) (run_job wid now) d = d"
    if "returning (\<lambda>j. j_ID j = u \<and> q j) (run_job wid now) (jobs_table d) = []"
    using that by (simp add: rows update_jobs_def update_where_none)
  ultimately show ?thesis using Inl by auto
next
  case (Inr job)
  then have d': "d' = update_jobs (\<lambda>j. j_ID j = u \<and> q j) (run_job wid now) d"
    and "job \<in> set (returning (\<lambda>j. j_ID j = u \<and> q j) (run_job wid now) (jobs_table d))"
    using assms by (auto simp: start_stmt_def query_row_def split: if_splits list.splits)
  then have "j_ID job = u" by (auto simp: rows run_job_def)
  moreover have "running_on k d' \<subseteq> insert u (running_on k d)"
    unfolding d' running_on_def by (auto simp: update_jobs_def rows run_job_def)
  ultimately show ?thesis using Inr by simp
qed

text \<open>
  \<open>confined T wid X\<close>: as long as no more than the first \<open>T\<close> calls have been made, the jobs that run on
  \<open>wid\<close> are among \<open>X\<close>.
\<close>

definition confined :: "nat \<Rightarrow> string \<Rightarrow> uuid set \<Rightarrow> 'z world \<Rightarrow> bool" where
  "confined T wid X w \<longleftrightarrow> T < tick w \<or> running_on wid (db w) \<subseteq> X"

text \<open>The others start no job in the worker's name.\<close>

definition spares :: "string \<Rightarrow> 'z env \<Rightarrow> bool" where
  "spares wid E \<longleftrightarrow> (\<forall>n d r. running_on wid (fst (others E n (d, r))) \<subseteq> running_on wid d)"

lemma confined_mono: "confined T wid X w \<Longrightarrow> X \<subseteq> Y \<Longrightarrow> confined T wid Y w"
  by (auto simp: confined_def)

lemma settle_running_on:
  assumes "spares wid E"
  shows "running_on wid (db (settle E w)) \<subseteq> running_on wid (db w)"
proof -
  have "db (settle E w) = fst (others E (tick w) (db w, rds w))"
    by (simp add: settle_def split: prod.split)
  then show ?thesis using assms by (simp add: spares_def)
qed

lemma valid_confined_pg:
  assumes "spares wid E" and "\<And>n. n < T \<Longrightarrow> fault E n = Delivered"
    and "\<And>n d r d'. f n d = (r, d') \<Longrightarrow> running_on wid d \<subseteq> X \<Longrightarrow> running_on wid d' \<subseteq> Y r"
  shows "valid (confined T wid X) (pg E f) (\<lambda>r. confined T wid (Y r))"
  unfolding valid_def
proof (intro allI impI)
  fix w :: "'a world"
  assume X: "confined T wid X w"
  show "confined T wid (Y (fst (run_state (pg E f) w))) (snd (run_state (pg E f) w))"
  proof (cases "tick w < T")
    case True
    then have "running_on wid (db (settle E w)) \<subseteq> X"
      using X settle_running_on [OF assms(1), of w] by (auto simp: confined_def)
    then show ?thesis
      using assms(2) [OF True] assms(3) [of "tick w" "db (settle E w)" "fst (f (tick w) (db (settle E w)))"
        "snd (f (tick w) (db (settle E w)))"]
      by (auto simp: confined_def pg_def call_def split_beta)
  next
    case False
    then show ?thesis
      by (auto simp: confined_def pg_def call_def split_beta split: outcome.split)
  qed
qed

text \<open>Calls made on the worker's behalf, whatever becomes of them.\<close>

locale spared_worker =
  fixes E :: "'z env" and T :: nat and wid :: string
  assumes spared: "spares wid E"
begin

abbreviation conf :: "uuid set \<Rightarrow> 'z world \<Rightarrow> bool" where
  "conf X \<equiv> confined T wid X"

lemma keeps_quiet_pg:
  assumes "\<And>n d. jobs_table (snd (f n d)) = jobs_table d"
  shows "keeps (conf X) (pg E f)"
proof (rule keepsI)
  fix w :: "'z world"
  assume "conf X w"
  then show "conf X (snd (run_state (pg E f) w))"
    using settle_running_on [OF spared, of w] running_on_same [OF assms, of wid]
    by (auto simp: confined_def pg_def call_def split_beta split: outcome.split)
qed

lemma keeps_conf_rcmd: "keeps (conf X) (rcmd E f)"
proof (rule keepsI)
  fix w :: "'z world"
  assume "conf X w"
  then show "conf X (snd (run_state (rcmd E f) w))"
    using settle_running_on [OF spared, of w]
    by (auto simp: confined_def rcmd_def call_def split_beta split: outcome.split)
qed

lemma keeps_conf_local [pres]:
  "keeps (conf X) (time_Now E)" "keeps (conf X) (rand_Float64 E)" "keeps (conf X) (emit cs)"
  "keeps (conf X) (exec_handler h p)"
  by (auto intro!: keepsI simp: confined_def time_Now_def rand_Float64_def emit_def exec_handler_def)

lemma keeps_conf_workers:
  "keeps (conf X) (WorkerStore_Register E k)" "keeps (conf X) (WorkerStore_Heartbeat E k)"
  "keeps (conf X) (WorkerStore_SetStatus E k st)" "keeps (conf X) (WorkerStore_IncrementCompleted E k)"
  "keeps (conf X) (WorkerStore_IncrementFailed E k)"
  unfolding WorkerStore_Register_def WorkerStore_Heartbeat_def WorkerStore_SetStatus_def
    WorkerStore_IncrementCompleted_def WorkerStore_IncrementFailed_def
  by (rule keeps_quiet_pg; simp add: register_stmt_def heartbeat_stmt_def set_status_stmt_def
      increment_completed_stmt_def increment_failed_stmt_def update_workers_def)+

lemma keeps_conf_when [pres]: "keeps J m \<Longrightarrow> keeps J (when_workers W m)"
  unfolding when_workers_def by (intro pres)

lemma keeps_conf_queue: "queue_keeps (conf X) (RedisQueue R U E)"
  unfolding queue_keeps_def RedisQueue_def queue_iface.simps RedisQueue_Enqueue_def
    RedisQueue_Claim_def RedisQueue_ClaimWithWeights_def RedisQueue_Ack_def RedisQueue_RequeueStale_def
    RedisQueue_Heartbeat_def RedisQueue_RemoveWorker_def RedisQueue_QueueLength_def
    RedisQueue_InProgressCount_def RedisQueue_GetQueueStats_def zcard_cmd_def Let_def
  by (intro conjI allI pres keeps_conf_rcmd)

lemma keeps_deferred:
  assumes "queue_keeps (conf X) q"
  shows "keeps (conf X) (worker_drain E W)" "keeps (conf X) (worker_stop E (W\<lparr>wk_Q := q\<rparr>))"
  unfolding worker_drain_def worker_stop_def
  by (intro pres keeps_conf_workers; simp add: queue_keepsD [OF assms])+

end

text \<open>The first \<open>T\<close> calls are delivered.\<close>

locale sound_worker = spared_worker E T wid for E :: "'z env" and T wid +
  assumes delivered: "\<And>n. n < T \<Longrightarrow> fault E n = Delivered"
begin

text \<open>The end of an attempt takes its job off the worker.\<close>

lemma valid_clear:
  assumes "\<And>n d. snd (f n d) = update_jobs (\<lambda>j. j_ID j = u) (g n) d"
    and "\<And>n j. j_ID (g n j) = j_ID j \<and> j_Status (g n j) \<noteq> JobStatusRunning"
  shows "valid (conf X) (pg E f) (\<lambda>_. conf (X - {u}))"
proof (rule valid_confined_pg [OF spared delivered])
  fix n d r d'
  assume "f n d = (r, d')" "running_on wid d \<subseteq> X"
  then show "running_on wid d' \<subseteq> X - {u}"
    using assms(1) [of n d] running_on_clear [of "g n" wid u d] assms(2) by auto
qed

lemma valid_clears:
  "valid (conf X) (JobStore_MarkSucceeded E u) (\<lambda>_. conf (X - {u}))"
  "valid (conf X) (JobStore_MarkFailed E u msg) (\<lambda>_. conf (X - {u}))"
  "valid (conf X) (JobStore_RecordFailure E u msg due) (\<lambda>_. conf (X - {u}))"
  unfolding JobStore_MarkSucceeded_def JobStore_MarkFailed_def JobStore_RecordFailure_def
    mark_succeeded_stmt_def mark_failed_stmt_def record_failure_stmt_def
  by (rule valid_clear, simp, simp add: succeed_job_def fail_job_def)+

text \<open>The start puts it on the worker, unless there is no row to run.\<close>

lemma claimed_id:
  assumes "run_state (JobStore_ClaimJob E u k) w = (Inr (Some job), w')"
  shows "j_ID job = u"
proof -
  obtain r where r: "run_state (pg E (\<lambda>n. claim_job_stmt u k (clock E n))) w = (r, w')"
    and "no_rows_nil r = Inr (Some job)"
    using assms by (auto simp: JobStore_ClaimJob_def split: prod.splits)
  then have "r = Inr job" by (auto simp: no_rows_nil_def split: sum.splits if_splits)
  from run_pg_cases [OF r [unfolded this]]
  obtain d where "claim_job_stmt u k (clock E (tick w)) (db (settle E w)) = (Inr job, d)"
    by (metis sum.distinct(1))
  from running_on_start [OF this [unfolded claim_job_stmt_def]] show ?thesis by simp
qed

lemma valid_claim:
  "valid (conf X) (JobStore_ClaimJob E u k)
     (\<lambda>r w. case r of Inr (Some job) \<Rightarrow> j_ID job = u \<and> conf (insert u X) w | _ \<Rightarrow> conf X w)"
proof -
  have "valid (conf X) (pg E (\<lambda>n. claim_job_stmt u k (clock E n)))
      (\<lambda>r. conf (case r of Inl e \<Rightarrow> X | Inr job \<Rightarrow> insert u X))"
  proof (rule valid_confined_pg [OF spared delivered])
    fix n d r d'
    assume "claim_job_stmt u k (clock E n) d = (r, d')" and X: "running_on wid d \<subseteq> X"
    from running_on_start [OF this(1) [unfolded claim_job_stmt_def], of wid] X
    show "running_on wid d' \<subseteq> (case r of Inl e \<Rightarrow> X | Inr job \<Rightarrow> insert u X)"
      by (auto split: sum.splits)
  qed
  then have "valid (conf X) (JobStore_ClaimJob E u k)
      (\<lambda>r. case r of Inr (Some job) \<Rightarrow> conf (insert u X) | _ \<Rightarrow> conf X)"
    unfolding JobStore_ClaimJob_def
    by (rule valid_bind) (auto simp: valid_def no_rows_nil_def split: sum.splits)
  moreover have "j_ID job = u" if "fst (run_state (JobStore_ClaimJob E u k) w) = Inr (Some job)" for w job
    using that claimed_id by (metis prod.collapse)
  ultimately show ?thesis
    unfolding valid_def by (fastforce split: sum.splits option.splits)
qed

end

text \<open>A worker whose queue is in the same environment.\<close>

locale sound_run = sound_worker E T wid for E :: "'z env" and T wid +
  fixes W :: "'z world worker_proc"
  assumes queue: "\<And>X. queue_keeps (confined T wid X) (wk_Q W)"
begin

lemmas keeps_queue = queue_keepsD [OF queue]

lemma keeps_loops:
  "keeps (conf X) (q_Claim (wk_Q W) k n vt)" "keeps (conf X) (heartbeat_tick E W)"
  "keeps (conf X) (staleRecoveryLoop E W m)" "keeps (conf X) (worker_start E W)"
  unfolding heartbeat_tick_def staleRecoveryLoop_def worker_start_def
  by (intro pres keeps_queue keeps_conf_workers)+

lemma valid_no_handler:
  "valid (conf (insert u X))
     (do {
        _ \<leftarrow> JobStore_MarkFailed E u msg;
        _ \<leftarrow> when_workers W (WorkerStore_IncrementFailed E k);
        _ \<leftarrow> q_Ack (wk_Q W) n u;
        State_Monad.return None
      })
     (\<lambda>_. conf X)"
proof (rule valid_bind [OF valid_clears(2)])
  have "keeps (conf (insert u X - {u})) (do {
        _ \<leftarrow> when_workers W (WorkerStore_IncrementFailed E k);
        _ \<leftarrow> q_Ack (wk_Q W) n u;
        State_Monad.return None
      })" by (intro pres keeps_queue keeps_conf_workers)
  then show "valid (conf (insert u X - {u})) (do {
        _ \<leftarrow> when_workers W (WorkerStore_IncrementFailed E k);
        _ \<leftarrow> q_Ack (wk_Q W) n u;
        State_Monad.return None
      }) (\<lambda>_. conf X)"
    by (rule valid_weaken [OF keeps_valid]) (auto elim: confined_mono)
qed

lemma valid_begin:
  "valid (conf X) (attempt_begin E W u)
     (\<lambda>a w. case a of None \<Rightarrow> conf X w | Some x \<Rightarrow> j_ID (fst x) = u \<and> conf (insert u X) w)"
  unfolding attempt_begin_def
proof (rule valid_bind [OF valid_claim], goal_cases)
  case (1 r)
  consider e where "r = Inl e" | "r = Inr None" | job where "r = Inr (Some job)"
    by (metis option.exhaust sum.exhaust)
  then show ?case
  proof cases
    case 2
    have "keeps (conf X) (do { _ \<leftarrow> q_Ack (wk_Q W) (wk_QueueName W) u; State_Monad.return (None :: attempt option) })"
      by (intro pres keeps_queue)
    then show ?thesis unfolding 2 by (auto simp: valid_def dest!: keepsD split: prod.splits)
  next
    case 3
    show ?thesis
    proof (cases "j_ID job = u")
      case True
      show ?thesis
      proof (cases "wk_Handlers W (j_Type job)")
        case None
        show ?thesis unfolding 3 using valid_no_handler [of u X] True None
          by (simp add: valid_def split_beta)
      qed (simp add: 3 valid_def True time_Now_def confined_def)
    qed (simp add: 3 valid_def)
  qed (simp add: valid_def)
qed

lemma valid_end:
  "valid (conf X) (attempt_end E W a) (\<lambda>_. conf (X - {j_ID (fst a)}))"
proof -
  obtain job h t where a: "a = (job, h, t)" by (cases a)
  let ?u = "j_ID job"
  have fail: "valid (conf X) (resolve_failure E W job msg el) (\<lambda>_. conf (X - {?u}))" for msg el
    unfolding resolve_failure_def Let_def
    by (rule valid_bind [OF keeps_valid], (intro pres keeps_conf_workers)[1])+
      (rule valid_bind [OF valid_clears(3)], rule keeps_valid, intro pres)
  have succeed: "valid (conf X) (resolve_success E W job el) (\<lambda>_. conf (X - {?u}))" for el
    unfolding resolve_success_def
    by (rule valid_bind [OF valid_clears(1)], rule keeps_valid, intro pres keeps_conf_workers)
  show ?thesis
    unfolding attempt_end_def a prod.case fst_conv
  proof (rule valid_bind [OF keeps_valid [OF keeps_conf_local(4)]],
      rule valid_bind [OF keeps_valid [OF keeps_conf_local(1)]], goal_cases)
    case (1 execErr endTime)
    show ?case
      by (rule valid_bind [where Q = "\<lambda>_. conf (X - {?u})"], (cases execErr; simp add: fail succeed),
        rule keeps_valid, intro pres keeps_queue)
  qed
qed

text \<open>Every step keeps the rows that run on the worker among the jobs its goroutines execute.\<close>

definition run_inv :: "'z running_worker \<Rightarrow> bool" where
  "run_inv x \<longleftrightarrow> conf (executing (wt_Goroutines (fst x))) (snd x)"

lemma executes_Executing: "executes (Executing a) = {j_ID (fst a)}"
  by (cases a) simp

lemma run_inv_step:
  assumes "spared_worker B wid" and "\<And>X. queue_keeps (conf X) QB" and inv: "run_inv (s, w)"
    and step: "worker_run E B QB W (s, w) (s', w')"
  shows "run_inv (s', w')"
  using step
proof cases
  case (Begin gs u hs a)
  from validD [OF valid_begin Begin(3)] inv Begin(1,2)
  have "j_ID (fst a) = u" "conf (insert u (executing (gs @ hs))) w'" by (simp_all add: run_inv_def)
  then show ?thesis using Begin(1) by (simp add: run_inv_def executes_Executing)
next
  case (NotRun gs u hs)
  from validD [OF valid_begin NotRun(3)] inv NotRun(1,2) show ?thesis by (simp add: run_inv_def)
next
  case (End gs a hs)
  have "conf (executing (gs @ Executing a # hs)) w" using inv End(2) by (simp add: run_inv_def)
  from validD [OF valid_end End(3) this] have "conf (executing gs \<union> executing hs) w'"
    by (rule confined_mono) (auto simp: executes_Executing)
  then show ?thesis using End(1) by (simp add: run_inv_def)
next
  case (ClaimFailed e)
  with keeps_run [OF keeps_loops(1) ClaimFailed(3)] inv show ?thesis by (simp add: run_inv_def)
next
  case (Claimed u)
  with keeps_run [OF keeps_loops(1) Claimed(3)] inv show ?thesis by (simp add: run_inv_def)
next
  case (Heartbeat u)
  with keeps_run [OF keeps_loops(2) Heartbeat(3)] inv show ?thesis by (simp add: run_inv_def)
next
  case (Recover u)
  with keeps_run [OF keeps_loops(3) Recover(3)] inv show ?thesis by (simp add: run_inv_def)
next
  case (Cancelled u)
  with keeps_run [OF spared_worker.keeps_deferred(1) [OF assms(1,2)] Cancelled(3)] inv
  show ?thesis by (simp add: run_inv_def)
next
  case (Waited u)
  with keeps_run [OF spared_worker.keeps_deferred(2) [OF assms(1,2)] Waited(4)] inv
  show ?thesis by (simp add: run_inv_def)
qed (use inv in \<open>auto simp: run_inv_def confined_def\<close>)

lemma run_inv_init:
  assumes "running_on wid (db w) = {}"
  shows "run_inv (run_init E W w)"
  using keepsD [OF keeps_loops(4), of "{}" w] assms by (simp add: run_inv_def run_init_def confined_def)

lemma run_inv_reachable:
  assumes "(worker_run E B QB W)\<^sup>*\<^sup>* x y" and "spared_worker B wid"
    and "\<And>X. queue_keeps (conf X) QB" and "run_inv x"
  shows "run_inv y"
  using assms(1,4)
proof (induction)
  case (step y z)
  then show ?case
    using run_inv_step [OF assms(2,3), of "fst y" "snd y" "fst z" "snd z"] by simp
qed

end

lemma sound_run_redis:
  assumes "spares wid E" and "\<And>n. n < T \<Longrightarrow> fault E n = Delivered" and "wk_Q W = RedisQueue R U E"
  shows "sound_run E T wid W"
  using assms spared_worker.keeps_conf_queue [OF spared_worker.intro [OF assms(1)]]
  by unfold_locales simp_all

lemma spares_quiet_env: "spares wid quiet_env"
  by (simp add: spares_def quiet_env_def)

interpretation quiet_run: sound_run "quiet_env :: zlist env" T "''w1''" demo_worker for T
  by (rule sound_run_redis [OF spares_quiet_env, where R = zlist_ops and U = hex_uuid_ops])
    (simp_all add: quiet_env_def demo_worker_def RegisterHandler_def NewWorker_def)

text \<open>
  C26. What runs is what the database says, with any number of goroutines in the middle of their
  attempts: as long as the calls made with the worker's context are delivered (until it is
  cancelled: the first \<open>T\<close> calls), every row that is RUNNING on the worker belongs to a job one of
  its goroutines is executing, so that never more than \<open>concurrency\<close> jobs run on it, whatever the
  handlers do, whatever is claimed twice, and whatever else the others do to the tables than
  starting jobs in this worker's name.
\<close>

theorem worker_runs_its_rows:
  assumes "spares (wk_ID W) E" and "spares (wk_ID W) B"
    and "\<And>n. n < T \<Longrightarrow> fault E n = Delivered"
    and "wk_Q W = RedisQueue R U E" and "QB = RedisQueue R U B"
    and "running_on (wk_ID W) (db w0) = {}"
    and "(worker_run E B QB W)\<^sup>*\<^sup>* (run_init E W w0) (s, w)" and "tick w \<le> T"
  shows "running_on (wk_ID W) (db w) \<subseteq> executing (wt_Goroutines s) \<and>
    int (card (running_on (wk_ID W) (db w))) \<le> max 0 (wk_Concurrency W)"
proof -
  have run: "sound_run E T (wk_ID W) W" by (rule sound_run_redis [OF assms(1,3,4)])
  have B: "spared_worker B (wk_ID W)" by (rule spared_worker.intro [OF assms(2)])
  have "sound_run.run_inv T (wk_ID W) (s, w)"
    by (rule sound_run.run_inv_reachable [OF run assms(7) B _ sound_run.run_inv_init [OF run assms(6)]])
      (simp add: assms(5) spared_worker.keeps_conf_queue [OF B])
  then have sub: "running_on (wk_ID W) (db w) \<subseteq> executing (wt_Goroutines s)"
    using assms(8) by (simp add: sound_run.run_inv_def [OF run] confined_def)
  then have "card (running_on (wk_ID W) (db w)) \<le> length (wt_Goroutines s)"
    by (rule order_trans [OF card_mono [OF finite_executing] card_executing])
  also have "\<dots> \<le> wt_Sem s"
    using threads_inv_reachable [OF assms(7) threads_inv_init] by (auto simp: threads_inv_def)
  finally show ?thesis
    using threads_inv_reachable [OF assms(7) threads_inv_init] sub by (auto simp: threads_inv_def)
qed

lemma demo_run_begins:
  obtains s w a where "(worker_run quiet_env quiet_env (RedisQueue zlist_ops hex_uuid_ops quiet_env) demo_worker)\<^sup>*\<^sup>*
      (run_init quiet_env demo_worker demo_jobs_world) (s, w)"
    and "wt_Goroutines s = [Executing a]" and "j_ID (fst a) = 7"
proof -
  let ?E = "quiet_env :: zlist env" and ?Q = "RedisQueue zlist_ops hex_uuid_ops quiet_env"
  let ?step = "worker_run ?E ?E ?Q demo_worker"
  let ?s0 = "\<lparr>wt_Phase = Selecting, wt_Sem = 0, wt_Goroutines = []\<rparr>"
  let ?w0 = "snd (run_state (worker_start ?E demo_worker) demo_jobs_world)"
  have W: "wk_Q demo_worker = ?Q" "wk_ID demo_worker = ''w1''" "wk_QueueName demo_worker = ''default''"
    "wk_Concurrency demo_worker = 1" "wk_Workers demo_worker"
    by (simp_all add: demo_worker_def RegisterHandler_def NewWorker_def DefaultQueue_def)
  have rds0: "rds ?w0 = rds demo_world" "jobs_table (db ?w0) = [demo_job 7 1]"
    by (simp_all add: worker_start_def when_workers_def W(5) WorkerStore_Register_def run_pg_reliable register_stmt_def
        demo_jobs_world_def empty_db_def)
  have ok0: "canonical_world zlist_ops hex_uuid_ops ?w0"
    by (rule zr.ok_same_redis [OF demo_canonical rds0(1)])
  obtain r w1 where claim: "run_state (q_Claim ?Q ''w1'' ''default'' (wk_VisibilityTimeout demo_worker)) ?w0 = (r, w1)"
    by fastforce
  then have "run_state (RedisQueue_Claim zlist_ops hex_uuid_ops ?E ''w1'' ''default''
      (wk_VisibilityTimeout demo_worker)) ?w0 = (r, w1)" by (simp add: RedisQueue_def)
  from redis_queue.Claim_run [OF redis_queue_undisturbed [OF zl_hex.redis_server_axioms
      undisturbed_reliable [OF reliable_quiet_env]] reliable_quiet_env ok0 this]
  have r: "r = Inr 7"
    by (auto simp: queue_name_def rds0 demo_served heads_def demo_scores hex.String_inj split: if_splits)
  have db1: "jobs_table (db w1) = [demo_job 7 1]"
    using dispatch_queue.claim [OF quiet_queue.axioms(1) [OF zr.quiet_queue_axioms] ok0 claim]
      zr.one_call_quiet [of _ w1] rds0(2) by metis
  obtain a w2 where start: "run_state (attempt_begin ?E demo_worker 7) w1 = (a, w2)" by fastforce
  have row: "job_row 7 (db w1) = Some (demo_job 7 1)" "distinct (map j_ID (jobs_table (db w1)))" by (simp_all add: db1)
  have "\<exists>x. a = Some x \<and> j_ID (fst x) = 7"
    using start by (simp add: attempt_begin_def run_ClaimJob claim_job_stmt_row [OF row(2,1)] no_rows_nil_def
        claimable_def int4_def demo_worker_parts time_Now_def run_job_def W)
      (auto simp: run_job_def demo_worker_parts time_Now_def split: option.splits)
  then obtain x where x: "a = Some x" "j_ID (fst x) = 7" by blast
  let ?s1 = "?s0\<lparr>wt_Phase := Claiming, wt_Sem := 1\<rparr>"
  let ?s2 = "?s1\<lparr>wt_Phase := Selecting, wt_Goroutines := [Spawned 7]\<rparr>"
  let ?s3 = "?s2\<lparr>wt_Goroutines := [Executing x]\<rparr>"
  have "?step (?s0, ?w0) (?s1, ?w0)" using worker_run.Acquire [of ?s0 demo_worker ?E ?E ?Q ?w0] by (simp add: W)
  moreover have "?step (?s1, ?w0) (?s2, w1)"
    using worker_run.Claimed [of ?s1 demo_worker ?w0 7 w1 ?E ?E ?Q] claim by (simp add: W r)
  moreover have "?step (?s2, w1) (?s3, w2)"
    using worker_run.Begin [of ?s2 "[]" 7 "[]" ?E demo_worker w1 x w2 ?E ?Q] start by (simp add: x)
  ultimately have "?step\<^sup>*\<^sup>* (run_init ?E demo_worker demo_jobs_world) (?s3, w2)"
    unfolding run_init_def by (meson rtranclp.rtrancl_into_rtrancl rtranclp.rtrancl_refl)
  then show ?thesis using that x(2) by fastforce
qed

theorem worker_runs_its_rows_witness:
  "\<exists>s w a. (worker_run quiet_env quiet_env (RedisQueue zlist_ops hex_uuid_ops quiet_env) demo_worker)\<^sup>*\<^sup>*
      (run_init quiet_env demo_worker demo_jobs_world) (s, w) \<and> wt_Goroutines s = [Executing a] \<and>
    running_on ''w1'' (db w) \<subseteq> {7} \<and> card (running_on ''w1'' (db w)) \<le> 1"
proof -
  obtain s w a where run: "(worker_run quiet_env quiet_env (RedisQueue zlist_ops hex_uuid_ops quiet_env) demo_worker)\<^sup>*\<^sup>*
      (run_init quiet_env demo_worker demo_jobs_world) (s, w)" "wt_Goroutines s = [Executing a]" "j_ID (fst a) = 7"
    by (rule demo_run_begins)
  have W: "wk_ID demo_worker = ''w1''" "wk_Concurrency demo_worker = 1"
    by (simp_all add: demo_worker_def RegisterHandler_def NewWorker_def)
  have none: "running_on (wk_ID demo_worker) (db demo_jobs_world) = {}"
    by (simp add: running_on_def demo_jobs_world_def)
  have exec: "executing (wt_Goroutines s) = {7}" using run(2,3) by (cases a) simp
  have "fault (quiet_env :: zlist env) n = Delivered" for n by (simp add: quiet_env_def)
  from worker_runs_its_rows [OF spares_quiet_env spares_quiet_env this demo_worker_parts(1) refl none run(1) order_refl]
  have "running_on ''w1'' (db w) \<subseteq> {7}" "card (running_on ''w1'' (db w)) \<le> 1" by (simp_all add: W exec)
  with run(1,2) show ?thesis by blast
qed

section \<open>What a run does to the database\<close>

context db_invariant
begin

lemma keeps_attempt_parts:
  assumes "queue_keeps inv (wk_Q W)"
  shows "keeps inv (attempt_begin E W u)" "keeps inv (attempt_end E W a)"
  unfolding attempt_begin_def attempt_end_def resolve_failure_def resolve_success_def
  by (intro pres queue_keepsD [OF assms])+

end

lemma worker_run_keeps:
  assumes E: "db_invariant I E" and B: "db_invariant I B"
    and Q: "queue_keeps (\<lambda>w. I (db w)) (wk_Q W)" and QB: "queue_keeps (\<lambda>w. I (db w)) QB"
    and inv: "I (db w)" and step: "worker_run E B QB W (s, w) (s', w')"
  shows "I (db w')"
proof -
  have stop: "queue_keeps (\<lambda>w. I (db w)) (wk_Q (W\<lparr>wk_Q := QB\<rparr>))" using QB by simp
  note parts = queue_keepsD(2) [OF Q] db_invariant.keeps_attempt_parts [OF E Q]
    db_invariant.keeps_worker_loops(2,3) [OF E Q] db_invariant.keeps_worker_loops(4) [OF B stop]
    db_invariant.keeps_worker_status(2) [OF B]
  from step inv show ?thesis by cases (auto dest: parts [THEN keeps_run])
qed

text \<open>
  C27. A worker's whole run is safe for the data: whatever faults strike, however its goroutines
  interleave, whenever it is cancelled and whatever statements the other processes issue meanwhile,
  the run takes the database from one state to another by statements of the program under their
  preconditions, and so keeps the invariant of the tables; and its semaphore holds one token for
  each goroutine and for a claim being made, never more than \<open>concurrency\<close>.
\<close>

theorem worker_run_guarantee:
  assumes "others_statements E" and "others_statements B"
    and "wk_Q W = RedisQueue R U E" and "QB = RedisQueue R U B"
    and "(worker_run E B QB W)\<^sup>*\<^sup>* (run_init E W w0) (s, w)"
  shows "db_step\<^sup>*\<^sup>* (db w0) (db w) \<and> (db_ok (db w0) \<longrightarrow> db_ok (db w)) \<and>
    wt_Sem s = length (wt_Goroutines s) + (if wt_Phase s = Claiming then 1 else 0) \<and>
    int (wt_Sem s) \<le> max 0 (wk_Concurrency W)"
proof -
  let ?I = "\<lambda>d. db_step\<^sup>*\<^sup>* (db w0) d"
  have E: "db_invariant ?I E" and B: "db_invariant ?I B"
    by (rule db_invariantI [OF _ assms(1)] db_invariantI [OF _ assms(2)]; simp)+
  have Q: "queue_keeps (\<lambda>w. ?I (db w)) (wk_Q W)" and QB: "queue_keeps (\<lambda>w. ?I (db w)) QB"
    using queue_keeps_RedisQueue [OF db_invariant.others [OF E]]
      queue_keeps_RedisQueue [OF db_invariant.others [OF B]] assms(3,4) by simp_all
  have "?I (db (snd y))" if "(worker_run E B QB W)\<^sup>*\<^sup>* (run_init E W w0) y" for y
    using that
  proof (induction)
    case base
    show ?case using keepsD [OF db_invariant.keeps_worker_status(1) [OF E], of w0] by (simp add: run_init_def)
  next
    case (step y z)
    from worker_run_keeps [OF E B Q QB step.IH, of "fst y" "fst z" "snd z"] step.hyps(2) show ?case by simp
  qed
  from this [OF assms(5)] have "db_step\<^sup>*\<^sup>* (db w0) (db w)" by simp
  then show ?thesis
    using db_ok_steps threads_inv_reachable [OF assms(5) threads_inv_init] by (auto simp: threads_inv_def)
qed

theorem worker_run_guarantee_witness:
  "\<exists>(s :: worker_threads) w a. wt_Goroutines s = [Executing a] \<and> wt_Sem s \<le> 1 \<and> db_ok (db (w :: zlist world)) \<and>
    db_step\<^sup>*\<^sup>* (db demo_jobs_world) (db w)"
proof -
  obtain s w a where run: "(worker_run quiet_env quiet_env (RedisQueue zlist_ops hex_uuid_ops quiet_env) demo_worker)\<^sup>*\<^sup>*
      (run_init quiet_env demo_worker demo_jobs_world) (s, w)" "wt_Goroutines s = [Executing a]"
    by (rule demo_run_begins)
  have "wk_Concurrency demo_worker = 1" by (simp add: demo_worker_def RegisterHandler_def NewWorker_def)
  with worker_run_guarantee [OF reliable_others [OF reliable_quiet_env] reliable_others [OF reliable_quiet_env]
      demo_worker_parts(1) refl run(1)] demo_jobs_row(2)
  have "db_step\<^sup>*\<^sup>* (db demo_jobs_world) (db w)" "db_ok (db w)" "wt_Sem s \<le> 1" by simp_all
  with run(2) show ?thesis by blast
qed

section \<open>It can always stop\<close>

text \<open>Whatever the calls answer, the goroutines end.\<close>

lemma goroutines_end:
  "\<exists>s' w'. (worker_run E B QB W)\<^sup>*\<^sup>* (s, w) (s', w') \<and> wt_Goroutines s' = [] \<and> wt_Phase s' = wt_Phase s"
proof (induction "wt_Goroutines s" arbitrary: s w)
  case Nil
  then show ?case by auto
next
  case (Cons g gs)
  note IH = Cons.hyps(1) and gs = Cons.hyps(2) [symmetric]
  let ?r = "worker_run E B QB W" and ?s1 = "s\<lparr>wt_Sem := wt_Sem s - 1, wt_Goroutines := gs\<rparr>"
  have ended: ?case if "?r\<^sup>*\<^sup>* (s, w) (s1, w1)" "wt_Goroutines s1 = gs" "wt_Phase s1 = wt_Phase s" for s1 w1
    using IH [of s1 w1] that by (metis rtranclp_trans)
  show ?case
  proof (cases g)
    case (Executing a)
    obtain w1 where "run_state (attempt_end E W a) w = ((), w1)" by (metis old.unit.exhaust surj_pair)
    from worker_run.End [of s "[]" a gs E W w "()" w1 B QB] this gs Executing
    have "?r (s, w) (?s1, w1)" by simp
    then show ?thesis using ended [of ?s1 w1] by auto
  next
    case (Spawned u)
    obtain x w1 where x: "run_state (attempt_begin E W u) w = (x, w1)" by fastforce
    show ?thesis
    proof (cases x)
      case None
      from worker_run.NotRun [of s "[]" u gs E W w w1 B QB] x gs Spawned None
      have "?r (s, w) (?s1, w1)" by simp
      then show ?thesis using ended [of ?s1 w1] by auto
    next
      case (Some a)
      let ?s2 = "s\<lparr>wt_Goroutines := Executing a # gs\<rparr>"
      from worker_run.Begin [of s "[]" u gs E W w a w1 B QB] x gs Spawned Some
      have 1: "?r (s, w) (?s2, w1)" by simp
      obtain w2 where "run_state (attempt_end E W a) w1 = ((), w2)" by (metis old.unit.exhaust surj_pair)
      from worker_run.End [of ?s2 "[]" a gs E W w1 "()" w2 B QB] this
      have "?r (?s2, w1) (?s2\<lparr>wt_Sem := wt_Sem s - 1, wt_Goroutines := gs\<rparr>, w2)" by simp
      with 1 have "?r\<^sup>*\<^sup>* (s, w) (?s2\<lparr>wt_Sem := wt_Sem s - 1, wt_Goroutines := gs\<rparr>, w2)" by auto
      then show ?thesis by (rule ended) simp_all
    qed
  qed
qed

lemma selecting_stops:
  assumes "wt_Phase s \<in> {Selecting, Draining}"
  shows "\<exists>s' w'. (worker_run E B QB W)\<^sup>*\<^sup>* (s, w) (s', w') \<and> wt_Phase s' = Stopped"
proof -
  let ?r = "worker_run E B QB W"
  have drained: "\<exists>s' w'. ?r\<^sup>*\<^sup>* (s, w) (s', w') \<and> wt_Phase s' = Stopped"
    if "wt_Phase s = Draining" "wt_Goroutines s = []" for s w
  proof -
    obtain w1 where "run_state (worker_stop B (W\<lparr>wk_Q := QB\<rparr>)) w = ((), w1)"
      by (metis old.unit.exhaust surj_pair)
    from worker_run.Waited [OF that this] have "?r (s, w) (s\<lparr>wt_Phase := Stopped\<rparr>, w1)" .
    then show ?thesis by (intro exI [of _ "s\<lparr>wt_Phase := Stopped\<rparr>"] exI [of _ w1]) auto
  qed
  obtain s1 w1 where 1: "?r\<^sup>*\<^sup>* (s, w) (s1, w1)" "wt_Goroutines s1 = []" "wt_Phase s1 = wt_Phase s"
    using goroutines_end by blast
  show ?thesis
  proof (cases "wt_Phase s = Draining")
    case True
    then show ?thesis using drained [of s1 w1] 1 by (metis rtranclp_trans)
  next
    case False
    then have sel: "wt_Phase s1 = Selecting" using assms 1(3) by simp
    obtain w2 where "run_state (worker_drain B W) w1 = ((), w2)" by (metis old.unit.exhaust surj_pair)
    from worker_run.Cancelled [OF sel this] have "?r (s1, w1) (s1\<lparr>wt_Phase := Draining\<rparr>, w2)" .
    with 1(1) have "?r\<^sup>*\<^sup>* (s, w) (s1\<lparr>wt_Phase := Draining\<rparr>, w2)" by (rule rtranclp.rtrancl_into_rtrancl)
    moreover obtain s' w' where "?r\<^sup>*\<^sup>* (s1\<lparr>wt_Phase := Draining\<rparr>, w2) (s', w')" "wt_Phase s' = Stopped"
      using drained [of "s1\<lparr>wt_Phase := Draining\<rparr>" w2] 1(2) by auto
    ultimately show ?thesis by (meson rtranclp_trans)
  qed
qed

lemma run_stops:
  assumes "wt_Phase s \<noteq> Stopped"
  shows "\<exists>s' w'. (worker_run E B QB W)\<^sup>*\<^sup>* (s, w) (s', w') \<and> wt_Phase s' = Stopped"
proof (cases "wt_Phase s")
  case Claiming
  obtain r w1 where r: "run_state (q_Claim (wk_Q W) (wk_ID W) (wk_QueueName W) (wk_VisibilityTimeout W)) w = (r, w1)"
    by fastforce
  obtain s1 where "worker_run E B QB W (s, w) (s1, w1)" "wt_Phase s1 = Selecting"
  proof (cases r)
    case (Inl e)
    from worker_run.ClaimFailed [OF Claiming r [unfolded Inl]] that show ?thesis by fastforce
  next
    case (Inr u)
    from worker_run.Claimed [OF Claiming r [unfolded Inr]] that show ?thesis by fastforce
  qed
  moreover from this(2) obtain s' w' where "(worker_run E B QB W)\<^sup>*\<^sup>* (s1, w1) (s', w')" "wt_Phase s' = Stopped"
    using selecting_stops [of s1 E B QB W w1] by auto
  ultimately show ?thesis by (meson converse_rtranclp_into_rtranclp)
qed (use assms selecting_stops [of s E B QB W w] in auto)

text \<open>
  C28. A worker can always stop, with whatever it is in the middle of: from every state of a run,
  with any number of attempts going on and whether or not any of its calls succeeds, there is a way
  to the stopped state (the claim being made answers, the context is cancelled, the attempts end,
  the wait returns); and a worker that has stopped has no goroutine left and makes no call any more.
\<close>

theorem worker_run_can_stop:
  assumes "(worker_run E B QB W)\<^sup>*\<^sup>* (run_init E W w0) (s, w)"
  shows "(\<exists>s' w'. (worker_run E B QB W)\<^sup>*\<^sup>* (s, w) (s', w') \<and> wt_Phase s' = Stopped) \<and>
    (wt_Phase s = Stopped \<longrightarrow> wt_Goroutines s = [] \<and> wt_Sem s = 0 \<and>
       (\<forall>s' w'. worker_run E B QB W (s, w) (s', w') \<longrightarrow> s' = s \<and> db w' = db w \<and> rds w' = rds w))"
proof
  show "\<exists>s' w'. (worker_run E B QB W)\<^sup>*\<^sup>* (s, w) (s', w') \<and> wt_Phase s' = Stopped"
    using run_stops [of s E B QB W w] by (cases "wt_Phase s = Stopped") auto
  have inv: "threads_inv W s" using threads_inv_reachable [OF assms threads_inv_init] by simp
  show "wt_Phase s = Stopped \<longrightarrow> wt_Goroutines s = [] \<and> wt_Sem s = 0 \<and>
      (\<forall>s' w'. worker_run E B QB W (s, w) (s', w') \<longrightarrow> s' = s \<and> db w' = db w \<and> rds w' = rds w)"
  proof (intro impI conjI allI)
    assume stop: "wt_Phase s = Stopped"
    then show none: "wt_Goroutines s = []" "wt_Sem s = 0" using inv by (simp_all add: threads_inv_def)
    fix s' w'
    assume "worker_run E B QB W (s, w) (s', w')"
    then show "s' = s" "db w' = db w" "rds w' = rds w" by (cases; use stop none in simp)+
  qed
qed

theorem worker_run_can_stop_witness:
  "\<exists>s w a s' w'. wt_Goroutines s = [Executing a] \<and>
    (worker_run quiet_env quiet_env (RedisQueue zlist_ops hex_uuid_ops quiet_env) demo_worker)\<^sup>*\<^sup>* (s, w) (s', w') \<and>
    wt_Phase s' = Stopped"
proof -
  obtain s w a where run: "(worker_run quiet_env quiet_env (RedisQueue zlist_ops hex_uuid_ops quiet_env) demo_worker)\<^sup>*\<^sup>*
      (run_init quiet_env demo_worker demo_jobs_world) (s, w)" "wt_Goroutines s = [Executing a]"
    by (rule demo_run_begins)
  from worker_run_can_stop [OF run(1)] run(2) show ?thesis by blast
qed

end
