(* ===== verification/Handlers.thy ===== *)
theory Handlers
  imports Worker
begin

text \<open>
  \<open>internal/engine/handlers.go\<close>: the job handlers compiled into the worker. Decoding a payload with
  \<open>encoding/json\<close> is a parameter (an error text, or the fields); so is the job's context,
  \<open>done d n\<close>: the error of the context when it ends before a timer of duration \<open>d\<close> started at the
  moment \<open>n\<close> fires, \<open>None\<close> when the timer wins.
\<close>

type_synonym job_context = "duration \<Rightarrow> nat \<Rightarrow> string option"

record email_payload =
  em_Recipient :: string
  em_Subject :: string
  em_Body :: string

definition HandleSendEmail :: "(string \<Rightarrow> string + email_payload) \<Rightarrow> job_context \<Rightarrow> handler_func" where
  "HandleSendEmail decode ended payload n =
     (case decode payload of
        Inl err \<Rightarrow> Some (''invalid email payload: '' @ err)
      | Inr p \<Rightarrow>
          if em_Recipient p = '''' then Some ''recipient is required''
          else ended (200 * millisecond) n)"

record report_payload =
  rp_ReportType :: string
  rp_UserID :: string

definition HandleGenerateReport :: "(string \<Rightarrow> string + report_payload) \<Rightarrow> job_context \<Rightarrow> handler_func" where
  "HandleGenerateReport decode ended payload n =
     (case decode payload of
        Inl err \<Rightarrow> Some (''invalid report payload: '' @ err)
      | Inr p \<Rightarrow>
          if rp_ReportType p = '''' then Some ''report_type is required''
          else ended (500 * millisecond) n)"

record webhook_payload =
  wh_URL :: string
  wh_Method :: string
  wh_Headers :: "(string \<times> string) list"

definition HandleWebhookDelivery :: "(string \<Rightarrow> string + webhook_payload) \<Rightarrow> job_context \<Rightarrow> handler_func" where
  "HandleWebhookDelivery decode ended payload n =
     (case decode payload of
        Inl err \<Rightarrow> Some (''invalid webhook payload: '' @ err)
      | Inr p \<Rightarrow>
          if wh_URL p = '''' then Some ''url is required''
          else ended (150 * millisecond) n)"

text \<open>When a handler succeeds: the payload decodes, its required field is there, the context lasts.\<close>

lemma handler_success:
  "HandleSendEmail dec ended payload n = None \<longleftrightarrow>
     (\<exists>p. dec payload = Inr p \<and> em_Recipient p \<noteq> '''' \<and> ended (200 * millisecond) n = None)"
  "HandleGenerateReport dec' ended payload n = None \<longleftrightarrow>
     (\<exists>p. dec' payload = Inr p \<and> rp_ReportType p \<noteq> '''' \<and> ended (500 * millisecond) n = None)"
  "HandleWebhookDelivery dec'' ended payload n = None \<longleftrightarrow>
     (\<exists>p. dec'' payload = Inr p \<and> wh_URL p \<noteq> '''' \<and> ended (150 * millisecond) n = None)"
  by (auto simp: HandleSendEmail_def HandleGenerateReport_def HandleWebhookDelivery_def split: sum.splits)

end
