(* ===== verification/Router.thy ===== *)
theory Router
  imports Api
begin

text \<open>
  \<open>internal/api/routes.go\<close>: the route table on \<open>net/http\<close>'s \<open>ServeMux\<close> and the middleware around it.
  An \<open>http_handler\<close> is given the request and the response headers set so far, and gives the
  headers and what it wrote, or \<open>None\<close> when it panicked before writing. Decoding a body with
  \<open>encoding/json\<close> is a parameter (\<open>None\<close>: an error), as is \<open>promhttp.Handler()\<close>.
\<close>

section \<open>Requests and replies\<close>

record http_request =
  ht_Method :: string
  ht_Path :: string
  ht_Query :: "string \<Rightarrow> string"
  ht_Header :: "string \<Rightarrow> string"
  ht_Body :: string

datatype http_body = NoBody | Envelope response | Plain string | Page string | Moved string

type_synonym headers = "string \<rightharpoonup> string"

type_synonym 'w http_handler =
  "http_request \<Rightarrow> headers \<Rightarrow> ('w, headers \<times> (int \<times> http_body) option) state"

record json_decoders =
  js_Job :: "string \<Rightarrow> create_job_request option"
  js_Workflow :: "string \<Rightarrow> create_workflow_request option"

section \<open>\<open>ServeMux\<close>\<close>

fun split_slash :: "string \<Rightarrow> string list" where
  "split_slash [] = [[]]"
| "split_slash (c # cs) =
     (if c = CHR ''/'' then [] # split_slash cs
      else (case split_slash cs of [] \<Rightarrow> [[c]] | s # ss \<Rightarrow> (c # s) # ss))"

text \<open>\<open>path.Clean\<close> of a rooted path, and the mux's \<open>cleanPath\<close>, which keeps a final slash.\<close>

fun clean_segs :: "string list \<Rightarrow> string list \<Rightarrow> string list" where
  "clean_segs acc [] = rev acc"
| "clean_segs acc (s # ss) =
     (if s = [] \<or> s = ''.'' then clean_segs acc ss
      else if s = ''..'' then clean_segs (tl acc) ss
      else clean_segs (s # acc) ss)"

definition join_path :: "string list \<Rightarrow> string" where
  "join_path ss = (if ss = [] then ''/'' else concat (map (\<lambda>s. CHR ''/'' # s) ss))"

definition cleanPath :: "string \<Rightarrow> string" where
  "cleanPath p =
     (if p = [] then ''/''
      else let np = join_path (clean_segs [] (split_slash p))
           in if last p = CHR ''/'' \<and> np \<noteq> ''/'' then np @ ''/'' else np)"

text \<open>\<open>pathUnescape\<close>: percent escapes are decoded, unless one is malformed.\<close>

definition hex_value :: "char \<Rightarrow> nat option" where
  "hex_value c =
     (let n = (of_char c :: nat)
      in if 48 \<le> n \<and> n \<le> 57 then Some (n - 48)
         else if 97 \<le> n \<and> n \<le> 102 then Some (n - 87)
         else if 65 \<le> n \<and> n \<le> 70 then Some (n - 55) else None)"

fun unescape :: "string \<Rightarrow> string option" where
  "unescape [] = Some []"
| "unescape (c # cs) =
     (if c \<noteq> CHR ''%'' then map_option ((#) c) (unescape cs)
      else (case cs of
          a # b # r \<Rightarrow>
            (case (hex_value a, hex_value b) of
               (Some x, Some y) \<Rightarrow> map_option ((#) (char_of (16 * x + y))) (unescape r)
             | _ \<Rightarrow> None)
        | _ \<Rightarrow> None))"

definition pathUnescape :: "string \<Rightarrow> string" where
  "pathUnescape s = (case unescape s of None \<Rightarrow> s | Some t \<Rightarrow> t)"

text \<open>The segments a path is matched by; a final slash is the segment \<open>/\<close>.\<close>

definition path_segments :: "string \<Rightarrow> string list" where
  "path_segments p =
     (let ss = map pathUnescape (tl (split_slash p))
      in if ss \<noteq> [] \<and> last ss = [] then butlast ss @ [''/''] else ss)"

datatype pattern_seg = Lit string | Wild

definition pattern_segments :: "string \<Rightarrow> pattern_seg list" where
  "pattern_segments p =
     map (\<lambda>s. if s \<noteq> [] \<and> hd s = CHR ''{'' then Wild else Lit s) (tl (split_slash p))"

text \<open>What the wildcards of a pattern match, if it matches.\<close>

fun match_segments :: "pattern_seg list \<Rightarrow> string list \<Rightarrow> string list option" where
  "match_segments [] [] = Some []"
| "match_segments (Lit l # ps) (s # ss) = (if s = l then match_segments ps ss else None)"
| "match_segments (Wild # ps) (s # ss) =
     (if s = ''/'' then None else map_option ((#) s) (match_segments ps ss))"
| "match_segments _ _ = None"

datatype endpoint =
    EHealth | EMetrics | ECreateJob | EListJobs | EGetJob | ECancelJob | ERetryJob | EGetStats
  | ECreateWorkflow | EListWorkflows | EGetWorkflow | ECancelWorkflow | EListWorkers
  | EGetQueueStats

type_synonym route = "string \<times> string \<times> endpoint"

definition routes :: "route list" where
  "routes =
     [(''GET'', ''/health'', EHealth),
      (''GET'', ''/metrics'', EMetrics),
      (''POST'', ''/api/v1/jobs'', ECreateJob),
      (''GET'', ''/api/v1/jobs'', EListJobs),
      (''GET'', ''/api/v1/jobs/{id}'', EGetJob),
      (''POST'', ''/api/v1/jobs/{id}/cancel'', ECancelJob),
      (''POST'', ''/api/v1/jobs/{id}/retry'', ERetryJob),
      (''GET'', ''/api/v1/stats'', EGetStats),
      (''POST'', ''/api/v1/workflows'', ECreateWorkflow),
      (''GET'', ''/api/v1/workflows'', EListWorkflows),
      (''GET'', ''/api/v1/workflows/{id}'', EGetWorkflow),
      (''POST'', ''/api/v1/workflows/{id}/cancel'', ECancelWorkflow),
      (''GET'', ''/api/v1/workers'', EListWorkers),
      (''GET'', ''/api/v1/queues'', EGetQueueStats)]"

text \<open>A \<open>GET\<close> pattern also serves \<open>HEAD\<close>.\<close>

definition method_matches :: "string \<Rightarrow> string \<Rightarrow> bool" where
  "method_matches pm m \<longleftrightarrow> pm = m \<or> pm = ''GET'' \<and> m = ''HEAD''"

definition route_match :: "string \<Rightarrow> string list \<Rightarrow> route \<Rightarrow> (endpoint \<times> string list) option" where
  "route_match m segs r =
     (case r of (pm, pat, ep) \<Rightarrow>
        if method_matches pm m
        then map_option (Pair ep) (match_segments (pattern_segments pat) segs) else None)"

definition find_route :: "string \<Rightarrow> string list \<Rightarrow> (endpoint \<times> string list) option" where
  "find_route m segs =
     (case List.map_filter (route_match m segs) routes of [] \<Rightarrow> None | x # _ \<Rightarrow> Some x)"

text \<open>\<open>matchingMethods\<close>, for the \<open>Allow\<close> header.\<close>

definition allowed_methods :: "string list \<Rightarrow> string list" where
  "allowed_methods segs =
     (let ms = map fst (filter (\<lambda>(pm, pat, ep). match_segments (pattern_segments pat) segs \<noteq> None) routes)
      in sort (remdups (if ''GET'' \<in> set ms then ''HEAD'' # ms else ms)))"

fun join_comma :: "string list \<Rightarrow> string" where
  "join_comma [] = []"
| "join_comma [s] = s"
| "join_comma (s # t # ss) = s @ '', '' @ join_comma (t # ss)"

definition http_Error :: "int \<Rightarrow> string \<Rightarrow> headers \<Rightarrow> headers \<times> (int \<times> http_body) option" where
  "http_Error code text hs =
     (hs(''Content-Type'' \<mapsto> ''text/plain; charset=utf-8'', ''X-Content-Type-Options'' \<mapsto> ''nosniff''),
      Some (code, Plain text))"

definition ServeMux ::
  "(endpoint \<Rightarrow> string list \<Rightarrow> 'w http_handler) \<Rightarrow> 'w http_handler" where
  "ServeMux run rq hs =
     (let path = (if ht_Method rq = ''CONNECT'' then ht_Path rq else cleanPath (ht_Path rq));
          segs = path_segments path
      in if path \<noteq> ht_Path rq
         then State_Monad.return (hs(''Location'' \<mapsto> path), Some (301, Moved path))
         else (case find_route (ht_Method rq) segs of
             Some (ep, ps) \<Rightarrow> run ep ps rq hs
           | None \<Rightarrow>
               State_Monad.return
                 (let ms = allowed_methods segs
                  in if ms \<noteq> []
                     then http_Error 405 ''Method Not Allowed'' (hs(''Allow'' \<mapsto> join_comma ms))
                     else http_Error 404 ''404 page not found'' hs)))"

section \<open>The handlers behind the routes\<close>

definition NewHandler ::
  "bool \<Rightarrow> 'w queue_iface option \<Rightarrow> 'w workflow_engine option \<Rightarrow> 'w handler" where
  "NewHandler workers q workflowEngine = \<lparr>h_Workers = workers, h_Q = q, h_Engine = workflowEngine\<rparr>"

definition api_request :: "http_request \<Rightarrow> string list \<Rightarrow> request" where
  "api_request rq ps =
     \<lparr>rq_PathID = (case ps of [] \<Rightarrow> [] | p # _ \<Rightarrow> p),
      rq_IdempotencyKey = ht_Header rq ''Idempotency-Key'', rq_Query = ht_Query rq\<rparr>"

text \<open>\<open>respondJSON\<close>, \<open>respondList\<close> and \<open>respondError\<close> set the content type, write the status, then the envelope.\<close>

definition write_response :: "headers \<Rightarrow> response \<Rightarrow> headers \<times> (int \<times> http_body) option" where
  "write_response hs r =
     ((if rp_Replay r then hs(''X-Idempotent-Replay'' \<mapsto> ''true'') else hs)(''Content-Type'' \<mapsto> ''application/json''),
      Some (rp_Status r, Envelope r))"

definition api_endpoint ::
  "json_decoders \<Rightarrow> (degrees \<Rightarrow> degrees) \<Rightarrow> uuid_ops \<Rightarrow> 'z env \<Rightarrow> 'z world handler \<Rightarrow>
   endpoint \<Rightarrow> string list \<Rightarrow> http_request \<Rightarrow> ('z world, response) state" where
  "api_endpoint J ord U E h ep ps rq =
     (let r = api_request rq ps in
      case ep of
        ECreateJob \<Rightarrow> CreateJob E h r (js_Job J (ht_Body rq))
      | EListJobs \<Rightarrow> ListJobs E r
      | EGetJob \<Rightarrow> GetJob U E r
      | ECancelJob \<Rightarrow> CancelJob U E h r
      | ERetryJob \<Rightarrow> RetryJob U E h r
      | EGetStats \<Rightarrow> GetStats E h
      | ECreateWorkflow \<Rightarrow> CreateWorkflow ord U E h (js_Workflow J (ht_Body rq))
      | EListWorkflows \<Rightarrow> ListWorkflows E r
      | EGetWorkflow \<Rightarrow> GetWorkflow U E r
      | ECancelWorkflow \<Rightarrow> CancelWorkflow U E r
      | EListWorkers \<Rightarrow> ListWorkers E h
      | EGetQueueStats \<Rightarrow> GetQueueStats h r
      | _ \<Rightarrow> HealthCheck)"

definition run_endpoint ::
  "'z world http_handler \<Rightarrow> json_decoders \<Rightarrow> (degrees \<Rightarrow> degrees) \<Rightarrow> uuid_ops \<Rightarrow> 'z env \<Rightarrow>
   'z world handler \<Rightarrow> endpoint \<Rightarrow> string list \<Rightarrow> 'z world http_handler" where
  "run_endpoint promhttp J ord U E h ep ps rq hs =
     (if ep = EMetrics then promhttp rq hs
      else do {
        r \<leftarrow> api_endpoint J ord U E h ep ps rq;
        State_Monad.return (write_response hs r)
      })"

section \<open>The middleware\<close>

definition requestLogger :: "'w http_handler \<Rightarrow> 'w http_handler" where
  "requestLogger next_handler rq hs = next_handler rq hs"

definition recoverPanic :: "'w http_handler \<Rightarrow> 'w http_handler" where
  "recoverPanic next_handler rq hs = do {
     x \<leftarrow> next_handler rq hs;
     State_Monad.return (case x of
       (hs', None) \<Rightarrow> write_response hs' (respondError 500 ''internal server error'')
     | (hs', Some r) \<Rightarrow> (hs', Some r))
   }"

definition cors_headers :: "headers \<Rightarrow> headers" where
  "cors_headers hs =
     hs(''Access-Control-Allow-Origin'' \<mapsto> ''*'',
        ''Access-Control-Allow-Methods'' \<mapsto> ''GET, POST, PUT, DELETE, OPTIONS'',
        ''Access-Control-Allow-Headers'' \<mapsto> ''Content-Type, Authorization, Idempotency-Key'',
        ''Access-Control-Expose-Headers'' \<mapsto> ''X-Idempotent-Replay'')"

definition corsMiddleware :: "'w http_handler \<Rightarrow> 'w http_handler" where
  "corsMiddleware next_handler rq hs =
     (let hs' = cors_headers hs
      in if ht_Method rq = ''OPTIONS'' then State_Monad.return (hs', Some (204, NoBody))
         else next_handler rq hs')"

definition NewRouter ::
  "'z world http_handler \<Rightarrow> json_decoders \<Rightarrow> (degrees \<Rightarrow> degrees) \<Rightarrow> uuid_ops \<Rightarrow> 'z env \<Rightarrow> bool \<Rightarrow>
   'z world queue_iface option \<Rightarrow> 'z world workflow_engine option \<Rightarrow> 'z world http_handler" where
  "NewRouter promhttp J ord U E workers q workflowEngine =
     (let h = NewHandler workers q workflowEngine;
          mux = ServeMux (run_endpoint promhttp J ord U E h)
      in recoverPanic (requestLogger (corsMiddleware mux)))"

end
