(* ===== verification/Router_Props.thy ===== *)
theory Router_Props
  imports Router Queue_Props
begin

text \<open>
  What the router promises: the routes never compete, every path built from a route's pattern
  reaches that route with the path parameter intact, the middleware's headers are on every reply,
  and requests with a safe method change neither PostgreSQL nor Redis.
\<close>

section \<open>Paths\<close>

text \<open>A segment the mux takes as it stands.\<close>

definition plain_segment :: "string \<Rightarrow> bool" where
  "plain_segment s \<longleftrightarrow>
     s \<noteq> [] \<and> CHR ''/'' \<notin> set s \<and> CHR ''%'' \<notin> set s \<and> s \<noteq> ''.'' \<and> s \<noteq> ''..''"

lemma split_slash_not_Nil [simp]: "split_slash s \<noteq> []"
  by (induction s) (auto split: list.splits)

lemma split_slash_append:
  "CHR ''/'' \<notin> set s \<Longrightarrow> split_slash (s @ CHR ''/'' # r) = s # split_slash r"
  by (induction s) auto

lemma split_slash_single: "CHR ''/'' \<notin> set s \<Longrightarrow> split_slash s = [s]"
  by (induction s) auto

lemma split_join:
  "ss \<noteq> [] \<Longrightarrow> list_all plain_segment ss \<Longrightarrow> split_slash (join_path ss) = [] # ss"
proof (induction ss)
  case (Cons s ss)
  then show ?case
    by (cases ss) (simp_all add: join_path_def plain_segment_def split_slash_append split_slash_single)
qed simp

lemma clean_segs_plain: "list_all plain_segment ss \<Longrightarrow> clean_segs acc ss = rev acc @ ss"
  by (induction ss arbitrary: acc) (simp_all add: plain_segment_def)

lemma last_join:
  assumes "ss \<noteq> []" and "list_all plain_segment ss"
  shows "last (join_path ss) \<noteq> CHR ''/''"
proof -
  obtain ts s where ss: "ss = ts @ [s]" using assms(1) by (metis rev_exhaust)
  have s: "s \<noteq> []" "CHR ''/'' \<notin> set s" using assms(2) by (simp_all add: ss plain_segment_def)
  then have "last (join_path ss) = last s" by (simp add: ss join_path_def)
  then show ?thesis using s last_in_set by metis
qed

lemma cleanPath_join:
  assumes "ss \<noteq> []" and "list_all plain_segment ss"
  shows "cleanPath (join_path ss) = join_path ss"
proof -
  have "join_path ss \<noteq> []" by (simp add: join_path_def)
  then show ?thesis
    using last_join [OF assms] split_join [OF assms] clean_segs_plain [OF assms(2)]
    by (simp add: cleanPath_def Let_def)
qed

lemma unescape_plain: "CHR ''%'' \<notin> set s \<Longrightarrow> unescape s = Some s"
  by (induction s) auto

lemma path_segments_join:
  assumes "ss \<noteq> []" and "list_all plain_segment ss"
  shows "path_segments (join_path ss) = ss"
proof -
  have "map pathUnescape ss = ss"
    using assms(2) by (intro map_idI) (auto simp: list_all_iff plain_segment_def pathUnescape_def
        unescape_plain)
  moreover have "last ss \<noteq> []" using assms by (auto simp: list_all_iff plain_segment_def)
  ultimately show ?thesis using split_join [OF assms] by (simp add: path_segments_def)
qed

section \<open>Patterns\<close>

text \<open>A path for a pattern: its wildcard replaced by a segment.\<close>

definition fill :: "string \<Rightarrow> pattern_seg \<Rightarrow> string" where
  "fill s p = (case p of Lit l \<Rightarrow> l | Wild \<Rightarrow> s)"

definition fill_path :: "string \<Rightarrow> string \<Rightarrow> string" where
  "fill_path pat s = join_path (map (fill s) (pattern_segments pat))"

lemma match_fill:
  "s \<noteq> ''/'' \<Longrightarrow> match_segments ps (map (fill s) ps) = Some (map (\<lambda>_. s) (filter ((=) Wild) ps))"
proof (induction ps)
  case (Cons p ps)
  then show ?case by (cases p) (simp_all add: fill_def)
qed simp

text \<open>The patterns of the table, split.\<close>

lemma route_patterns:
  "pattern_segments ''/health'' = [Lit ''health'']"
  "pattern_segments ''/metrics'' = [Lit ''metrics'']"
  "pattern_segments ''/api/v1/jobs'' = [Lit ''api'', Lit ''v1'', Lit ''jobs'']"
  "pattern_segments ''/api/v1/jobs/{id}'' = [Lit ''api'', Lit ''v1'', Lit ''jobs'', Wild]"
  "pattern_segments ''/api/v1/jobs/{id}/cancel'' =
     [Lit ''api'', Lit ''v1'', Lit ''jobs'', Wild, Lit ''cancel'']"
  "pattern_segments ''/api/v1/jobs/{id}/retry'' =
     [Lit ''api'', Lit ''v1'', Lit ''jobs'', Wild, Lit ''retry'']"
  "pattern_segments ''/api/v1/stats'' = [Lit ''api'', Lit ''v1'', Lit ''stats'']"
  "pattern_segments ''/api/v1/workflows'' = [Lit ''api'', Lit ''v1'', Lit ''workflows'']"
  "pattern_segments ''/api/v1/workflows/{id}'' = [Lit ''api'', Lit ''v1'', Lit ''workflows'', Wild]"
  "pattern_segments ''/api/v1/workflows/{id}/cancel'' =
     [Lit ''api'', Lit ''v1'', Lit ''workflows'', Wild, Lit ''cancel'']"
  "pattern_segments ''/api/v1/workers'' = [Lit ''api'', Lit ''v1'', Lit ''workers'']"
  "pattern_segments ''/api/v1/queues'' = [Lit ''api'', Lit ''v1'', Lit ''queues'']"
  by code_simp+

lemma match_Nil: "match_segments [] ss = Some qs \<longleftrightarrow> ss = [] \<and> qs = []"
  by (cases ss) auto

lemma match_Lit:
  "match_segments (Lit l # ps) ss = Some qs \<longleftrightarrow> (\<exists>r. ss = l # r \<and> match_segments ps r = Some qs)"
  by (cases ss) auto

lemma match_Wild:
  "match_segments (Wild # ps) ss = Some qs \<longleftrightarrow>
     (\<exists>s r q. ss = s # r \<and> s \<noteq> ''/'' \<and> match_segments ps r = Some q \<and> qs = s # q)"
  by (cases ss) auto

lemmas match_iffs = match_Nil match_Lit match_Wild

text \<open>No two routes answer the same method and path.\<close>

definition overlap :: "pattern_seg list \<Rightarrow> pattern_seg list \<Rightarrow> bool" where
  "overlap ps qs \<longleftrightarrow> length ps = length qs \<and>
     list_all (\<lambda>(p, q). p = Wild \<or> q = Wild \<or> p = q) (zip ps qs)"

lemma match_all2:
  "match_segments ps ss = Some xs \<Longrightarrow> list_all2 (\<lambda>p s. p = Wild \<or> p = Lit s) ps ss"
proof (induction ps arbitrary: ss xs)
  case Nil
  then show ?case by (simp add: match_Nil)
next
  case (Cons p ps)
  then show ?case by (cases p) (auto simp: match_iffs)
qed

lemma match_overlap:
  assumes "match_segments ps ss = Some xs" and "match_segments qs ss = Some ys"
  shows "overlap ps qs"
  using assms [THEN match_all2]
  by (fastforce simp: overlap_def list_all2_conv_all_nth list_all_length)

definition compete :: "route \<Rightarrow> route \<Rightarrow> bool" where
  "compete r1 r2 \<longleftrightarrow>
     (case (r1, r2) of ((m1, p1, e1), (m2, p2, e2)) \<Rightarrow>
        m1 = m2 \<and> overlap (pattern_segments p1) (pattern_segments p2))"

lemma routes_do_not_compete: "\<forall>r1\<in>set routes. \<forall>r2\<in>set routes. compete r1 r2 \<longrightarrow> r1 = r2"
  by code_simp

lemma route_methods: "\<forall>(m, p, e)\<in>set routes. m = ''GET'' \<or> m = ''POST''"
  by code_simp

lemma route_match_Some:
  "route_match m segs (pm, pat, ep) = Some (e, ps) \<longleftrightarrow>
     e = ep \<and> method_matches pm m \<and> match_segments (pattern_segments pat) segs = Some ps"
  by (auto simp: route_match_def)

lemma route_match_unique:
  assumes "r1 \<in> set routes" and "route_match m segs r1 = Some x"
    and "r2 \<in> set routes" and "route_match m segs r2 = Some y"
  shows "r1 = r2"
proof -
  obtain m1 p1 e1 where r1: "r1 = (m1, p1, e1)" by (metis surj_pair)
  obtain m2 p2 e2 where r2: "r2 = (m2, p2, e2)" by (metis surj_pair)
  obtain ps1 where 1: "method_matches m1 m" "match_segments (pattern_segments p1) segs = Some ps1"
    using assms(2) unfolding r1 by (cases x) (simp add: route_match_Some)
  obtain ps2 where 2: "method_matches m2 m" "match_segments (pattern_segments p2) segs = Some ps2"
    using assms(4) unfolding r2 by (cases y) (simp add: route_match_Some)
  have "m1 = m2"
    using 1(1) 2(1) route_methods assms(1,3) unfolding r1 r2 method_matches_def by fastforce
  then have "compete r1 r2"
    using match_overlap [OF 1(2) 2(2)] by (simp add: compete_def r1 r2)
  then show ?thesis using routes_do_not_compete assms(1,3) by blast
qed

lemma find_route_iff:
  "find_route m segs = Some x \<longleftrightarrow> (\<exists>r\<in>set routes. route_match m segs r = Some x)"
proof -
  let ?ms = "List.map_filter (route_match m segs) routes"
  have ms: "set ?ms = {y. \<exists>r\<in>set routes. route_match m segs r = Some y}"
    by (auto simp: List.map_filter_def image_iff) (metis option.sel)+
  have same: "y = z" if yz: "y \<in> set ?ms" "z \<in> set ?ms" for y z
  proof -
    obtain r1 r2 where r: "r1 \<in> set routes" "route_match m segs r1 = Some y"
      "r2 \<in> set routes" "route_match m segs r2 = Some z"
      using yz unfolding ms by blast
    with route_match_unique [OF r] show ?thesis by simp
  qed
  show ?thesis
  proof (cases ?ms)
    case Nil
    then have "x \<notin> set ?ms" by simp
    then show ?thesis unfolding ms using Nil by (simp add: find_route_def)
  next
    case (Cons y ys)
    then have "find_route m segs = Some y" "y \<in> set ?ms" by (simp_all add: find_route_def)
    then have "x \<in> set ?ms \<longleftrightarrow> find_route m segs = Some x" using same [of x y] by auto
    then show ?thesis unfolding ms by simp
  qed
qed

lemma fill_plain:
  assumes "(m, pat, ep) \<in> set routes" and "plain_segment s"
  shows "pattern_segments pat \<noteq> []" and "list_all plain_segment (map (fill s) (pattern_segments pat))"
proof -
  have "\<forall>(m, pat, ep)\<in>set routes. pattern_segments pat \<noteq> [] \<and>
      list_all (\<lambda>p. case p of Lit l \<Rightarrow> plain_segment l | Wild \<Rightarrow> True) (pattern_segments pat)"
    by (simp add: routes_def route_patterns plain_segment_def)
  then have pats: "pattern_segments pat \<noteq> []"
    "list_all (\<lambda>p. case p of Lit l \<Rightarrow> plain_segment l | Wild \<Rightarrow> True) (pattern_segments pat)"
    using assms(1) by auto
  show "pattern_segments pat \<noteq> []" by (rule pats(1))
  show "list_all plain_segment (map (fill s) (pattern_segments pat))"
    using pats(2) assms(2) by (auto simp: list_all_iff fill_def split: pattern_seg.splits)
qed

lemma route_reached:
  assumes "(m, pat, ep) \<in> set routes" and "plain_segment s"
  shows "cleanPath (fill_path pat s) = fill_path pat s"
    and "find_route m (path_segments (fill_path pat s)) =
      Some (ep, map (\<lambda>_. s) (filter ((=) Wild) (pattern_segments pat)))"
proof -
  note plain = fill_plain [OF assms]
  show "cleanPath (fill_path pat s) = fill_path pat s"
    unfolding fill_path_def by (rule cleanPath_join) (use plain in simp_all)
  have "path_segments (fill_path pat s) = map (fill s) (pattern_segments pat)"
    unfolding fill_path_def by (rule path_segments_join) (use plain in simp_all)
  moreover have "s \<noteq> ''/''" using assms(2) by (auto simp: plain_segment_def)
  ultimately have "route_match m (path_segments (fill_path pat s)) (m, pat, ep) =
      Some (ep, map (\<lambda>_. s) (filter ((=) Wild) (pattern_segments pat)))"
    by (simp add: route_match_Some match_fill method_matches_def)
  then show "find_route m (path_segments (fill_path pat s)) =
      Some (ep, map (\<lambda>_. s) (filter ((=) Wild) (pattern_segments pat)))"
    unfolding find_route_iff using assms(1) by blast
qed

section \<open>Requests with a safe method change nothing\<close>

text \<open>PostgreSQL and Redis as they were.\<close>

definition untouched :: "db \<Rightarrow> 'z redis \<Rightarrow> 'z world \<Rightarrow> bool" where
  "untouched d q w \<longleftrightarrow> db w = d \<and> rds w = q"

definition nobody_writes :: "'z env \<Rightarrow> bool" where
  "nobody_writes E \<longleftrightarrow> (\<forall>n p. others E n p = p)"

lemma settle_untouched: "nobody_writes E \<Longrightarrow> untouched d q w \<Longrightarrow> untouched d q (settle E w)"
  by (simp add: settle_def nobody_writes_def untouched_def)

lemma untouched_read:
  assumes "nobody_writes E" and "\<And>n d. snd (f n d) = d"
  shows "keeps (untouched d q) (pg E f)"
proof (rule keepsI)
  fix w :: "'a world"
  assume "untouched d q w"
  then have s: "untouched d q (settle E w)" by (rule settle_untouched [OF assms(1)])
  obtain r w' where run: "run_state (pg E f) w = (r, w')" by (metis surj_pair)
  then show "untouched d q (snd (run_state (pg E f) w))"
    by (rule run_pg_cases) (use s assms(2) [of "tick w" "db (settle E w)"] run in
        \<open>auto simp: untouched_def\<close>)
qed

lemma untouched_rcmd:
  assumes "nobody_writes E" and "\<And>t r. snd (f t r) = r"
  shows "keeps (untouched d q) (rcmd E f)"
proof (rule keepsI)
  fix w :: "'a world"
  assume "untouched d q w"
  then have s: "untouched d q (settle E w)" by (rule settle_untouched [OF assms(1)])
  obtain r w' where run: "run_state (rcmd E f) w = (r, w')" by (metis surj_pair)
  then show "untouched d q (snd (run_state (rcmd E f) w))"
    by (rule run_rcmd_cases) (use s assms(2) [of "clock E (tick w)" "rds (settle E w)"] run in
        \<open>auto simp: untouched_def\<close>)
qed

lemma read_methods_untouched:
  assumes "nobody_writes E"
  shows "keeps (untouched d q) (JobStore_Get E jid)" "keeps (untouched d q) (JobStore_List E f)"
    "keeps (untouched d q) (JobStore_StatusCounts E)" "keeps (untouched d q) (WorkerStore_List E)"
    "keeps (untouched d q) (WorkflowStore_GetTasksByWorkflowID E wid)"
    "keeps (untouched d q) (WorkflowStore_Get E wid)" "keeps (untouched d q) (WorkflowStore_List E g)"
    "keeps (untouched d q) (zcard_cmd R E key)"
    "keeps (untouched d q) (RedisQueue_GetQueueStats R E n)"
  unfolding JobStore_Get_def JobStore_List_def JobStore_StatusCounts_def WorkerStore_List_def
    WorkflowStore_GetTasksByWorkflowID_def WorkflowStore_Get_def WorkflowStore_List_def zcard_cmd_def
    RedisQueue_GetQueueStats_def Let_def
  by (intro pres untouched_read [OF assms] untouched_rcmd [OF assms]; simp)+

lemma readers_untouched:
  assumes "nobody_writes E" and "h_Q h \<in> {None, Some (RedisQueue R U E)}"
  shows "keeps (untouched d q) (GetJob U' E r)" "keeps (untouched d q) (ListJobs E r)"
    "keeps (untouched d q) (GetStats E h)" "keeps (untouched d q) (ListWorkers E h)"
    "keeps (untouched d q) HealthCheck" "keeps (untouched d q) (GetWorkflow U' E r)"
    "keeps (untouched d q) (ListWorkflows E r)" "keeps (untouched d q) (GetQueueStats h r)"
  using assms(2)
  unfolding GetJob_def ListJobs_def GetStats_def ListWorkers_def HealthCheck_def GetWorkflow_def
    ListWorkflows_def GetQueueStats_def Let_def
  by (auto intro!: pres read_methods_untouched [OF assms(1)] simp: RedisQueue_def)

section \<open>Properties\<close>

text \<open>
  C33. The route table is unambiguous and complete in its parameters: two routes never match the same
  method and path, and a path made from a route's pattern by any plain segment for its
  parameter (a UUID, for example) is left alone by the mux's path cleaning and reaches that route
  with exactly that segment as the parameter.
\<close>

theorem routes_unambiguous:
  assumes "(pm, pat, ep) \<in> set routes" and "plain_segment s"
  shows "find_route pm (path_segments (cleanPath (fill_path pat s))) =
      Some (ep, map (\<lambda>_. s) (filter ((=) Wild) (pattern_segments pat))) \<and>
    cleanPath (fill_path pat s) = fill_path pat s \<and>
    (\<forall>m segs r1 r2. r1 \<in> set routes \<and> r2 \<in> set routes \<and> route_match m segs r1 \<noteq> None \<and>
       route_match m segs r2 \<noteq> None \<longrightarrow> r1 = r2)"
  using route_reached [OF assms] route_match_unique by (fastforce simp: not_None_eq)

theorem routes_unambiguous_witness:
  "find_route ''POST'' (path_segments (cleanPath ''/api/v1/jobs/0f/retry'')) = Some (ERetryJob, [''0f''])"
proof -
  have "(''POST'', ''/api/v1/jobs/{id}/retry'', ERetryJob) \<in> set routes" "plain_segment ''0f''"
    by (simp_all add: routes_def plain_segment_def)
  from routes_unambiguous [OF this, THEN conjunct1] show ?thesis
    by (simp add: fill_path_def route_patterns fill_def join_path_def)
qed

text \<open>What a request reaches, and the reply when nothing serves it.\<close>

definition served :: "'w http_handler \<Rightarrow> http_request \<Rightarrow> 'w \<Rightarrow> headers \<times> (int \<times> http_body) option" where
  "served H rq w = fst (run_state (H rq Map.empty) w)"

text \<open>What the metrics page may do: it adds its own headers and changes neither store.\<close>

definition keeps_cors :: "'w http_handler \<Rightarrow> bool" where
  "keeps_cors H \<longleftrightarrow> (\<forall>rq hs w. \<forall>k \<in> dom (cors_headers Map.empty).
     fst (fst (run_state (H rq hs) w)) k = hs k)"

lemma cors_dom: "dom (cors_headers Map.empty) = {''Access-Control-Allow-Origin'',
    ''Access-Control-Allow-Methods'', ''Access-Control-Allow-Headers'', ''Access-Control-Expose-Headers''}"
  by (auto simp: cors_headers_def split: if_splits)

lemma cors_headers_same: "k \<in> dom (cors_headers Map.empty) \<Longrightarrow> cors_headers hs k = cors_headers Map.empty k"
  unfolding cors_dom by (auto simp: cors_headers_def)

lemma cors_key_neq:
  assumes "k \<in> dom (cors_headers Map.empty)"
  shows "k \<noteq> ''Content-Type'' \<and> k \<noteq> ''X-Idempotent-Replay'' \<and> k \<noteq> ''X-Content-Type-Options'' \<and>
    k \<noteq> ''Allow'' \<and> k \<noteq> ''Location''"
  using assms unfolding cors_dom by (elim insertE emptyE) simp_all

lemma run_endpoint_cors:
  "keeps_cors promhttp \<Longrightarrow> k \<in> dom (cors_headers Map.empty) \<Longrightarrow>
   fst (fst (run_state (run_endpoint promhttp J ord U E h ep ps rq hs) w)) k = hs k"
  using cors_key_neq [of k]
  by (simp add: run_endpoint_def keeps_cors_def write_response_def split: prod.split)

lemma ServeMux_cors:
  assumes "\<And>ep ps w. fst (fst (run_state (run ep ps rq hs) w)) k = hs k"
    and "k \<in> dom (cors_headers Map.empty)"
  shows "fst (fst (run_state (ServeMux run rq hs) w)) k = hs k"
  using cors_key_neq [OF assms(2)]
  by (simp add: ServeMux_def Let_def assms(1) http_Error_def split: option.split)

text \<open>
  Whatever a request is and whatever happens while it is served, the reply exists (a panic
  becomes a 500) and carries the four cross-origin headers with the values of the middleware; an
  \<open>OPTIONS\<close> request is answered 204 with nothing else, and touches nothing.
\<close>

theorem NewRouter_cors:
  assumes "keeps_cors promhttp" and "k \<in> dom (cors_headers Map.empty)"
  shows "fst (served (NewRouter promhttp J ord U E ws q W) rq w) k = cors_headers Map.empty k \<and>
    snd (served (NewRouter promhttp J ord U E ws q W) rq w) \<noteq> None \<and>
    (ht_Method rq = ''OPTIONS'' \<longrightarrow>
       run_state (NewRouter promhttp J ord U E ws q W rq Map.empty) w =
         ((cors_headers Map.empty, Some (204, NoBody)), w))"
proof -
  let ?mux = "ServeMux (run_endpoint promhttp J ord U E (NewHandler ws q W))"
  have mux: "fst (fst (run_state (corsMiddleware ?mux rq Map.empty) w)) k = cors_headers Map.empty k" for w
    unfolding corsMiddleware_def Let_def
    by (simp add: ServeMux_cors [OF run_endpoint_cors [OF assms(1,2)] assms(2)])
  show ?thesis
    using mux [of w] cors_key_neq [OF assms(2)]
    by (auto simp: served_def NewRouter_def Let_def recoverPanic_def requestLogger_def
        write_response_def corsMiddleware_def respondError_def split: prod.split option.split)
qed

text \<open>Parameters for the witnesses: no body decodes, the metrics page panics.\<close>

definition no_decoders :: json_decoders where
  "no_decoders = \<lparr>js_Job = (\<lambda>_. None), js_Workflow = (\<lambda>_. None)\<rparr>"

definition panicking_page :: "zlist world http_handler" where
  "panicking_page rq hs = State_Monad.return (hs, None)"

definition plain_request :: "string \<Rightarrow> string \<Rightarrow> http_request" where
  "plain_request m p = \<lparr>ht_Method = m, ht_Path = p, ht_Query = (\<lambda>_. []), ht_Header = (\<lambda>_. []), ht_Body = []\<rparr>"

theorem NewRouter_cors_witness:
  "snd (served (NewRouter panicking_page no_decoders id hex_uuid_ops quiet_env True None None)
     (plain_request ''GET'' ''/metrics'') demo_world) \<noteq> None"
proof -
  have k: "keeps_cors panicking_page" by (simp add: keeps_cors_def panicking_page_def)
  have "''Access-Control-Allow-Origin'' \<in> dom (cors_headers Map.empty)" by (simp add: cors_dom)
  from NewRouter_cors [OF k this] show ?thesis by blast
qed

lemma get_routes: "\<forall>(m, p, e)\<in>set routes. m = ''GET'' \<longrightarrow>
    e \<notin> {ECreateJob, ECancelJob, ERetryJob, ECreateWorkflow, ECancelWorkflow}"
  by code_simp

lemma find_route_get:
  assumes "find_route m segs = Some (ep, ps)" and "m \<in> {''GET'', ''HEAD''}"
  shows "ep \<notin> {ECreateJob, ECancelJob, ERetryJob, ECreateWorkflow, ECancelWorkflow}"
proof -
  obtain pm pat e where r: "(pm, pat, e) \<in> set routes" "route_match m segs (pm, pat, e) = Some (ep, ps)"
    using assms(1) unfolding find_route_iff by auto
  then have "e = ep" "method_matches pm m" by (simp_all add: route_match_Some)
  moreover have "pm = ''GET'' \<or> pm = ''POST''" using route_methods r(1) by fastforce
  ultimately have "pm = ''GET''" using assms(2) by (auto simp: method_matches_def)
  then show ?thesis using get_routes r(1) \<open>e = ep\<close> by fastforce
qed

lemma api_endpoint_untouched:
  assumes "nobody_writes E" and "q \<in> {None, Some (RedisQueue R U' E)}"
    and "ep \<notin> {ECreateJob, ECancelJob, ERetryJob, ECreateWorkflow, ECancelWorkflow}"
  shows "keeps (untouched d z) (api_endpoint J ord U E (NewHandler ws q W) ep ps rq)"
proof -
  have "h_Q (NewHandler ws q W) \<in> {None, Some (RedisQueue R U' E)}"
    using assms(2) by (simp add: NewHandler_def)
  note r = readers_untouched [OF assms(1) this]
  show ?thesis
    using assms(3) by (cases ep) (simp_all add: api_endpoint_def Let_def r)
qed

text \<open>
  C32. A request with the method \<open>GET\<close>, \<open>HEAD\<close> or \<open>OPTIONS\<close> is safe: whatever its path, query and
  body, and whatever faults occur, it leaves PostgreSQL and Redis as they are, as long as the
  metrics page does and nobody else writes meanwhile.
\<close>

theorem NewRouter_safe_methods:
  assumes "ht_Method rq \<in> {''GET'', ''HEAD'', ''OPTIONS''}" and "nobody_writes E"
    and "q \<in> {None, Some (RedisQueue R U E)}"
    and "\<And>rq hs d z. keeps (untouched d z) (promhttp rq hs)"
    and "run_state (NewRouter promhttp J ord U E ws q W rq hs) w = (reply, w')"
  shows "db w' = db w \<and> rds w' = rds w"
proof -
  let ?run = "run_endpoint promhttp J ord U E (NewHandler ws q W)"
  have mux: "keeps (untouched d z) (ServeMux ?run rq hs')" if "ht_Method rq \<noteq> ''OPTIONS''" for hs' d z
    unfolding ServeMux_def Let_def
  proof (intro pres)
    fix x ep ps
    assume x: "find_route (ht_Method rq) (path_segments
        (if ht_Method rq = ''CONNECT'' then ht_Path rq else cleanPath (ht_Path rq))) = Some x"
      and "x = (ep, ps)"
    then have "ep \<notin> {ECreateJob, ECancelJob, ERetryJob, ECreateWorkflow, ECancelWorkflow}"
      using find_route_get that assms(1) by blast
    then show "keeps (untouched d z) (?run ep ps rq hs')"
      unfolding run_endpoint_def
      by (intro pres assms(4) api_endpoint_untouched [OF assms(2,3)])
  qed
  have "keeps (untouched (db w) (rds w)) (NewRouter promhttp J ord U E ws q W rq hs)"
    unfolding NewRouter_def Let_def recoverPanic_def requestLogger_def corsMiddleware_def
    by (intro pres mux)
  from keepsD [OF this, of w] assms(5) show ?thesis by (simp add: untouched_def)
qed

theorem NewRouter_safe_methods_witness:
  "db (snd (run_state (NewRouter panicking_page no_decoders id hex_uuid_ops quiet_env True
     (Some (RedisQueue zlist_ops hex_uuid_ops quiet_env)) None
     (plain_request ''GET'' ''/api/v1/queues'') Map.empty) demo_world)) = db demo_world"
proof -
  let ?rq = "plain_request ''GET'' ''/api/v1/queues''"
  let ?x = "run_state (NewRouter panicking_page no_decoders id hex_uuid_ops quiet_env True
     (Some (RedisQueue zlist_ops hex_uuid_ops quiet_env)) None ?rq Map.empty) demo_world"
  have m: "ht_Method ?rq \<in> {''GET'', ''HEAD'', ''OPTIONS''}" by (simp add: plain_request_def)
  have u: "nobody_writes (quiet_env :: zlist env)" by (simp add: nobody_writes_def quiet_env_def)
  have q: "Some (RedisQueue zlist_ops hex_uuid_ops quiet_env)
      \<in> {None, Some (RedisQueue zlist_ops hex_uuid_ops quiet_env)}" by simp
  have p: "keeps (untouched d z) (panicking_page rq hs)" for d z rq hs
    unfolding panicking_page_def by (rule pres)
  have "?x = (fst ?x, snd ?x)" by simp
  from NewRouter_safe_methods [OF m u q p this] show ?thesis by blast
qed

lemma find_route_method:
  "find_route m segs \<noteq> None \<longleftrightarrow>
     (\<exists>(pm, pat, ep)\<in>set routes. method_matches pm m \<and> match_segments (pattern_segments pat) segs \<noteq> None)"
proof -
  have "find_route m segs \<noteq> None \<longleftrightarrow> (\<exists>x. \<exists>r\<in>set routes. route_match m segs r = Some x)"
    unfolding find_route_iff [symmetric] by (simp add: not_None_eq)
  also have "\<dots> \<longleftrightarrow> (\<exists>r\<in>set routes. route_match m segs r \<noteq> None)" by (auto simp: not_None_eq)
  also have "\<dots> \<longleftrightarrow> (\<exists>(pm, pat, ep)\<in>set routes. method_matches pm m \<and>
      match_segments (pattern_segments pat) segs \<noteq> None)"
    by (rule bex_cong) (auto simp: route_match_def split: if_splits)
  finally show ?thesis .
qed

lemma allowed_methods_iff: "m \<in> set (allowed_methods segs) \<longleftrightarrow> find_route m segs \<noteq> None"
proof -
  let ?M = "{pm. \<exists>pat ep. (pm, pat, ep) \<in> set routes \<and> match_segments (pattern_segments pat) segs \<noteq> None}"
  have ms: "set (map fst (filter (\<lambda>(pm, pat, ep). match_segments (pattern_segments pat) segs \<noteq> None) routes)) = ?M"
    by force
  have "m \<in> set (allowed_methods segs) \<longleftrightarrow> m \<in> ?M \<or> m = ''HEAD'' \<and> ''GET'' \<in> ?M"
    unfolding allowed_methods_def Let_def set_sort set_remdups using ms by auto
  also have "\<dots> \<longleftrightarrow> (\<exists>(pm, pat, ep)\<in>set routes. method_matches pm m \<and>
      match_segments (pattern_segments pat) segs \<noteq> None)"
    unfolding method_matches_def by blast
  finally show ?thesis unfolding find_route_method .
qed

text \<open>
  C34. A request that no route serves (on a clean path) is answered without touching anything: 405
  with the list of exactly the methods that this path does serve, or 404 when there is none.
\<close>

theorem NewRouter_unrouted:
  assumes "find_route (ht_Method rq) segs = None" and "segs = path_segments (ht_Path rq)"
    and "cleanPath (ht_Path rq) = ht_Path rq" and "ht_Method rq \<noteq> ''OPTIONS''"
  shows "\<exists>hs text. run_state (NewRouter promhttp J ord U E ws q W rq Map.empty) w =
      ((hs, Some (if \<exists>m. find_route m segs \<noteq> None then 405 else 404, Plain text)), w) \<and>
    ((\<exists>m. find_route m segs \<noteq> None) \<longrightarrow>
       (\<exists>ms. hs ''Allow'' = Some (join_comma ms) \<and> sorted ms \<and> distinct ms \<and>
          (\<forall>m. m \<in> set ms \<longleftrightarrow> find_route m segs \<noteq> None)))"
proof (cases "allowed_methods segs = []")
  case True
  then have "\<not> (\<exists>m. find_route m segs \<noteq> None)" using allowed_methods_iff [of _ segs] by simp
  with True show ?thesis
    using assms by (auto simp: NewRouter_def recoverPanic_def requestLogger_def corsMiddleware_def
        ServeMux_def http_Error_def Let_def)
next
  case False
  then have m: "\<exists>m. find_route m segs \<noteq> None"
    using allowed_methods_iff [of "hd (allowed_methods segs)" segs] by auto
  have "sorted (allowed_methods segs)" "distinct (allowed_methods segs)"
    by (simp_all add: allowed_methods_def Let_def)
  moreover have "run_state (NewRouter promhttp J ord U E ws q W rq Map.empty) w =
      (http_Error 405 ''Method Not Allowed''
        ((cors_headers Map.empty)(''Allow'' \<mapsto> join_comma (allowed_methods segs))), w)"
    using assms False by (simp add: NewRouter_def recoverPanic_def requestLogger_def corsMiddleware_def
        ServeMux_def http_Error_def Let_def)
  ultimately show ?thesis
    using m allowed_methods_iff [of _ segs] by (auto simp: http_Error_def)
qed

theorem NewRouter_unrouted_witness:
  "\<exists>hs text. run_state (NewRouter panicking_page no_decoders id hex_uuid_ops quiet_env True None None
     (plain_request ''DELETE'' ''/api/v1/jobs'') Map.empty) demo_world =
     ((hs, Some (405, Plain text)), demo_world)"
proof -
  let ?rq = "plain_request ''DELETE'' ''/api/v1/jobs''"
  have "find_route ''DELETE'' [''api'', ''v1'', ''jobs''] = None"
    "find_route ''POST'' [''api'', ''v1'', ''jobs''] = Some (ECreateJob, [])"
    "path_segments ''/api/v1/jobs'' = [''api'', ''v1'', ''jobs'']"
    "cleanPath ''/api/v1/jobs'' = ''/api/v1/jobs''"
    by code_simp+
  then have "find_route (ht_Method ?rq) [''api'', ''v1'', ''jobs''] = None"
    "[''api'', ''v1'', ''jobs''] = path_segments (ht_Path ?rq)" "cleanPath (ht_Path ?rq) = ht_Path ?rq"
    "ht_Method ?rq \<noteq> ''OPTIONS''" and ex: "\<exists>m. find_route m [''api'', ''v1'', ''jobs''] \<noteq> None"
    by (auto simp: plain_request_def)
  from NewRouter_unrouted [where promhttp = panicking_page and J = no_decoders and ord = id
      and U = hex_uuid_ops and E = quiet_env and ws = True and q = None and W = None and w = demo_world,
      OF this(1-4)]
  show ?thesis unfolding if_P [OF ex] by blast
qed

end
