(* ===== verification/Migrate.thy ===== *)
theory Migrate
  imports Runtime "HOL-Library.Sublist"
begin

text \<open>
  \<open>internal/store/migrate.go\<close>: the migrations an API process applies when it starts. The schema is
  whatever \<open>'d\<close> the SQL of the embedded files works on: \<open>sql\<close>, a parameter, says what PostgreSQL
  does with the text of one file, as one implicit transaction (a failing text changes nothing).
  The embedded file system is the parameter \<open>fs\<close>. Each statement is one round trip with a fate
  (\<open>outcome\<close>), and other processes may act before it.
\<close>

section \<open>The state and its calls\<close>

record 'd schema =
  sc_Versions :: "string list option"
  sc_Data :: 'd

record 'd schema_env =
  se_Fault :: "nat \<Rightarrow> outcome"
  se_Others :: "nat \<Rightarrow> 'd schema \<Rightarrow> 'd schema"

record embed_fs =
  fs_ReadDir :: "err + (string \<times> bool) list"
  fs_ReadFile :: "string \<Rightarrow> err + string"

type_synonym 'd sql = "string \<Rightarrow> 'd \<Rightarrow> err + 'd"

definition schema_call ::
  "'d schema_env \<Rightarrow> ('d schema \<Rightarrow> (err + 'a) \<times> 'd schema) \<Rightarrow> (nat \<times> 'd schema, err + 'a) state" where
  "schema_call E f = State (\<lambda>(n, s).
     let s1 = se_Others E n s
     in case se_Fault E n of
          Delivered \<Rightarrow> (case f s1 of (r, s2) \<Rightarrow> (r, Suc n, s2))
        | Refused \<Rightarrow> (Inl ErrIO, Suc n, s1)
        | NoReply \<Rightarrow> (Inl ErrIO, Suc n, snd (f s1)))"

text \<open>The four statements; without its table the last three fail.\<close>

definition create_table_stmt :: "'d schema \<Rightarrow> (err + unit) \<times> 'd schema" where
  "create_table_stmt s =
     (Inr (), if sc_Versions s = None then s\<lparr>sc_Versions := Some []\<rparr> else s)"

definition exists_stmt :: "string \<Rightarrow> 'd schema \<Rightarrow> (err + bool) \<times> 'd schema" where
  "exists_stmt version s =
     (case sc_Versions s of None \<Rightarrow> Inl ErrIO | Some vs \<Rightarrow> Inr (version \<in> set vs), s)"

definition exec_stmt :: "'d sql \<Rightarrow> string \<Rightarrow> 'd schema \<Rightarrow> (err + unit) \<times> 'd schema" where
  "exec_stmt sql content s =
     (case sql content (sc_Data s) of Inl e \<Rightarrow> (Inl e, s) | Inr d \<Rightarrow> (Inr (), s\<lparr>sc_Data := d\<rparr>))"

definition record_stmt :: "string \<Rightarrow> 'd schema \<Rightarrow> (err + unit) \<times> 'd schema" where
  "record_stmt version s =
     (case sc_Versions s of
        None \<Rightarrow> (Inl ErrIO, s)
      | Some vs \<Rightarrow>
          if version \<in> set vs then (Inl ErrUnique, s)
          else (Inr (), s\<lparr>sc_Versions := Some (vs @ [version])\<rparr>))"

section \<open>The migrations\<close>

definition HasSuffix :: "string \<Rightarrow> string \<Rightarrow> bool" where
  "HasSuffix s t \<longleftrightarrow> suffix t s"

definition TrimSuffix :: "string \<Rightarrow> string \<Rightarrow> string" where
  "TrimSuffix s t = (if HasSuffix s t then take (length s - length t) s else s)"

definition up_files :: "(string \<times> bool) list \<Rightarrow> string list" where
  "up_files entries =
     sort (map fst (filter (\<lambda>(name, is_dir). \<not> is_dir \<and> HasSuffix name ''.up.sql'') entries))"

definition migration_version :: "string \<Rightarrow> string" where
  "migration_version filename = TrimSuffix filename ''.up.sql''"

definition migrate_file ::
  "'d schema_env \<Rightarrow> 'd sql \<Rightarrow> embed_fs \<Rightarrow> string \<Rightarrow> (nat \<times> 'd schema, err + unit) state" where
  "migrate_file E sql fs filename = do {
     let version = migration_version filename;
     ex \<leftarrow> schema_call E (exists_stmt version);
     case ex of
       Inl e \<Rightarrow> State_Monad.return (Inl e)
     | Inr known \<Rightarrow>
         if known then State_Monad.return (Inr ())
         else (case fs_ReadFile fs filename of
           Inl e \<Rightarrow> State_Monad.return (Inl e)
         | Inr content \<Rightarrow> do {
             r \<leftarrow> schema_call E (exec_stmt sql content);
             case r of
               Inl e \<Rightarrow> State_Monad.return (Inl e)
             | Inr _ \<Rightarrow> schema_call E (record_stmt version)
           })
   }"

fun apply_migrations ::
  "'d schema_env \<Rightarrow> 'd sql \<Rightarrow> embed_fs \<Rightarrow> string list \<Rightarrow> (nat \<times> 'd schema, err + unit) state" where
  "apply_migrations E sql fs [] = State_Monad.return (Inr ())"
| "apply_migrations E sql fs (filename # files) = do {
     r \<leftarrow> migrate_file E sql fs filename;
     case r of
       Inl e \<Rightarrow> State_Monad.return (Inl e)
     | Inr _ \<Rightarrow> apply_migrations E sql fs files
   }"

definition RunMigrations ::
  "'d schema_env \<Rightarrow> 'd sql \<Rightarrow> embed_fs \<Rightarrow> (nat \<times> 'd schema, err + unit) state" where
  "RunMigrations E sql fs = do {
     r \<leftarrow> schema_call E create_table_stmt;
     case r of
       Inl e \<Rightarrow> State_Monad.return (Inl e)
     | Inr _ \<Rightarrow> (case fs_ReadDir fs of
           Inl e \<Rightarrow> State_Monad.return (Inl e)
         | Inr entries \<Rightarrow> apply_migrations E sql fs (up_files entries))
   }"

section \<open>What a pass has done when it stops\<close>

definition alone :: "'d schema_env \<Rightarrow> bool" where
  "alone E \<longleftrightarrow> (\<forall>n s. se_Others E n s = s)"

definition sc_recorded :: "'d schema \<Rightarrow> string list" where
  "sc_recorded s = (case sc_Versions s of None \<Rightarrow> [] | Some vs \<Rightarrow> vs)"

text \<open>The texts of a list of files, executed one after the other.\<close>

fun exec_files :: "'d sql \<Rightarrow> embed_fs \<Rightarrow> string list \<Rightarrow> 'd \<Rightarrow> 'd option" where
  "exec_files sql fs [] d = Some d"
| "exec_files sql fs (f # files) d =
     (case fs_ReadFile fs f of
        Inl e \<Rightarrow> None
      | Inr content \<Rightarrow> (case sql content d of Inl e \<Rightarrow> None | Inr d' \<Rightarrow> exec_files sql fs files d'))"

definition pending_files :: "string list \<Rightarrow> string list \<Rightarrow> string list" where
  "pending_files vs files = filter (\<lambda>f. migration_version f \<notin> set vs) files"

text \<open>
  Of the pending files, \<open>k\<close> are recorded; their texts have been executed in order, and at most the
  next one besides.
\<close>

definition progress ::
  "'d sql \<Rightarrow> embed_fs \<Rightarrow> string list \<Rightarrow> string list \<Rightarrow> 'd \<Rightarrow> nat \<Rightarrow> 'd schema \<Rightarrow> bool" where
  "progress sql fs pend vs d k s \<longleftrightarrow>
     k \<le> length pend \<and> sc_recorded s = vs @ map migration_version (take k pend) \<and>
     (exec_files sql fs (take k pend) d = Some (sc_Data s) \<or>
      k < length pend \<and> exec_files sql fs (take (Suc k) pend) d = Some (sc_Data s))"

lemma run_schema_call:
  assumes "run_state (schema_call E f) (n, s) = (r, n', s')" and "alone E"
  obtains v s1 where "f s = (v, s1)"
    "se_Fault E n = Delivered \<and> r = v \<and> s' = s1 \<or>
     se_Fault E n = Refused \<and> r = Inl ErrIO \<and> s' = s \<or>
     se_Fault E n = NoReply \<and> r = Inl ErrIO \<and> s' = s1"
  using assms by (cases "f s"; cases "se_Fault E n") (auto simp: schema_call_def alone_def Let_def)

lemma exists_call:
  assumes "run_state (schema_call E (exists_stmt v)) (n, s) = (r, n', s')" and "alone E"
    and "sc_Versions s = Some vs"
  shows "s' = s" and "r = Inr (v \<in> set vs) \<or> r = Inl ErrIO"
  using assms by (auto elim!: run_schema_call simp: exists_stmt_def)

lemma exec_call:
  assumes "run_state (schema_call E (exec_stmt sql c)) (n, s) = (r, n', s')" and "alone E"
  shows "r = Inr () \<and> (\<exists>d. sql c (sc_Data s) = Inr d \<and> s' = s\<lparr>sc_Data := d\<rparr>) \<or>
    (\<exists>e. r = Inl e) \<and> (s' = s \<or> (\<exists>d. sql c (sc_Data s) = Inr d \<and> s' = s\<lparr>sc_Data := d\<rparr>))"
  using assms by (auto elim!: run_schema_call simp: exec_stmt_def split: sum.splits)

lemma record_call:
  assumes "run_state (schema_call E (record_stmt v)) (n, s) = (r, n', s')" and "alone E"
    and "sc_Versions s = Some vs" and "v \<notin> set vs"
  shows "r = Inr () \<and> s' = s\<lparr>sc_Versions := Some (vs @ [v])\<rparr> \<or>
    (\<exists>e. r = Inl e) \<and> (s' = s \<or> s' = s\<lparr>sc_Versions := Some (vs @ [v])\<rparr>)"
  using assms by (auto elim!: run_schema_call simp: record_stmt_def)

text \<open>One file: nothing, its text executed, or its text executed and its version recorded.\<close>

lemma migrate_file_known:
  assumes "run_state (migrate_file E sql fs f) (n, s) = (r, n', s')" and "alone E"
    and "sc_Versions s = Some vs" and "migration_version f \<in> set vs"
  shows "s' = s"
proof -
  obtain ex n1 s1 where
    ex: "run_state (schema_call E (exists_stmt (migration_version f))) (n, s) = (ex, n1, s1)"
    by (metis surj_pair)
  from exists_call [OF ex assms(2,3)] assms(1,4) show ?thesis
    by (cases ex) (auto simp: migrate_file_def Let_def ex)
qed

lemma migrate_file_new:
  assumes "run_state (migrate_file E sql fs f) (n, s) = (r, n', s')" and "alone E"
    and "sc_Versions s = Some vs" and "migration_version f \<notin> set vs"
  shows "(\<exists>e. r = Inl e \<and> s' = s) \<or>
    (\<exists>c d. fs_ReadFile fs f = Inr c \<and> sql c (sc_Data s) = Inr d \<and>
       ((\<exists>e. r = Inl e) \<and> s' = s\<lparr>sc_Data := d\<rparr> \<or>
        s' = s\<lparr>sc_Versions := Some (vs @ [migration_version f]), sc_Data := d\<rparr>))"
proof -
  let ?v = "migration_version f"
  obtain ex n1 s1 where ex: "run_state (schema_call E (exists_stmt ?v)) (n, s) = (ex, n1, s1)"
    by (metis surj_pair)
  note e = exists_call [OF ex assms(2,3)]
  show ?thesis
  proof (cases "ex = Inr False \<and> (\<exists>c. fs_ReadFile fs f = Inr c)")
    case False
    then show ?thesis using e assms(1,4)
      by (auto simp: migrate_file_def Let_def ex split: sum.splits)
  next
    case True
    then obtain c where c: "ex = Inr False" "fs_ReadFile fs f = Inr c" by blast
    obtain x n2 s2 where x: "run_state (schema_call E (exec_stmt sql c)) (n1, s) = (x, n2, s2)"
      by (metis surj_pair)
    note run = assms(1) [unfolded migrate_file_def Let_def]
    note xc = exec_call [OF x assms(2)]
    show ?thesis
    proof (cases x)
      case (Inl err)
      then have "r = Inl err" "s' = s2" using run e(1) by (simp_all add: ex c x)
      then show ?thesis using xc Inl c(2) by auto
    next
      case (Inr u)
      then obtain d where d: "sql c (sc_Data s) = Inr d" "s2 = s\<lparr>sc_Data := d\<rparr>" using xc by auto
      have "run_state (schema_call E (record_stmt ?v)) (n2, s2) = (r, n', s')"
        using run e(1) by (simp add: ex c x Inr)
      from record_call [OF this assms(2) _ assms(4)] d c(2) assms(3) show ?thesis by auto
    qed
  qed
qed

lemma progress_0: "sc_Versions s = Some vs \<Longrightarrow> progress sql fs pend vs (sc_Data s) 0 s"
  by (simp add: progress_def sc_recorded_def)

lemma progress_Suc:
  assumes "fs_ReadFile fs f = Inr c" and "sql c d = Inr d'"
    and "progress sql fs pend (vs @ [migration_version f]) d' k s"
  shows "progress sql fs (f # pend) vs d (Suc k) s"
  using assms by (simp add: progress_def)

lemma pending_files_step:
  assumes "distinct (map migration_version (f # files))" and "migration_version f \<notin> set vs"
  shows "pending_files vs (f # files) = f # pending_files (vs @ [migration_version f]) files"
  using assms by (auto simp: pending_files_def image_iff intro!: filter_cong)

lemma apply_migrations_progress:
  assumes "run_state (apply_migrations E sql fs files) (n, s) = (r, n', s')" and "alone E"
    and "sc_Versions s = Some vs" and "distinct (map migration_version files)"
  shows "\<exists>k. progress sql fs (pending_files vs files) vs (sc_Data s) k s' \<and>
    (r = Inr () \<longrightarrow> k = length (pending_files vs files) \<and>
       exec_files sql fs (pending_files vs files) (sc_Data s) = Some (sc_Data s'))"
  using assms
proof (induction files arbitrary: n s vs)
  case Nil
  then show ?case using progress_0 by (fastforce simp: pending_files_def)
next
  case (Cons f files)
  let ?v = "migration_version f"
  obtain x n1 s1 where x: "run_state (migrate_file E sql fs f) (n, s) = (x, n1, s1)"
    by (metis surj_pair)
  have stop: "r = Inl err" "s' = s1" if "x = Inl err" for err
    using Cons.prems(1) that by (simp_all add: x)
  have run: "run_state (apply_migrations E sql fs files) (n1, s1) = (r, n', s')" if "x = Inr u" for u
    using Cons.prems(1) that by (simp add: x)
  show ?case
  proof (cases "?v \<in> set vs")
    case True
    then have "s1 = s" "pending_files vs (f # files) = pending_files vs files"
      using migrate_file_known [OF x Cons.prems(2,3)] by (simp_all add: pending_files_def)
    then show ?thesis
      using Cons.IH [OF run Cons.prems(2)] Cons.prems(3,4) stop progress_0 [OF Cons.prems(3)]
      by (cases x) auto
  next
    case new: False
    note pend = pending_files_step [OF Cons.prems(4) new]
    from migrate_file_new [OF x Cons.prems(2,3) new]
    consider err where "x = Inl err" "s1 = s"
      | c d err where "fs_ReadFile fs f = Inr c" "sql c (sc_Data s) = Inr d" "x = Inl err" "s1 = s\<lparr>sc_Data := d\<rparr>"
      | c d where "fs_ReadFile fs f = Inr c" "sql c (sc_Data s) = Inr d"
          "s1 = s\<lparr>sc_Versions := Some (vs @ [?v]), sc_Data := d\<rparr>"
      by blast
    then show ?thesis
    proof cases
      case 1
      then show ?thesis using stop progress_0 [OF Cons.prems(3)] by auto
    next
      case 2
      then show ?thesis using stop Cons.prems(3)
        by (auto simp: pend progress_def sc_recorded_def intro!: exI [of _ 0])
    next
      case 3
      then have s1: "sc_Versions s1 = Some (vs @ [?v])" "sc_Data s1 = d" by simp_all
      have one: "progress sql fs (f # pend) vs (sc_Data s) (Suc 0) s1" for pend
        by (rule progress_Suc [where sql = sql, OF 3(1,2)]) (use progress_0 [OF s1(1)] s1(2) in simp)
      show ?thesis
      proof (cases x)
        case (Inl err)
        then show ?thesis
          using stop one by (auto simp: pend)
      next
        case (Inr u)
        from Cons.IH [OF run [OF Inr] Cons.prems(2) s1(1)] Cons.prems(4) progress_Suc [where sql = sql, OF 3(1,2)]
        show ?thesis using 3(1,2) by (fastforce simp: pend s1(2))
      qed
    qed
  qed
qed

lemma version_append: "HasSuffix f ''.up.sql'' \<Longrightarrow> f = migration_version f @ ''.up.sql''"
  by (auto simp: migration_version_def TrimSuffix_def HasSuffix_def suffix_def)

lemma distinct_versions:
  assumes "distinct (map fst entries)"
  shows "distinct (map migration_version (up_files entries))"
proof -
  have "distinct (up_files entries)"
    using assms by (simp add: up_files_def distinct_map_filter)
  moreover have "inj_on migration_version (set (up_files entries))"
  proof (rule inj_onI)
    fix x y
    assume "x \<in> set (up_files entries)" "y \<in> set (up_files entries)"
      and eq: "migration_version x = migration_version y"
    then have "HasSuffix x ''.up.sql''" "HasSuffix y ''.up.sql''" by (auto simp: up_files_def)
    then show "x = y" using eq version_append by metis
  qed
  ultimately show ?thesis by (simp add: distinct_map)
qed

lemma RunMigrations_run:
  assumes "run_state (RunMigrations E sql fs) (n, s) = (r, n', s')" and "alone E"
    and "fs_ReadDir fs = Inr entries"
  shows "(\<exists>e. r = Inl e) \<and> sc_Data s' = sc_Data s \<and> sc_recorded s' = sc_recorded s \<or>
    (\<exists>n1 s1. sc_Versions s1 = Some (sc_recorded s) \<and> sc_Data s1 = sc_Data s \<and>
      run_state (apply_migrations E sql fs (up_files entries)) (n1, s1) = (r, n', s'))"
proof -
  obtain x n1 s1 where x: "run_state (schema_call E create_table_stmt) (n, s) = (x, n1, s1)"
    by (metis surj_pair)
  have s1: "sc_Data s1 = sc_Data s \<and> sc_recorded s1 = sc_recorded s \<and>
      (x = Inr () \<longrightarrow> sc_Versions s1 = Some (sc_recorded s))"
    by (rule run_schema_call [OF x assms(2)])
      (auto simp: create_table_stmt_def sc_recorded_def split: if_splits option.splits)
  show ?thesis
  proof (cases x)
    case (Inl e)
    then show ?thesis using assms(1) s1 by (auto simp: RunMigrations_def x)
  next
    case (Inr u)
    then show ?thesis using assms(1,3) s1 by (auto simp: RunMigrations_def x)
  qed
qed

lemma RunMigrations_outcome:
  assumes "run_state (RunMigrations E sql fs) (n, s) = (r, n', s')" and "alone E"
    and "fs_ReadDir fs = Inr entries" and "distinct (map fst entries)"
    and "pend = pending_files (sc_recorded s) (up_files entries)"
  shows "(\<exists>k. progress sql fs pend (sc_recorded s) (sc_Data s) k s') \<and>
    (r = Inr () \<longrightarrow> sc_recorded s' = sc_recorded s @ map migration_version pend \<and>
       exec_files sql fs pend (sc_Data s) = Some (sc_Data s'))"
  using RunMigrations_run [OF assms(1-3)]
proof (elim disjE exE conjE)
  fix e
  assume "r = Inl e" "sc_Data s' = sc_Data s" "sc_recorded s' = sc_recorded s"
  then show ?thesis by (auto simp: progress_def intro!: exI [of _ 0])
next
  fix n1 s1
  assume s1: "sc_Versions s1 = Some (sc_recorded s)" "sc_Data s1 = sc_Data s"
    and run: "run_state (apply_migrations E sql fs (up_files entries)) (n1, s1) = (r, n', s')"
  from apply_migrations_progress [OF run assms(2) s1(1) distinct_versions [OF assms(4)]]
  show ?thesis by (auto simp: assms(5) s1(2) progress_def)
qed

lemma pending_after: "pending_files (vs @ map migration_version (pending_files vs files)) files = []"
  by (auto simp: pending_files_def filter_empty_conv)

text \<open>With every reply delivered, a file that executes is applied.\<close>

lemma delivered_call:
  "se_Fault E n = Delivered \<Longrightarrow> alone E \<Longrightarrow>
   run_state (schema_call E f) (n, s) = (case f s of (r, s1) \<Rightarrow> (r, Suc n, s1))"
  by (simp add: schema_call_def alone_def Let_def)

lemma apply_migrations_succeeds:
  assumes "\<And>n. se_Fault E n = Delivered" and "alone E" and "sc_Versions s = Some vs"
    and "distinct (map migration_version files)"
    and "exec_files sql fs (pending_files vs files) (sc_Data s) \<noteq> None"
  shows "fst (run_state (apply_migrations E sql fs files) (n, s)) = Inr ()"
  using assms
proof (induction files arbitrary: n s vs)
  case (Cons f files)
  note d = delivered_call [OF Cons.prems(1,2)]
  show ?case
  proof (cases "migration_version f \<in> set vs")
    case True
    then show ?thesis using Cons.IH [OF Cons.prems(1-3)] Cons.prems(3-5)
      by (simp add: migrate_file_def Let_def d exists_stmt_def pending_files_def)
  next
    case False
    note pend = pending_files_step [OF Cons.prems(4) False]
    obtain c data where c: "fs_ReadFile fs f = Inr c" "sql c (sc_Data s) = Inr data"
      and rest: "exec_files sql fs (pending_files (vs @ [migration_version f]) files) data \<noteq> None"
      using Cons.prems(5) unfolding pend by (auto split: sum.splits)
    let ?s = "s\<lparr>sc_Data := data, sc_Versions := Some (vs @ [migration_version f])\<rparr>"
    have "fst (run_state (apply_migrations E sql fs files) (n + 3, ?s)) = Inr ()"
      by (rule Cons.IH [OF Cons.prems(1,2)]) (use Cons.prems(4) rest in simp_all)
    then show ?thesis using False Cons.prems(3) c
      by (simp add: migrate_file_def Let_def d exists_stmt_def exec_stmt_def record_stmt_def
          numeral_3_eq_3)
  qed
qed simp

section \<open>Properties\<close>

text \<open>Two migrations and a README; the SQL appends its text to a log.\<close>

definition demo_fs :: embed_fs where
  "demo_fs =
     \<lparr>fs_ReadDir = Inr [(''002.up.sql'', False), (''002.down.sql'', False), (''001.up.sql'', False)],
      fs_ReadFile = (\<lambda>f. Inr f)\<rparr>"

definition demo_sql :: "string list sql" where
  "demo_sql content d = Inr (d @ [content])"

definition fates :: "nat set \<Rightarrow> 'd schema_env" where
  "fates lost = \<lparr>se_Fault = (\<lambda>n. if n \<in> lost then Refused else Delivered), se_Others = (\<lambda>_ s. s)\<rparr>"

definition demo_schema :: "string list schema" where
  "demo_schema = \<lparr>sc_Versions = None, sc_Data = []\<rparr>"

lemma alone_fates [simp]: "alone (fates lost)"
  by (simp add: alone_def fates_def)

lemma demo_up_files: "up_files [(''002.up.sql'', False), (''002.down.sql'', False), (''001.up.sql'', False)] =
    [''001.up.sql'', ''002.up.sql'']"
  by code_simp

lemma demo_versions:
  "migration_version ''001.up.sql'' = ''001''" "migration_version ''002.up.sql'' = ''002''"
  by code_simp+

lemmas demo_run = Let_def RunMigrations_def migrate_file_def schema_call_def fates_def demo_fs_def
  demo_sql_def demo_schema_def create_table_stmt_def exists_stmt_def exec_stmt_def
  record_stmt_def demo_up_files demo_versions

text \<open>
  The text of a migration and the row that records it are two statements: when the second is lost,
  the pass fails with the text executed, and the next pass executes it again.
\<close>

lemma demo_recording_lost:
  "run_state (RunMigrations (fates {6}) demo_sql demo_fs) (0, demo_schema) =
     (Inl ErrIO, 7, \<lparr>sc_Versions = Some [''001''], sc_Data = [''001.up.sql'', ''002.up.sql'']\<rparr>)"
  by (simp add: demo_run)

lemma migration_executed_twice:
  "sc_Data (snd (snd (run_state (RunMigrations (fates {}) demo_sql demo_fs)
     (snd (run_state (RunMigrations (fates {6}) demo_sql demo_fs) (0, demo_schema)))))) =
     [''001.up.sql'', ''002.up.sql'', ''002.up.sql'']"
  by (simp add: demo_recording_lost) (simp add: demo_run)

text \<open>
  C35. Wherever a migration pass stops, under any loss of its statements or of their replies, the
  versions it has recorded are the first \<open>k\<close> pending files in the order of their names, and exactly
  the texts of these have been executed, in that order, but for one that may have been executed
  and not yet recorded; when it reports success it has executed and recorded all of them.
\<close>

theorem RunMigrations_in_order:
  assumes "run_state (RunMigrations E sql fs) (n, s) = (r, n', s')" and "alone E"
    and "fs_ReadDir fs = Inr entries" and "distinct (map fst entries)"
    and "pend = pending_files (sc_recorded s) (up_files entries)"
  shows "(\<exists>k \<le> length pend.
      sc_recorded s' = sc_recorded s @ map migration_version (take k pend) \<and>
      (exec_files sql fs (take k pend) (sc_Data s) = Some (sc_Data s') \<or>
       exec_files sql fs (take (Suc k) pend) (sc_Data s) = Some (sc_Data s'))) \<and>
    (r = Inr () \<longrightarrow> sc_recorded s' = sc_recorded s @ map migration_version pend \<and>
       exec_files sql fs pend (sc_Data s) = Some (sc_Data s'))"
  using RunMigrations_outcome [OF assms] unfolding progress_def by blast

theorem RunMigrations_in_order_witness:
  "\<exists>k \<le> length [''001.up.sql'', ''002.up.sql''].
     [''001''] = map migration_version (take k [''001.up.sql'', ''002.up.sql''])"
proof -
  have rd: "fs_ReadDir demo_fs =
      Inr [(''002.up.sql'', False), (''002.down.sql'', False), (''001.up.sql'', False)]"
    by (simp add: demo_fs_def)
  have vs: "sc_recorded demo_schema = []" by (simp add: sc_recorded_def demo_schema_def)
  have p: "[''001.up.sql'', ''002.up.sql''] = pending_files (sc_recorded demo_schema)
      (up_files [(''002.up.sql'', False), (''002.down.sql'', False), (''001.up.sql'', False)])"
    by (simp add: pending_files_def demo_up_files vs)
  have r: "sc_recorded \<lparr>sc_Versions = Some [''001''], sc_Data = [''001.up.sql'', ''002.up.sql'']\<rparr> = [''001'']"
    by (simp add: sc_recorded_def)
  from RunMigrations_in_order [OF demo_recording_lost alone_fates rd _ p, THEN conjunct1]
  obtain k where "k \<le> length [''001.up.sql'', ''002.up.sql'']"
    "[''001''] = [] @ map migration_version (take k [''001.up.sql'', ''002.up.sql''])"
    unfolding r vs by auto
  then show ?thesis by (intro exI [of _ k] conjI) (simp_all only: append_Nil)
qed

text \<open>
  When no statement is lost and the text of every pending file executes, the pass succeeds.
\<close>

theorem RunMigrations_succeeds:
  assumes "\<And>n. se_Fault E n = Delivered" and "alone E"
    and "fs_ReadDir fs = Inr entries" and "distinct (map fst entries)"
    and "exec_files sql fs (pending_files (sc_recorded s) (up_files entries)) (sc_Data s) = Some d"
  shows "\<exists>n' s'. run_state (RunMigrations E sql fs) (n, s) = (Inr (), n', s') \<and> sc_Data s' = d"
proof -
  let ?s = "s\<lparr>sc_Versions := Some (sc_recorded s)\<rparr>"
  have s: "create_table_stmt s = (Inr (), ?s)"
    by (simp add: create_table_stmt_def sc_recorded_def split: option.split)
  have "fst (run_state (apply_migrations E sql fs (up_files entries)) (Suc n, ?s)) = Inr ()"
    by (rule apply_migrations_succeeds [where vs = "sc_recorded s", OF assms(1,2) _ distinct_versions [OF assms(4)]])
      (simp_all add: assms(5))
  then have "fst (run_state (RunMigrations E sql fs) (n, s)) = Inr ()"
    using s assms(3) by (simp add: RunMigrations_def delivered_call [OF assms(1,2)])
  then obtain n' s' where run: "run_state (RunMigrations E sql fs) (n, s) = (Inr (), n', s')"
    by (metis prod.collapse)
  have "exec_files sql fs (pending_files (sc_recorded s) (up_files entries)) (sc_Data s) = Some (sc_Data s')"
    using RunMigrations_outcome [OF run assms(2-4) refl] by simp
  then show ?thesis using run assms(5) by simp
qed

theorem RunMigrations_succeeds_witness:
  "\<exists>n' s'. run_state (RunMigrations (fates {}) demo_sql demo_fs) (0, demo_schema) = (Inr (), n', s') \<and>
     sc_Data s' = [''001.up.sql'', ''002.up.sql'']"
  by (rule RunMigrations_succeeds [where entries =
        "[(''002.up.sql'', False), (''002.down.sql'', False), (''001.up.sql'', False)]"])
    (simp_all add: fates_def alone_def demo_fs_def demo_up_files demo_schema_def sc_recorded_def
      pending_files_def demo_sql_def)

text \<open>
  C36. Migrations are idempotent: after a pass that reported success, a later pass with the same
  files changes nothing and records nothing, whatever becomes of its statements.
\<close>

theorem RunMigrations_rerun:
  assumes "run_state (RunMigrations E sql fs) (n, s) = (Inr (), n1, s1)" and "alone E"
    and "fs_ReadDir fs = Inr entries" and "distinct (map fst entries)"
    and "run_state (RunMigrations E' sql fs) (n1, s1) = (r, n2, s2)" and "alone E'"
  shows "sc_recorded s2 = sc_recorded s1 \<and> sc_Data s2 = sc_Data s1"
proof -
  have "pending_files (sc_recorded s1) (up_files entries) = []"
    using RunMigrations_outcome [OF assms(1-4) refl] pending_after by simp
  from RunMigrations_outcome [OF assms(5,6,3,4) this [symmetric]] show ?thesis
    by (auto simp: progress_def)
qed

theorem RunMigrations_rerun_witness:
  "sc_recorded (snd (snd (run_state (RunMigrations (fates {4}) demo_sql demo_fs)
      (7, \<lparr>sc_Versions = Some [''001'', ''002''], sc_Data = [''001.up.sql'', ''002.up.sql'']\<rparr>)))) =
   [''001'', ''002'']"
proof -
  let ?s = "\<lparr>sc_Versions = Some [''001'', ''002''], sc_Data = [''001.up.sql'', ''002.up.sql'']\<rparr>"
  let ?x = "run_state (RunMigrations (fates {4}) demo_sql demo_fs) (7, ?s)"
  have run: "run_state (RunMigrations (fates {}) demo_sql demo_fs) (0, demo_schema) = (Inr (), 7, ?s)"
    by (simp add: demo_run)
  have rd: "fs_ReadDir demo_fs =
      Inr [(''002.up.sql'', False), (''002.down.sql'', False), (''001.up.sql'', False)]"
    by (simp add: demo_fs_def)
  have "?x = (fst ?x, fst (snd ?x), snd (snd ?x))" by simp
  from RunMigrations_rerun [OF run alone_fates rd _ this alone_fates]
  show ?thesis by (simp add: sc_recorded_def)
qed

end
