(* ===== verification/Processes.thy ===== *)
theory Processes
  imports Config Handlers Attempt_Props Router_Props Migrate
begin

text \<open>
  \<open>cmd/worker/main.go\<close> and \<open>cmd/api/main.go\<close>: how the two processes are put together from the
  environment variables. \<open>pool_ok\<close> and \<open>redis_url_ok\<close> say whether \<open>pgxpool.New\<close> and
  \<open>redis.ParseURL\<close> take the configured URL. The result is the process that then runs its loops
  until its context is cancelled, or \<open>Inl\<close> of the code given to \<open>os.Exit\<close>.
\<close>

definition ping_db :: "'z env \<Rightarrow> ('z world, err + unit) state" where
  "ping_db E = pg E (\<lambda>n d. (Inr (), d))"

definition ping_redis :: "'z env \<Rightarrow> ('z world, err + unit) state" where
  "ping_redis E = rcmd E (\<lambda>now q. ((), q))"

section \<open>The worker\<close>

record payload_decoders =
  pd_Email :: "string \<Rightarrow> string + email_payload"
  pd_Report :: "string \<Rightarrow> string + report_payload"
  pd_Webhook :: "string \<Rightarrow> string + webhook_payload"

definition worker_process ::
  "'z zset_ops \<Rightarrow> uuid_ops \<Rightarrow> 'z env \<Rightarrow> payload_decoders \<Rightarrow> job_context \<Rightarrow> config \<Rightarrow>
   'z world worker_proc" where
  "worker_process R U E P ended cfg =
     (let w0 = NewWorker (cfg_WorkerID cfg) True (RedisQueue R U E) (cfg_PollInterval cfg)
                 (cfg_JobTimeout cfg) (cfg_VisibilityTimeout cfg) (cfg_HeartbeatInterval cfg)
                 (cfg_Concurrency cfg);
          w1 = RegisterHandler w0 ''send_email'' (HandleSendEmail (pd_Email P) ended);
          w2 = RegisterHandler w1 ''generate_report'' (HandleGenerateReport (pd_Report P) ended)
      in RegisterHandler w2 ''webhook_delivery'' (HandleWebhookDelivery (pd_Webhook P) ended))"

definition worker_main ::
  "'z zset_ops \<Rightarrow> uuid_ops \<Rightarrow> 'z env \<Rightarrow> payload_decoders \<Rightarrow> job_context \<Rightarrow>
   (string \<Rightarrow> bool) \<Rightarrow> (string \<Rightarrow> bool) \<Rightarrow> (string \<Rightarrow> string) \<Rightarrow> string option \<Rightarrow> nat \<Rightarrow>
   ('z world, int + 'z world worker_proc) state" where
  "worker_main R U E P ended pool_ok redis_url_ok getenv hostname pid =
     (let cfg = Load getenv hostname pid in
      if \<not> pool_ok (cfg_DatabaseURL cfg) then State_Monad.return (Inl 1)
      else do {
        d \<leftarrow> ping_db E;
        case d of
          Inl e \<Rightarrow> State_Monad.return (Inl 1)
        | Inr _ \<Rightarrow>
            if \<not> redis_url_ok (cfg_RedisURL cfg) then State_Monad.return (Inl 1)
            else do {
              p \<leftarrow> ping_redis E;
              State_Monad.return (case p of
                Inl e \<Rightarrow> Inl 1
              | Inr _ \<Rightarrow> Inr (worker_process R U E P ended cfg))
            }
      })"

section \<open>The API\<close>

record 'z api_process =
  ap_Router :: "'z world http_handler"
  ap_Engine :: "'z world workflow_engine"
  ap_Scheduler :: "'z world retry_scheduler"
  ap_Supervisor :: "'z world worker_supervisor"
  ap_Addr :: string

definition api_server ::
  "'z zset_ops \<Rightarrow> uuid_ops \<Rightarrow> 'z env \<Rightarrow> 'z world http_handler \<Rightarrow> json_decoders \<Rightarrow>
   (degrees \<Rightarrow> degrees) \<Rightarrow> config \<Rightarrow> 'z api_process" where
  "api_server R U E promhttp J ord cfg =
     (let q = RedisQueue R U E;
          workflowEngine = NewWorkflowEngine True True (Some q)
      in \<lparr>ap_Router = NewRouter promhttp J ord U E True (Some q) (Some workflowEngine),
          ap_Engine = workflowEngine,
          ap_Scheduler = NewRetryScheduler q (1 * second) 100,
          ap_Supervisor = NewWorkerSupervisor True (Some q) (10 * second) (cfg_WorkerDeadTimeout cfg),
          ap_Addr = '':'' @ show_int (cfg_APIPort cfg)\<rparr>)"

text \<open>The migrations run on the schema, between the two pings.\<close>

definition api_main ::
  "'z zset_ops \<Rightarrow> uuid_ops \<Rightarrow> 'z env \<Rightarrow> 'z world http_handler \<Rightarrow> json_decoders \<Rightarrow>
   (degrees \<Rightarrow> degrees) \<Rightarrow> 'd schema_env \<Rightarrow> 'd sql \<Rightarrow> embed_fs \<Rightarrow>
   (string \<Rightarrow> bool) \<Rightarrow> (string \<Rightarrow> bool) \<Rightarrow> (string \<Rightarrow> string) \<Rightarrow> string option \<Rightarrow> nat \<Rightarrow>
   nat \<times> 'd schema \<Rightarrow> ('z world, (int + 'z api_process) \<times> (nat \<times> 'd schema)) state" where
  "api_main R U E promhttp J ord SE sql fs pool_ok redis_url_ok getenv hostname pid m =
     (let cfg = Load getenv hostname pid in
      if \<not> pool_ok (cfg_DatabaseURL cfg) then State_Monad.return (Inl 1, m)
      else do {
        d \<leftarrow> ping_db E;
        case d of
          Inl e \<Rightarrow> State_Monad.return (Inl 1, m)
        | Inr _ \<Rightarrow>
            (case run_state (RunMigrations SE sql fs) m of (applied, m') \<Rightarrow>
               case applied of
                 Inl e \<Rightarrow> State_Monad.return (Inl 1, m')
               | Inr _ \<Rightarrow>
                   if \<not> redis_url_ok (cfg_RedisURL cfg) then State_Monad.return (Inl 1, m')
                   else do {
                     p \<leftarrow> ping_redis E;
                     State_Monad.return (case p of
                       Inl e \<Rightarrow> (Inl 1, m')
                     | Inr _ \<Rightarrow> (Inr (api_server R U E promhttp J ord cfg), m'))
                   })
      })"

section \<open>What a process that starts is\<close>

lemma worker_main_Inr:
  assumes "run_state (worker_main R U E P ended pool_ok redis_url_ok getenv hostname pid) w = (Inr W, w')"
  shows "W = worker_process R U E P ended (Load getenv hostname pid)"
  using assms by (simp add: worker_main_def Let_def split: if_splits sum.splits prod.splits)

lemma worker_process_fields:
  "wk_ID (worker_process R U E P ended cfg) = cfg_WorkerID cfg"
  "wk_Q (worker_process R U E P ended cfg) = RedisQueue R U E"
  "wk_QueueName (worker_process R U E P ended cfg) = DefaultQueue"
  "1 \<le> wk_Concurrency (worker_process R U E P ended cfg)"
  "0 < wk_VisibilityTimeout (worker_process R U E P ended cfg)"
  "0 < wk_HeartbeatInterval (worker_process R U E P ended cfg)"
  "wk_Handlers (worker_process R U E P ended cfg) =
     [''send_email'' \<mapsto> HandleSendEmail (pd_Email P) ended,
      ''generate_report'' \<mapsto> HandleGenerateReport (pd_Report P) ended,
      ''webhook_delivery'' \<mapsto> HandleWebhookDelivery (pd_Webhook P) ended]"
  by (simp_all add: worker_process_def RegisterHandler_def NewWorker_def Let_def second_def millisecond_def)

section \<open>Properties\<close>


definition demo_decoders :: payload_decoders where
  "demo_decoders =
     \<lparr>pd_Email = (\<lambda>s. Inr \<lparr>em_Recipient = s, em_Subject = [], em_Body = []\<rparr>),
      pd_Report = (\<lambda>s. Inl ''unexpected end of JSON input''),
      pd_Webhook = (\<lambda>s. Inl ''unexpected end of JSON input'')\<rparr>"

definition demo_process :: "zlist world worker_proc" where
  "demo_process = worker_process zlist_ops hex_uuid_ops quiet_env demo_decoders (\<lambda>d n. None)
     (Load (\<lambda>_. []) None 7)"

lemma demo_main:
  "run_state (worker_main zlist_ops hex_uuid_ops quiet_env demo_decoders (\<lambda>d n. None) (\<lambda>_. True)
     (\<lambda>_. True) (\<lambda>_. []) None 7) w =
   (Inr demo_process, w\<lparr>tick := tick w + 2\<rparr>)"
  by (simp add: worker_main_def Let_def ping_db_def ping_redis_def run_pg_reliable run_rcmd_reliable
      demo_process_def)


text \<open>
  C37. A job whose payload its handler refuses (it does not decode, or the required field is empty)
  is never lost nor run for ever: delivered to worker processes made by \<open>main\<close>, it is run exactly
  \<open>max_attempts\<close> times and ends in DEAD_LETTER.
\<close>

definition refused_payload :: "payload_decoders \<Rightarrow> job \<Rightarrow> bool" where
  "refused_payload P j \<longleftrightarrow>
     j_Type j = ''send_email'' \<and> (\<forall>p. pd_Email P (j_Payload j) = Inr p \<longrightarrow> em_Recipient p = []) \<or>
     j_Type j = ''generate_report'' \<and> (\<forall>p. pd_Report P (j_Payload j) = Inr p \<longrightarrow> rp_ReportType p = []) \<or>
     j_Type j = ''webhook_delivery'' \<and> (\<forall>p. pd_Webhook P (j_Payload j) = Inr p \<longrightarrow> wh_URL p = [])"

lemma refused_always_fails:
  assumes "refused_payload P j"
  shows "always_fails j (worker_process R U E P ended cfg)"
proof -
  have "\<exists>h. wk_Handlers (worker_process R U E P ended cfg) (j_Type j) = Some h \<and>
      (\<forall>n. h (j_Payload j) n \<noteq> None)"
    using assms unfolding refused_payload_def worker_process_fields
    by (elim disjE conjE; simp add: handler_success del: not_None_eq)
  then show ?thesis by (auto simp: always_fails_def)
qed


definition report_job :: job where
  "report_job = (demo_job 7 1)\<lparr>j_Type := ''generate_report''\<rparr>"

definition report_world :: "zlist world" where
  "report_world = demo_world\<lparr>db := empty_db\<lparr>jobs_table := [report_job]\<rparr>\<rparr>"


text \<open>
  C39. The API process serves only on a migrated schema: when \<open>main\<close> reaches its server, every
  pending migration has been executed and recorded in order (nobody else migrating meanwhile), the
  scheduler and the supervisor have positive periods, and the supervisor's dead timeout is positive
  whatever \<open>WORKER_DEAD_TIMEOUT\<close> says.
\<close>

theorem api_main_migrated:
  assumes "run_state (api_main R U E promhttp J ord SE sql fs pool_ok redis_url_ok getenv hostname pid (n, s)) w =
      ((Inr A, (n', s')), w')"
    and "alone SE" and "fs_ReadDir fs = Inr entries" and "distinct (map fst entries)"
    and "pend = pending_files (sc_recorded s) (up_files entries)"
  shows "sc_recorded s' = sc_recorded s @ map migration_version pend \<and>
    exec_files sql fs pend (sc_Data s) = Some (sc_Data s') \<and>
    rs_Interval (ap_Scheduler A) = second \<and> rs_BatchSize (ap_Scheduler A) = 100 \<and>
    ws_CheckPeriod (ap_Supervisor A) = 10 * second \<and> 0 < ws_DeadTimeout (ap_Supervisor A) \<and>
    ws_Q (ap_Supervisor A) = Some (rs_Q (ap_Scheduler A))"
proof -
  have run: "run_state (RunMigrations SE sql fs) (n, s) = (Inr (), n', s')"
    and A: "A = api_server R U E promhttp J ord (Load getenv hostname pid)"
    using assms(1) by (auto simp: api_main_def Let_def split: if_splits sum.splits prod.splits)
  from RunMigrations_outcome [OF run assms(2-5)]
  show ?thesis
    by (simp add: A api_server_def Let_def NewRetryScheduler_def NewWorkerSupervisor_def second_def
        millisecond_def)
qed

theorem api_main_migrated_witness:
  "\<exists>A w'. run_state (api_main zlist_ops hex_uuid_ops quiet_env panicking_page no_decoders id
      (fates {}) demo_sql demo_fs (\<lambda>_. True) (\<lambda>_. True) (\<lambda>_. []) None 7 (0, demo_schema)) (demo_world :: zlist world) =
    ((Inr A, (7, \<lparr>sc_Versions = Some [''001'', ''002''], sc_Data = [''001.up.sql'', ''002.up.sql'']\<rparr>)), w') \<and>
    0 < ws_DeadTimeout (ap_Supervisor A)"
proof -
  let ?A = "api_server zlist_ops hex_uuid_ops quiet_env panicking_page no_decoders id
      (Load (\<lambda>_. []) None 7)"
  have m: "run_state (RunMigrations (fates {}) demo_sql demo_fs) (0, demo_schema) =
      (Inr (), 7, \<lparr>sc_Versions = Some [''001'', ''002''], sc_Data = [''001.up.sql'', ''002.up.sql'']\<rparr>)"
    by (simp add: demo_run)
  have rd: "fs_ReadDir demo_fs =
      Inr [(''002.up.sql'', False), (''002.down.sql'', False), (''001.up.sql'', False)]"
    by (simp add: demo_fs_def)
  have run: "run_state (api_main zlist_ops hex_uuid_ops quiet_env panicking_page no_decoders id
      (fates {}) demo_sql demo_fs (\<lambda>_. True) (\<lambda>_. True) (\<lambda>_. []) None 7 (0, demo_schema)) demo_world =
      ((Inr ?A, (7, \<lparr>sc_Versions = Some [''001'', ''002''], sc_Data = [''001.up.sql'', ''002.up.sql'']\<rparr>)),
       demo_world\<lparr>tick := tick demo_world + 2\<rparr>)"
    by (simp add: api_main_def Let_def ping_db_def ping_redis_def run_pg_reliable run_rcmd_reliable m)
  from api_main_migrated [OF run alone_fates rd _ refl] run show ?thesis by auto
qed

end
