(* ===== verification/Request_Props.thy ===== *)
theory Request_Props
  imports System Router_Props
begin

text \<open>
  The whole API: a request through the middlewares, the route table and the handler behind it
  changes the database as every other activity of the program does.
\<close>

context db_invariant
begin

lemma keeps_api_endpoint:
  assumes ord: "\<And>d. mset (ord d) = mset d" and q: "list_all (queue_keeps inv) (handler_queues h)"
  shows "keeps inv (api_endpoint J ord U E h ep ps rq)"
  by (cases ep)
    (auto simp: api_endpoint_def Let_def intro!: pres keeps_CreateJob keeps_CancelJob keeps_RetryJob
      keeps_GetQueueStats keeps_CreateWorkflow [OF ord] q)

lemma keeps_NewRouter:
  assumes ord: "\<And>d. mset (ord d) = mset d"
    and q: "list_all (queue_keeps inv) (handler_queues (NewHandler ws q W))"
    and page: "\<And>rq hs. keeps inv (promhttp rq hs)"
  shows "keeps inv (NewRouter promhttp J ord U E ws q W rq hs)"
  unfolding NewRouter_def Let_def recoverPanic_def requestLogger_def corsMiddleware_def ServeMux_def
    run_endpoint_def
  by (intro pres page keeps_api_endpoint [OF ord q])

end

text \<open>
  C16. Every request is safe for the data: whatever its method, path, headers and body, whatever
  faults strike and whatever statements the other processes issue meanwhile, a request served by
  the router takes the database from one state to another by statements of the program under their
  preconditions, and so keeps the invariant of the tables, as long as the metrics page does not
  write to the database.
\<close>

theorem request_guarantee:
  assumes "\<And>d. mset (ord d) = mset d" and "others_statements E"
    and "\<forall>x \<in> set (handler_queues (NewHandler ws q W)). x = RedisQueue R V E"
    and "\<And>I rq hs. keeps (\<lambda>w. I (db w)) (promhttp rq hs)"
    and "run_state (NewRouter promhttp J ord U E ws q W rq hs) w = (reply, w')"
  shows "db_step\<^sup>*\<^sup>* (db w) (db w') \<and> (db_ok (db w) \<longrightarrow> db_ok (db w'))"
proof -
  let ?I = "\<lambda>d. db_step\<^sup>*\<^sup>* (db w) d"
  have inv: "db_invariant ?I E" by (rule db_invariantI [OF _ assms(2)]) simp
  have "queue_keeps (\<lambda>w. ?I (db w)) (RedisQueue R V E)"
    by (rule queue_keeps_RedisQueue [OF db_invariant.others [OF inv]])
  then have "list_all (queue_keeps (\<lambda>w. ?I (db w))) (handler_queues (NewHandler ws q W))"
    using assms(3) unfolding list_all_iff by metis
  from db_invariant.keeps_NewRouter [where promhttp = promhttp, OF inv assms(1) this assms(4)]
  have "keeps (\<lambda>w. ?I (db w)) (NewRouter promhttp J ord U E ws q W rq hs)" .
  from keepsD [OF this, of w] assms(5) have "db_step\<^sup>*\<^sup>* (db w) (db w')" by simp
  then show ?thesis using db_ok_steps by blast
qed

theorem request_guarantee_witness:
  "db_ok (db (snd (run_state (NewRouter panicking_page no_decoders rev hex_uuid_ops quiet_env True
     (Some (RedisQueue zlist_ops hex_uuid_ops quiet_env)) None
     (plain_request ''POST'' ''/api/v1/jobs/7/cancel'') Map.empty) demo_world)))"
proof -
  let ?rq = "plain_request ''POST'' ''/api/v1/jobs/7/cancel''" and ?E = "quiet_env :: zlist env"
  let ?Q = "RedisQueue zlist_ops hex_uuid_ops ?E"
  let ?x = "run_state (NewRouter panicking_page no_decoders rev hex_uuid_ops ?E True (Some ?Q) None ?rq Map.empty) demo_world"
  have q: "\<forall>x \<in> set (handler_queues (NewHandler True (Some ?Q) None)). x = ?Q"
    by (simp add: handler_queues_def NewHandler_def)
  have p: "keeps (\<lambda>w. I (db w)) (panicking_page rq hs)" for I rq hs
    unfolding panicking_page_def by (rule pres)
  have "?x = (fst ?x, snd ?x)" by simp
  from request_guarantee [OF mset_rev reliable_others [OF reliable_quiet_env] q p this]
  show ?thesis using db_ok_empty by (simp add: demo_world_def)
qed

end
