(* ===== verification/Deployment.thy ===== *)
theory Deployment
  imports Worker_Run Processes Request_Props
begin

text \<open>
  The processes while they run. \<open>api_run\<close> is \<open>cmd/api/main.go\<close> after its start-up: the HTTP server, the
  three background loops and the graceful shutdown. \<open>deploy_run\<close> is any number of API and worker
  processes on one database and one Redis, started by \<open>main\<close> with any environment variables and
  killed at any moment. The last section proves that the data survive all of it.
\<close>

section \<open>The API process\<close>

text \<open>
  A request is accepted, answered on a connection of its own, and forgotten; the listener may fail;
  a signal stops the listener and leaves the requests at hand ten seconds.
\<close>

datatype server_phase = Serving | ShuttingDown | Exited int

record api_threads =
  at_Phase :: server_phase
  at_Requests :: "http_request list"

definition api_init :: api_threads where
  "api_init = \<lparr>at_Phase = Serving, at_Requests = []\<rparr>"

inductive api_run ::
  "uuid_ops \<Rightarrow> 'z env \<Rightarrow> 'z api_process \<Rightarrow> api_threads \<times> 'z world \<Rightarrow> api_threads \<times> 'z world \<Rightarrow> bool"
  for U E A where
  Accept: "at_Phase s = Serving \<Longrightarrow>
    api_run U E A (s, w) (s\<lparr>at_Requests := rq # at_Requests s\<rparr>, w)"
| Answer: "at_Phase s \<in> {Serving, ShuttingDown} \<Longrightarrow> at_Requests s = rqs @ rq # rest \<Longrightarrow>
    run_state (ap_Router A rq Map.empty) w = (reply, w') \<Longrightarrow>
    api_run U E A (s, w) (s\<lparr>at_Requests := rqs @ rest\<rparr>, w')"
| EngineTick: "at_Phase s \<in> {Serving, ShuttingDown} \<Longrightarrow>
    run_state (WorkflowEngine_Run U E (ap_Engine A) 1) w = (u, w') \<Longrightarrow> api_run U E A (s, w) (s, w')"
| SchedulerTick: "at_Phase s \<in> {Serving, ShuttingDown} \<Longrightarrow>
    run_state (RetryScheduler_Run E (ap_Scheduler A) 1) w = (u, w') \<Longrightarrow> api_run U E A (s, w) (s, w')"
| SupervisorTick: "at_Phase s \<in> {Serving, ShuttingDown} \<Longrightarrow>
    run_state (WorkerSupervisor_Run E (ap_Supervisor A) 1) w = (u, w') \<Longrightarrow> api_run U E A (s, w) (s, w')"
| ListenFailed: "at_Phase s = Serving \<Longrightarrow> api_run U E A (s, w) (s\<lparr>at_Phase := Exited 1\<rparr>, w)"
| Signal: "at_Phase s = Serving \<Longrightarrow> api_run U E A (s, w) (s\<lparr>at_Phase := ShuttingDown\<rparr>, w)"
| ShutDown: "at_Phase s = ShuttingDown \<Longrightarrow> at_Requests s = [] \<Longrightarrow>
    api_run U E A (s, w) (s\<lparr>at_Phase := Exited 0\<rparr>, w)"
| ShutdownTimedOut: "at_Phase s = ShuttingDown \<Longrightarrow>
    api_run U E A (s, w) (s\<lparr>at_Phase := Exited 0, at_Requests := []\<rparr>, w)"

inductive_cases api_runE: "api_run U E A (s, w) (s', w')"

text \<open>Once it shuts down it accepts nothing more, and when it has exited it does nothing.\<close>

lemma api_run_exits:
  assumes "api_run U E A (s, w) (s', w')" and "at_Phase s \<noteq> Serving"
  shows "at_Phase s = ShuttingDown \<and> at_Phase s' \<in> {ShuttingDown, Exited 0} \<and>
    set (at_Requests s') \<subseteq> set (at_Requests s)"
  using assms by cases auto

text \<open>A shutdown can answer every request at hand, whatever the handlers do.\<close>

lemma api_shuts_down:
  "at_Phase s = ShuttingDown \<Longrightarrow> \<exists>s' w'. (api_run U E A)\<^sup>*\<^sup>* (s, w) (s', w') \<and> at_Phase s' = Exited 0"
proof (induction "at_Requests s" arbitrary: s w)
  case Nil
  then have "api_run U E A (s, w) (s\<lparr>at_Phase := Exited 0\<rparr>, w)" by (intro api_run.ShutDown) simp_all
  then show ?case by (intro exI [of _ "s\<lparr>at_Phase := Exited 0\<rparr>"] exI [of _ w]) auto
next
  case (Cons rq rqs)
  obtain reply w1 where "run_state (ap_Router A rq Map.empty) w = (reply, w1)" by fastforce
  then have "api_run U E A (s, w) (s\<lparr>at_Requests := rqs\<rparr>, w1)"
    using api_run.Answer [of s "[]" rq rqs A w reply w1 U E] Cons.hyps(2) Cons.prems by simp
  moreover obtain s' w' where "(api_run U E A)\<^sup>*\<^sup>* (s\<lparr>at_Requests := rqs\<rparr>, w1) (s', w')" "at_Phase s' = Exited 0"
    using Cons.hyps(1) [of "s\<lparr>at_Requests := rqs\<rparr>" w1] Cons.prems by auto
  ultimately show ?case by (meson converse_rtranclp_into_rtranclp)
qed

section \<open>All processes\<close>

text \<open>What is outside the processes: the servers' commands, the decoders, what the URLs are good for.\<close>

record 'z site =
  st_Zset :: "'z zset_ops"
  st_UUID :: uuid_ops
  st_Page :: "'z world http_handler"
  st_Json :: json_decoders
  st_Order :: "degrees \<Rightarrow> degrees"
  st_Payloads :: payload_decoders
  st_Ended :: job_context
  st_PoolOK :: "string \<Rightarrow> bool"
  st_RedisOK :: "string \<Rightarrow> bool"

abbreviation site_queue :: "'z site \<Rightarrow> 'z env \<Rightarrow> 'z world queue_iface" where
  "site_queue S E \<equiv> RedisQueue (st_Zset S) (st_UUID S) E"

abbreviation site_api :: "'z site \<Rightarrow> 'z env \<Rightarrow> config \<Rightarrow> 'z api_process" where
  "site_api S E cfg \<equiv> api_server (st_Zset S) (st_UUID S) E (st_Page S) (st_Json S) (st_Order S) cfg"

record 'z deployment =
  dp_Apis :: "('z api_process \<times> api_threads) list"
  dp_Workers :: "('z world worker_proc \<times> worker_threads) list"

inductive deploy_run ::
  "'z site \<Rightarrow> 'z env \<Rightarrow> 'z env \<Rightarrow> 'z deployment \<times> 'z world \<Rightarrow> 'z deployment \<times> 'z world \<Rightarrow> bool"
  for S E B where
  StartApi:
    "deploy_run S E B (D, w)
       (D\<lparr>dp_Apis := (site_api S E (Load getenv hostname pid), api_init) # dp_Apis D\<rparr>, w)"
| StartWorker:
    "run_state (worker_main (st_Zset S) (st_UUID S) E (st_Payloads S) (st_Ended S) (st_PoolOK S)
       (st_RedisOK S) getenv hostname pid) w = (Inr W, w1) \<Longrightarrow> run_init E W w1 = (s, w') \<Longrightarrow>
     deploy_run S E B (D, w) (D\<lparr>dp_Workers := (W, s) # dp_Workers D\<rparr>, w')"
| ApiStep:
    "dp_Apis D = as @ (A, s) # bs \<Longrightarrow> api_run (st_UUID S) E A (s, w) (s', w') \<Longrightarrow>
     deploy_run S E B (D, w) (D\<lparr>dp_Apis := as @ (A, s') # bs\<rparr>, w')"
| WorkerStep:
    "dp_Workers D = vs @ (W, s) # ws \<Longrightarrow> worker_run E B (site_queue S B) W (s, w) (s', w') \<Longrightarrow>
     deploy_run S E B (D, w) (D\<lparr>dp_Workers := vs @ (W, s') # ws\<rparr>, w')"
| KillApi:
    "dp_Apis D = as @ a # bs \<Longrightarrow> deploy_run S E B (D, w) (D\<lparr>dp_Apis := as @ bs\<rparr>, w)"
| KillWorker:
    "dp_Workers D = vs @ v # ws \<Longrightarrow> deploy_run S E B (D, w) (D\<lparr>dp_Workers := vs @ ws\<rparr>, w)"

inductive_cases deploy_runE: "deploy_run S E B (D, w) (D', w')"

section \<open>What every step keeps\<close>

context db_invariant
begin

lemma keeps_api_loops:
  assumes "queue_keeps inv (RedisQueue R V E)" and A: "A = api_server R V E page J ord cfg"
  shows "keeps inv (WorkflowEngine_Run U E (ap_Engine A) n)"
    "keeps inv (RetryScheduler_Run E (ap_Scheduler A) n)"
    "keeps inv (WorkerSupervisor_Run E (ap_Supervisor A) n)"
  unfolding WorkflowEngine_Run_def RetryScheduler_Run_def WorkerSupervisor_Run_def A
  by (intro pres keeps_pollRunningWorkflows keeps_PollAndRequeue keeps_ReapDeadWorkers;
      simp add: api_server_def Let_def NewWorkflowEngine_def NewRetryScheduler_def NewWorkerSupervisor_def assms(1))+

lemma keeps_api_router:
  assumes "queue_keeps inv (RedisQueue R U E)" and "\<And>d. mset (ord d) = mset d"
    and "\<And>rq hs. keeps inv (page rq hs)"
  shows "keeps inv (ap_Router (api_server R U E page J ord cfg) rq hs)"
  unfolding api_server_def Let_def api_process.select_convs
  by (rule keeps_NewRouter [where promhttp = page]) 
    (simp_all add: assms handler_queues_def NewHandler_def NewWorkflowEngine_def)

lemma keeps_worker_main: "keeps inv (worker_main R U E P ended pool_ok redis_url_ok getenv hostname pid)"
  unfolding worker_main_def ping_db_def ping_redis_def Let_def
  by (intro pres keeps_pg [OF others] keeps_rcmd [OF others]) simp

end

lemma api_run_keeps:
  assumes E: "db_invariant I E" and ord: "\<And>d. mset (ord d) = mset d"
    and page: "\<And>rq hs. keeps (\<lambda>w. I (db w)) (page rq hs)"
    and inv: "I (db w)" and step: "api_run U E (api_server R U E page J ord cfg) (s, w) (s', w')"
  shows "I (db w')"
proof -
  have Q: "queue_keeps (\<lambda>w. I (db w)) (RedisQueue R U E)"
    by (rule queue_keeps_RedisQueue [OF db_invariant.others [OF E]])
  note parts = db_invariant.keeps_api_router [OF E Q ord page] db_invariant.keeps_api_loops [OF E Q refl]
  from step inv show ?thesis by cases (auto dest: parts [THEN keeps_run])
qed

text \<open>Every process is one that \<open>main\<close> made.\<close>

definition made_by_main :: "'z site \<Rightarrow> 'z env \<Rightarrow> 'z deployment \<Rightarrow> bool" where
  "made_by_main S E D \<longleftrightarrow>
     (\<forall>(A, s) \<in> set (dp_Apis D). \<exists>cfg. A = site_api S E cfg) \<and>
     (\<forall>(W, s) \<in> set (dp_Workers D). wk_Q W = site_queue S E \<and> 1 \<le> wk_Concurrency W \<and> threads_inv W s)"

lemma made_by_main_step:
  assumes "deploy_run S E B (D, w) (D', w')" and "made_by_main S E D"
  shows "made_by_main S E D'"
  using assms(1)
proof cases
  case (StartWorker getenv hostname pid W w1 s)
  have "threads_inv W s" using threads_inv_init [of W E w1] StartWorker(3) by simp
  then show ?thesis
    using assms(2) StartWorker(1) worker_main_Inr [OF StartWorker(2)]
    by (auto simp: made_by_main_def worker_process_fields)
next
  case (WorkerStep vs W s ws s')
  then have "(W, s) \<in> set (dp_Workers D)" by simp
  then have W: "wk_Q W = site_queue S E" "1 \<le> wk_Concurrency W" "threads_inv W s"
    using assms(2) by (auto simp: made_by_main_def)
  from threads_inv_step [OF WorkerStep(3) W(3)] W show ?thesis
    using assms(2) WorkerStep(1,2) by (auto simp: made_by_main_def)
qed (use assms(2) in \<open>auto simp: made_by_main_def\<close>)

lemma deploy_run_keeps:
  assumes E: "db_invariant I E" and B: "db_invariant I B" and ord: "\<And>d. mset (st_Order S d) = mset d"
    and page: "\<And>rq hs. keeps (\<lambda>w. I (db w)) (st_Page S rq hs)"
    and made: "made_by_main S E D" and inv: "I (db w)" and step: "deploy_run S E B (D, w) (D', w')"
  shows "I (db w')"
proof -
  note Q = queue_keeps_RedisQueue [OF db_invariant.others [OF E]] queue_keeps_RedisQueue [OF db_invariant.others [OF B]]
  from step show ?thesis
  proof cases
    case (StartWorker getenv hostname pid W w1 s)
    have "I (db w1)" by (rule keeps_run [OF db_invariant.keeps_worker_main [OF E] StartWorker(2) inv])
    with keepsD [OF db_invariant.keeps_worker_status(1) [OF E], of w1] StartWorker(3)
    show ?thesis by (auto simp: run_init_def)
  next
    case (ApiStep as A s bs s')
    then obtain cfg where "A = site_api S E cfg" using made by (auto simp: made_by_main_def)
    with ApiStep(3) have run: "api_run (st_UUID S) E (site_api S E cfg) (s, w) (s', w')" by simp
    show ?thesis
      by (rule api_run_keeps [where page = "st_Page S" and ord = "st_Order S", OF E ord page inv run])
  next
    case (WorkerStep vs W s ws s')
    then have "wk_Q W = site_queue S E" using made by (auto simp: made_by_main_def)
    with worker_run_keeps [OF E B _ Q(2) inv WorkerStep(3)] Q(1) show ?thesis by simp
  qed (use inv in simp_all)
qed

lemma deploy_statements:
  assumes "others_statements E" and "others_statements B" and "\<And>d. mset (st_Order S d) = mset d"
    and "\<And>I rq hs. keeps (\<lambda>w. I (db w)) (st_Page S rq hs)"
    and "made_by_main S E (fst x)" and "(deploy_run S E B)\<^sup>*\<^sup>* x y"
  shows "made_by_main S E (fst y) \<and> db_step\<^sup>*\<^sup>* (db (snd x)) (db (snd y))"
  using assms(6)
proof (induction)
  case base
  then show ?case using assms(5) by simp
next
  case (step y z)
  let ?I = "\<lambda>d. db_step\<^sup>*\<^sup>* (db (snd x)) d"
  have "db_invariant ?I E" "db_invariant ?I B"
    by (rule db_invariantI [OF _ assms(1)] db_invariantI [OF _ assms(2)]; simp)+
  from deploy_run_keeps [OF this assms(3,4), where D = "fst y" and w = "snd y" and D' = "fst z" and w' = "snd z"]
    made_by_main_step [of S E B "fst y" "snd y" "fst z" "snd z"] step.IH step.hyps(2)
  show ?case by simp
qed

section \<open>The data survive\<close>

lemma steps_keep_rows:
  assumes "db_step\<^sup>*\<^sup>* d d'" and "db_ok d" and "j \<in> set (jobs_table d)"
  shows "\<exists>!j'. j' \<in> set (jobs_table d') \<and> j_ID j' = j_ID j \<and> same_request j j'"
proof -
  obtain j' where "j' \<in> set (jobs_table d')" "same_request j j'" using db_steps_row [OF assms] by blast
  moreover have "distinct (map j_ID (jobs_table d'))" using db_ok_ids [OF db_ok_steps [OF assms(1,2)]] .
  ultimately show ?thesis
    using unique_row [of "jobs_table d'"] by (intro ex1I [of _ j']) (auto simp: same_request_def)
qed

text \<open>
  C4. The whole deployment is safe: any number of API and worker processes, started by \<open>main\<close> with
  any environment variables and killed at any moment, with their requests, ticks, goroutines and
  shutdowns interleaved in any way, on connections that fail in any way. The invariant of the tables
  holds at every moment; no job that was in the database at one moment is gone or asks for something
  else at a later one; and no worker runs more goroutines than it has slots.
\<close>

theorem deployment_safe:
  assumes "others_statements E" and "others_statements B" and "\<And>d. mset (st_Order S d) = mset d"
    and "\<And>I rq hs. keeps (\<lambda>w. I (db w)) (st_Page S rq hs)" and "db_ok (db w0)"
    and "(deploy_run S E B)\<^sup>*\<^sup>* (\<lparr>dp_Apis = [], dp_Workers = []\<rparr>, w0) (D1, w1)"
    and "(deploy_run S E B)\<^sup>*\<^sup>* (D1, w1) (D2, w2)"
  shows "db_ok (db w2) \<and>
    (\<forall>j \<in> set (jobs_table (db w1)).
       \<exists>!j'. j' \<in> set (jobs_table (db w2)) \<and> j_ID j' = j_ID j \<and> same_request j j') \<and>
    (\<forall>(W, s) \<in> set (dp_Workers D2). int (length (wt_Goroutines s)) \<le> wk_Concurrency W)"
proof -
  have 0: "made_by_main S E (fst (\<lparr>dp_Apis = [], dp_Workers = []\<rparr>, w0))" by (simp add: made_by_main_def)
  note 1 = deploy_statements [OF assms(1-4) 0 assms(6)]
  then have m1: "made_by_main S E (fst (D1, w1))" by simp
  note 2 = deploy_statements [OF assms(1-4) m1 assms(7)]
  have ok1: "db_ok (db w1)" using db_ok_steps [OF _ assms(5)] 1 by simp
  have s2: "db_step\<^sup>*\<^sup>* (db w1) (db w2)" using 2 by simp
  have "int (length (wt_Goroutines s)) \<le> wk_Concurrency W" if "(W, s) \<in> set (dp_Workers D2)" for W s
    using 2 that by (force simp: made_by_main_def threads_inv_def split: if_splits)
  then show ?thesis using db_ok_steps [OF s2 ok1] steps_keep_rows [OF s2 ok1] by blast
qed

definition demo_site :: "zlist site" where
  "demo_site =
     \<lparr>st_Zset = zlist_ops, st_UUID = hex_uuid_ops, st_Page = panicking_page, st_Json = no_decoders,
      st_Order = rev, st_Payloads = demo_decoders, st_Ended = (\<lambda>d n. None), st_PoolOK = (\<lambda>_. True),
      st_RedisOK = (\<lambda>_. True)\<rparr>"

text \<open>One worker and one API process, which is answering a request.\<close>

lemma demo_deployment:
  obtains D w where "(deploy_run demo_site quiet_env quiet_env)\<^sup>*\<^sup>*
      (\<lparr>dp_Apis = [], dp_Workers = []\<rparr>, demo_jobs_world) (D, w)"
    and "length (dp_Apis D) = 1" and "length (dp_Workers D) = 1"
proof -
  let ?E = "quiet_env :: zlist env" and ?w0 = demo_jobs_world
  let ?r = "deploy_run demo_site ?E ?E" and ?D0 = "\<lparr>dp_Apis = [], dp_Workers = []\<rparr> :: zlist deployment"
  obtain s w1 where init: "run_init ?E demo_process (?w0\<lparr>tick := tick ?w0 + 2\<rparr>) = (s, w1)" by fastforce
  have main: "run_state (worker_main (st_Zset demo_site) (st_UUID demo_site) ?E (st_Payloads demo_site)
      (st_Ended demo_site) (st_PoolOK demo_site) (st_RedisOK demo_site) (\<lambda>_. []) None 7) ?w0 =
      (Inr demo_process, ?w0\<lparr>tick := tick ?w0 + 2\<rparr>)"
    using demo_main [of ?w0] by (simp add: demo_site_def)
  let ?D1 = "?D0\<lparr>dp_Workers := [(demo_process, s)]\<rparr>"
  let ?A = "site_api demo_site ?E (Load (\<lambda>_. []) None 7)"
  let ?D2 = "?D1\<lparr>dp_Apis := [(?A, api_init)]\<rparr>"
  let ?D3 = "?D2\<lparr>dp_Apis := [(?A, api_init\<lparr>at_Requests := [plain_request ''GET'' ''/health'']\<rparr>)]\<rparr>"
  have "?r (?D0, ?w0) (?D1, w1)" using deploy_run.StartWorker [OF main init, of ?E ?D0] by simp
  moreover have "?r (?D1, w1) (?D2, w1)"
    using deploy_run.StartApi [of demo_site ?E ?E ?D1 w1 "\<lambda>_. []" None 7] by simp
  moreover have "?r (?D2, w1) (?D3, w1)"
    using deploy_run.ApiStep [of ?D2 "[]" ?A api_init "[]" demo_site ?E w1 _ w1 ?E]
      api_run.Accept [of api_init "st_UUID demo_site" ?E ?A w1 "plain_request ''GET'' ''/health''"]
    by (simp add: api_init_def)
  ultimately have "?r\<^sup>*\<^sup>* (?D0, ?w0) (?D3, w1)" by (meson rtranclp.rtrancl_into_rtrancl rtranclp.rtrancl_refl)
  then show ?thesis by (rule that) simp_all
qed

theorem deployment_safe_witness:
  "\<exists>(D :: zlist deployment) w. length (dp_Apis D) = 1 \<and> length (dp_Workers D) = 1 \<and> db_ok (db (w :: zlist world)) \<and>
    (\<exists>!j'. j' \<in> set (jobs_table (db w)) \<and> j_ID j' = 7 \<and> same_request (demo_job 7 1) j')"
proof -
  obtain D w where run: "(deploy_run demo_site quiet_env quiet_env)\<^sup>*\<^sup>*
      (\<lparr>dp_Apis = [], dp_Workers = []\<rparr>, demo_jobs_world) (D, w)"
    and one: "length (dp_Apis D) = 1" "length (dp_Workers D) = 1"
    by (rule demo_deployment)
  have page: "keeps (\<lambda>w. I (db w)) (st_Page demo_site rq hs)" for I rq hs
    unfolding demo_site_def site.select_convs panicking_page_def by (rule pres)
  have ord: "mset (st_Order demo_site d) = mset d" for d by (simp add: demo_site_def)
  note o = reliable_others [OF reliable_quiet_env]
  from deployment_safe [OF o o ord page demo_jobs_row(2) rtranclp.rtrancl_refl run]
  have "db_ok (db w)" "\<exists>!j'. j' \<in> set (jobs_table (db w)) \<and> j_ID j' = 7 \<and> same_request (demo_job 7 1) j'"
    by (simp_all add: demo_jobs_world_def)
  with one show ?thesis by blast
qed

end
