(* ===== verification/Known_Limits.thy ===== *)
theory Known_Limits
  imports Engine_Props
begin

text \<open>
  Behaviours of the code that its comments or its README do not promise, each proved on the model:
  what a cancelled job, a cancelled workflow and a wrongly reaped worker may still become.
\<close>

section \<open>A cancelled job may run again\<close>

text \<open>
  \<open>RecordFailure\<close> and \<open>MarkSucceeded\<close> do not look at the status: a job that is cancelled while its
  attempt runs is RETRYING (and due again) or SUCCEEDED when the attempt ends.
\<close>

lemma cancelled_row:
  assumes "job_row jid d = Some j" and "j_Status j = JobStatusRunning"
  shows "\<exists>j'. job_row jid (snd (cancel_stmt jid now d)) = Some j' \<and> j_Status j' = JobStatusCancelled \<and>
    j_Attempt j' = j_Attempt j \<and> j_MaxAttempts j' = j_MaxAttempts j"
  using assms row_of_SomeD [OF assms(1)]
  by (simp add: cancel_stmt_def Let_def update_jobs_def row_of_update_where)

lemma updated_row:
  assumes "job_row jid d = Some j" and "\<And>x. j_ID (f x) = j_ID x"
  shows "job_row jid (update_jobs (\<lambda>x. j_ID x = jid) f d) = Some (f j)"
  using assms row_of_SomeD [OF assms(1)] by (simp add: update_jobs_def row_of_update_where)

lemma cancelled_job_resurrected:
  assumes "job_row jid d = Some j" and "j_Status j = JobStatusRunning" and "j_Attempt j < j_MaxAttempts j"
  shows "\<exists>j'. job_row jid (snd (record_failure_stmt jid msg due done_at (snd (cancel_stmt jid now d)))) = Some j' \<and>
    j_Status j' = JobStatusRetrying \<and> claimable j'"
proof -
  obtain j1 where j1: "job_row jid (snd (cancel_stmt jid now d)) = Some j1" "j_Attempt j1 < j_MaxAttempts j1"
    using cancelled_row [OF assms(1,2), of now] assms(3) by auto
  from updated_row [OF j1(1), of "fail_job msg due done_at"] j1(2) show ?thesis
    by (simp add: record_failure_stmt_def fail_job_def claimable_def)
qed

lemma cancelled_job_succeeds:
  assumes "job_row jid d = Some j" and "j_Status j = JobStatusRunning"
  shows "\<exists>j'. job_row jid (snd (mark_succeeded_stmt jid done_at (snd (cancel_stmt jid now d)))) = Some j' \<and>
    j_Status j' = JobStatusSucceeded"
proof -
  obtain j1 where j1: "job_row jid (snd (cancel_stmt jid now d)) = Some j1"
    using cancelled_row [OF assms, of now] by auto
  from updated_row [OF j1, of "succeed_job done_at"] show ?thesis
    by (simp add: mark_succeeded_stmt_def succeed_job_def)
qed

section \<open>Cancelling a workflow leaves its jobs\<close>

text \<open>
  The jobs behind its running tasks go on, and the call succeeds for a workflow that is finished or
  does not exist.
\<close>

lemma cancelled_workflow_keeps_jobs:
  "jobs_table (snd (cancel_workflow_stmt wid now d)) = jobs_table d" "fst (cancel_workflow_stmt wid now d) = Inr ()"
  by (simp_all add: cancel_workflow_stmt_def Let_def)

section \<open>A reaped worker that is alive stays OFFLINE\<close>

text \<open>Its heartbeats go on, but none makes it ACTIVE, so that it is never found dead again.\<close>

lemma update_where_all:
  assumes "x \<in> set (update_where p f xs)" and "\<And>y. y \<in> set xs \<Longrightarrow> p y \<Longrightarrow> P (f y)"
    and "\<And>y. y \<in> set xs \<Longrightarrow> \<not> p y \<Longrightarrow> P y"
  shows "P x"
  using assms by (auto simp: update_where_def split: if_splits)

lemma workers_table_update: "workers_table (update_workers p f d) = update_where p f (workers_table d)"
  by (simp add: update_workers_def)

lemma offline_set:
  assumes "k \<in> set (workers_table (snd (set_status_stmt wid WorkerStatusOffline t d)))"
  shows "w_ID k = wid \<longrightarrow> w_Status k = WorkerStatusOffline"
  using assms unfolding set_status_stmt_def snd_conv workers_table_update
  by (rule update_where_all) simp_all

lemma reaped_worker_stays_offline:
  assumes "k \<in> set (workers_table (snd (heartbeat_stmt wid now (snd (set_status_stmt wid WorkerStatusOffline t d)))))"
  shows "w_ID k = wid \<longrightarrow> w_Status k = WorkerStatusOffline \<and> \<not> dead_worker cutoff k"
  using assms unfolding heartbeat_stmt_def snd_conv workers_table_update
  by (rule update_where_all) (auto dest!: offline_set simp: dead_worker_def)

end
