(* ===== verification/Spec2Isabelle.thy ===== *)
theory Spec2Isabelle
  imports Shutdown Flow_Props Deployment Known_Limits
begin

text \<open>
  A model of the Distributed Workflow Engine: the Go backend under \<open>src/backend\<close>, which accepts
  jobs and workflows (DAGs of tasks) over HTTP, keeps them in PostgreSQL, dispatches them through
  priority queues in Redis and runs them in worker processes.

  \<^bold>\<open>The program and the model.\<close> PostgreSQL is the source of truth; Redis holds, for each queue, a
  sorted set per priority and one of the deliveries in progress. The API process serves requests
  and runs three loops: the retry scheduler, the worker supervisor and the workflow engine. A worker
  process claims deliveries, runs handlers and records the outcome.

  \<^item> \<open>Prelude\<close>: the state monad's lemmas, the invariant rules collected in \<open>pres\<close>, tables as lists.
  \<^item> \<open>Domain_Types\<close>: \<open>internal/domain\<close>, its records, statuses and constants. \<open>Metrics\<close>:
    \<open>internal/metrics\<close>, as the calls made on the Prometheus client.
  \<^item> \<open>Dag\<close>: \<open>ValidateDAG\<close> (\<open>internal/domain/workflow.go\<close>), with its two passes and Kahn's loop. The
    order in which Go iterates over a map is the parameter \<open>ord\<close>, any permutation.
  \<^item> \<open>Redis_Server\<close>, \<open>Runtime\<close>: what is outside the repository. Sorted sets and UUID text are
    records of functions with their documented laws in the locales \<open>sorted_set\<close> and \<open>uuid_text\<close>, and
    one implementation of each. A world is the four tables, the Redis keyspace, a call counter and
    the metrics; an environment decides the clock, the fate of each call, generated ids and random
    numbers, the rows locked by other transactions, and what the others do before each call.
  \<^item> \<open>Queue_Interface\<close>: \<open>internal/queue/queue.go\<close>, the Go interface as a record of operations and its
    contract as the locale \<open>dispatch_queue\<close> over an abstract queue. \<open>Redis_Queue\<close>:
    \<open>internal/queue/redis.go\<close>, both Lua scripts and every method, proved to meet the contract
    (\<open>sublocale\<close>). \<open>Queue_Trace\<close>, \<open>Queue_Props\<close>: sequences of operations by any number of processes.
  \<^item> \<open>Job_Store\<close>, \<open>Worker_Store\<close>, \<open>Workflow_Store\<close>: \<open>internal/store\<close>, one function on the tables per
    SQL statement and one monadic definition per method. \<open>Migrate\<close>: \<open>internal/store/migrate.go\<close>.
  \<^item> \<open>Backoff\<close>, \<open>Scheduler\<close>, \<open>Supervisor\<close>, \<open>Worker\<close>, \<open>Workflow_Engine\<close>, \<open>Handlers\<close>: the files of
    \<open>internal/engine\<close>, each operation whole, with its calls in the order of the code.
  \<^item> \<open>Api\<close>, \<open>Router\<close>: \<open>internal/api\<close>, the handlers on decoded requests, and the route table on a
    model of \<open>net/http\<close>'s \<open>ServeMux\<close> with the three middlewares. \<open>Config\<close>: \<open>internal/config\<close>.
    \<open>Processes\<close>: \<open>cmd/api\<close> and \<open>cmd/worker\<close>, the start-up and the wiring.
  \<^item> \<open>Worker_Run\<close>: \<open>Worker.Run\<close> as a whole, a step relation over its loop and any number of
    goroutines in the middle of their attempts. \<open>Deployment\<close>: the API process while it serves and
    shuts down, and any number of API and worker processes on the same servers.

  \<^bold>\<open>What the lemmas show.\<close> \<open>Dag\<close>: \<open>ValidateDAG\<close> accepts exactly the well-formed acyclic graphs and
  reports the first error. \<open>Queue_Props\<close>: the claim order, its shares of 6:3:1 and the bound on
  waiting; the Redis queue refines the abstract one under every fault, loses nothing and delivers
  exclusively. \<open>Db_Step\<close> and \<open>System\<close>: every activity of every process changes the database only
  by the statements of \<open>db_step\<close>, under any faults and any interference that does the same, so
  that the invariant \<open>db_ok\<close> and the job life cycle (\<open>Job_Props\<close>) hold in every interleaving.
  \<open>Attempt_Props\<close>: the outcome of an attempt on every branch, and that deliveries end within
  \<open>max_attempts\<close>. \<open>Recovery_Props\<close>: scheduler and supervisor. \<open>Dag_Order\<close>, \<open>Engine_Props\<close>: tasks start
  in dependency order, a workflow is never stuck, and the verdict of a pass. \<open>Flow_Steps\<close>, \<open>Flow_Run\<close>,
  \<open>Flow_Calls\<close> and \<open>Flow_Props\<close> put the API, the engine, the queue and the workers together: with
  successful handlers a workflow ends SUCCEEDED, within a bounded number of rounds and calls.
  \<open>Worker_Loop\<close>: the slots alone. \<open>Worker_Run\<close>: the rows that run on a worker are those its goroutines
  execute, its run is safe for the data and can always stop. \<open>Deployment\<close>: the data survive every
  interleaving, fault and kill of all the processes. \<open>Shutdown\<close>: what a stop during an attempt leaves
  behind, the calls of a cancelled context being refused. \<open>Api_Props\<close>, \<open>Router_Props\<close>, \<open>Request_Props\<close>: creating and
  listing jobs, routing, safe methods, and that no request does more to the database than the
  statements it is made of. \<open>Known_Limits\<close>: behaviours the comments do not promise.

  \<^bold>\<open>Conventions and bounds.\<close> A round trip to PostgreSQL or Redis is one atomic call, delivered,
  refused, or applied with the reply lost; a transaction is one call. \<open>NOW()\<close> and \<open>time.Now()\<close> are
  the clock at the call's number. Ties of an \<open>ORDER BY\<close> keep the order of the table. \<open>INTEGER\<close>
  columns refuse values beyond 32 bits; Go's integers are kept in range by the code's own checks or
  written out with their wrap-around. \<open>float64\<close> is exact rounding to 53 bits. A background loop is
  its body repeated for any number of ticks, or a step that may be taken any number of times, so
  that no fuel is needed; loops of the code over
  lists are recursions on them, Kahn's loop ends by a measure, \<open>ParseDuration\<close> by length.

  \<^bold>\<open>Not modelled.\<close> JSON encoding and decoding (parameters), logging, payload contents (opaque
  text; PostgreSQL's normal form of \<open>JSONB\<close> and its refusal of NUL characters are left out), the
  Prometheus page, TCP and TLS, connection pools, the time limits of contexts beyond their effect as
  a refused call, a handler's error or a shutdown that gives up. A signal, a failing listener and
  a cancelled context are steps that may come at any moment. A nil queue in the worker, which stops
  its loop at once and which \<open>main\<close> never passes, is left out. The SQL text of the migrations
  defines the tables; their columns, keys and checks are part of the stores. The frontend in
  TypeScript is a client of the API and holds no core logic.
\<close>

end
